(* ===== verification/Tentris_Prelude.thy ===== *)
theory Tentris_Prelude
  imports Main "HOL-Library.Word" "HOL-Library.AList"
begin

text \<open>
  The vocabulary the component theories share.

  \<^item> Machine integers: \<open>uint8\<close> (also C++ \<open>char\<close>, of which the code only uses the eight bits
    and the wrap-around of \<open>++\<close>) and \<open>size_t\<close>.
  \<^item> Failures as values: every \<open>throw\<close> of the code is a constructor of \<open>exn\<close> (\<open>LibraryError\<close> for an
    exception that a library function throws through it), and so is every operation the C++ standard leaves undefined (dereferencing a null context, reading
    \<open>back()\<close> of an empty vector, using an iterator or reference whose element is gone).
    An exception that leaves a \<open>noexcept\<close> function ends the process (\<open>Terminated\<close>).
    A definition that can fail returns \<open>exn + 'a\<close>; \<open>OutOfFuel\<close> is only produced by the
    recursion bound of a fuelled definition.
  \<^item> Loops that may throw: \<open>mfold\<close> runs a fallible loop body over a vector, left to right,
    stopping at the first failure.
  \<^item> \<open>std::vector\<close> used as a stack: \<open>back_of\<close>, \<open>pop_back\<close> and \<open>modify_back\<close> fail on the empty
    vector, and \<open>std::string::substr\<close> and \<open>find\<close> follow the standard, wrap-around included.
\<close>

type_synonym uint8 = "8 word"
type_synonym size_t = "64 word"

datatype exn =
    RuntimeError string
  | LibraryError string
  | OutOfRange
  | BadOptionalAccess
  | NullDeref
  | EmptyVector
  | Dangling
  | Terminated
  | OutOfFuel

text \<open>What \<open>catch (std::exception const &)\<close> catches: undefined behaviour is not an exception.\<close>

fun is_std_exception :: "exn \<Rightarrow> bool" where
  "is_std_exception (RuntimeError _) = True"
| "is_std_exception (LibraryError _) = True"
| "is_std_exception OutOfRange = True"
| "is_std_exception BadOptionalAccess = True"
| "is_std_exception _ = False"

named_theorems fallible \<open>equations that evaluate the error plumbing\<close>
named_theorems inv_intros \<open>preservation lemmas of component invariants\<close>

subsection \<open>Fallible computations\<close>

definition bind_res :: "exn + 'a \<Rightarrow> ('a \<Rightarrow> exn + 'b) \<Rightarrow> exn + 'b" where
  "bind_res m f = (case m of Inl e \<Rightarrow> Inl e | Inr x \<Rightarrow> f x)"

lemma bind_res_simps [simp, fallible]:
  "bind_res (Inl e) f = Inl e"
  "bind_res (Inr x) f = f x"
  by (simp_all add: bind_res_def)

lemma bind_res_Inr_iff [simp]:
  "bind_res m f = Inr y \<longleftrightarrow> (\<exists>x. m = Inr x \<and> f x = Inr y)"
  by (cases m) auto

lemma bind_res_Inl_iff:
  "bind_res m f = Inl e \<longleftrightarrow> m = Inl e \<or> (\<exists>x. m = Inr x \<and> f x = Inl e)"
  by (cases m) auto

lemma bind_res_cong [fundef_cong]:
  "m = m' \<Longrightarrow> (\<And>x. m' = Inr x \<Longrightarrow> f x = f' x) \<Longrightarrow> bind_res m f = bind_res m' f'"
  by (cases m') auto

lemma bind_res_assoc: "bind_res (bind_res m f) g = bind_res m (\<lambda>x. bind_res (f x) g)"
  by (cases m) auto

fun mfold :: "('a \<Rightarrow> 's \<Rightarrow> exn + 's) \<Rightarrow> 'a list \<Rightarrow> 's \<Rightarrow> exn + 's" where
  "mfold f [] s = Inr s"
| "mfold f (x # xs) s = bind_res (f x s) (mfold f xs)"

lemma mfold_append: "mfold f (xs @ ys) s = bind_res (mfold f xs s) (mfold f ys)"
proof (induction xs arbitrary: s)
  case Nil
  show ?case by simp
next
  case (Cons x xs)
  then show ?case by (cases "f x s") simp_all
qed

lemma mfold_cong [fundef_cong]:
  "xs = ys \<Longrightarrow> s = t \<Longrightarrow> (\<And>x s. x \<in> set ys \<Longrightarrow> f x s = g x s) \<Longrightarrow> mfold f xs s = mfold g ys t"
  by (induction xs arbitrary: ys s t) (auto intro!: bind_res_cong)

text \<open>A loop invariant of \<open>mfold\<close>, for the elements the loop really visits.\<close>

lemma mfold_invariant:
  assumes "mfold f xs s = Inr s'"
    and "P s"
    and "\<And>x s s'. x \<in> set xs \<Longrightarrow> P s \<Longrightarrow> f x s = Inr s' \<Longrightarrow> P s'"
  shows "P s'"
  using assms by (induction xs arbitrary: s) auto

text \<open>An error of the loop is an error of some iteration, reached in a state of the invariant.\<close>

lemma mfold_error:
  assumes "mfold f xs s = Inl e"
    and "P s"
    and "\<And>x s s'. x \<in> set xs \<Longrightarrow> P s \<Longrightarrow> f x s = Inr s' \<Longrightarrow> P s'"
  shows "\<exists>x \<in> set xs. \<exists>t. P t \<and> f x t = Inl e"
  using assms
proof (induction xs arbitrary: s)
  case Nil
  then show ?case by simp
next
  case (Cons x xs)
  show ?case
  proof (cases "f x s")
    case (Inl e')
    with Cons.prems(1,2) show ?thesis by auto
  next
    case (Inr u)
    with Cons.prems(1) have "mfold f xs u = Inl e" by simp
    moreover have "P u" using Cons.prems(2,3) Inr by auto
    ultimately show ?thesis using Cons.IH [of u] Cons.prems(3) by (metis list.set_intros(2))
  qed
qed

text \<open>A loop whose body only appends to a trace appends the concatenation of the pieces.\<close>

lemma mfold_appends:
  assumes "mfold f xs s = Inr s'"
    and "\<And>x s s'. x \<in> set xs \<Longrightarrow> f x s = Inr s' \<Longrightarrow> t s' = t s @ d x"
  shows "t s' = t s @ concat (map d xs)"
  using assms
proof (induction xs arbitrary: s)
  case Nil
  then show ?case by simp
next
  case (Cons x xs)
  from Cons.prems(1) obtain u where u: "f x s = Inr u" "mfold f xs u = Inr s'"
    by auto
  have "t s' = t u @ concat (map d xs)"
    by (rule Cons.IH [OF u(2)]) (simp add: Cons.prems(2))
  moreover have "t u = t s @ d x"
    using u(1) by (simp add: Cons.prems(2))
  ultimately show ?case by simp
qed

text \<open>
  \<open>outcome E P r\<close>: the computation returned a value satisfying \<open>P\<close>, or failed with an error
  satisfying \<open>E\<close>. Its rules follow the shape of the code.
\<close>

fun outcome :: "(exn \<Rightarrow> bool) \<Rightarrow> ('a \<Rightarrow> bool) \<Rightarrow> exn + 'a \<Rightarrow> bool" where
  "outcome E P (Inl e) = E e"
| "outcome E P (Inr x) = P x"

lemma outcome_bind:
  "outcome E Q m \<Longrightarrow> (\<And>x. Q x \<Longrightarrow> outcome E P (f x)) \<Longrightarrow> outcome E P (bind_res m f)"
  by (cases m) auto

lemma outcome_mono:
  "outcome E P r \<Longrightarrow> (\<And>e. E e \<Longrightarrow> E' e) \<Longrightarrow> (\<And>x. P x \<Longrightarrow> P' x) \<Longrightarrow> outcome E' P' r"
  by (cases r) auto

lemma outcome_conj: "outcome E P r \<Longrightarrow> outcome E Q r \<Longrightarrow> outcome E (\<lambda>x. P x \<and> Q x) r"
  by (cases r) auto

lemma outcome_mfold:
  assumes "P s" and "\<And>x s. x \<in> set xs \<Longrightarrow> P s \<Longrightarrow> outcome E P (f x s)"
  shows "outcome E P (mfold f xs s)"
  using assms
proof (induction xs arbitrary: s)
  case Nil
  then show ?case by simp
next
  case (Cons x xs)
  from Cons.prems have "outcome E P (f x s)" by simp
  then show ?case
    using Cons.IH Cons.prems(2) by (auto intro!: outcome_bind)
qed

lemma outcome_Inr: "outcome E P r \<Longrightarrow> r = Inr x \<Longrightarrow> P x"
  by simp

definition map_res :: "('a \<Rightarrow> 'b) \<Rightarrow> exn + 'a \<Rightarrow> exn + 'b" where
  "map_res g m = bind_res m (\<lambda>x. Inr (g x))"

lemma map_res_simps [simp, fallible]: "map_res g (Inl e) = Inl e" "map_res g (Inr x) = Inr (g x)"
  by (simp_all add: map_res_def)

lemma map_res_bind: "map_res g (bind_res m f) = bind_res m (\<lambda>x. map_res g (f x))"
  by (simp add: map_res_def bind_res_assoc)

lemma bind_map_res: "bind_res (map_res g m) f = bind_res m (\<lambda>x. f (g x))"
  by (cases m) auto

text \<open>A loop whose body commutes with a state transformation commutes with it as a whole.\<close>

lemma mfold_commute:
  assumes "\<And>x s. f x (g s) = map_res g (f x s)"
  shows "mfold f xs (g s) = map_res g (mfold f xs s)"
proof (induction xs arbitrary: s)
  case Nil
  show ?case by simp
next
  case (Cons x xs)
  then show ?case by (cases "f x s") (simp_all add: assms)
qed

text \<open>A loop simulates the loop over the pieces its elements expand to.\<close>

lemma mfold_simulates:
  assumes "\<And>x s. x \<in> set xs \<Longrightarrow> f x (g s) = map_res g (mfold h (e x) s)"
  shows "mfold f xs (g s) = map_res g (mfold h (concat (map e xs)) s)"
  using assms
proof (induction xs arbitrary: s)
  case Nil
  show ?case by simp
next
  case (Cons x xs)
  show ?case
  proof (cases "mfold h (e x) s")
    case (Inl err)
    then show ?thesis by (simp add: Cons.prems mfold_append)
  next
    case (Inr t)
    then show ?thesis using Cons.IH [of t] by (simp add: Cons.prems mfold_append)
  qed
qed

text \<open>The body of a \<open>noexcept\<close> function.\<close>

definition no_except :: "exn + 'a \<Rightarrow> exn + 'a" where
  "no_except m = (case m of Inl e \<Rightarrow> Inl (if is_std_exception e then Terminated else e) | Inr x \<Rightarrow> Inr x)"

lemma no_except_simps [simp, fallible]:
  "no_except (Inl e) = Inl (if is_std_exception e then Terminated else e)"
  "no_except (Inr x) = Inr x"
  by (simp_all add: no_except_def)

lemma no_except_Inr_iff [simp]: "no_except m = Inr x \<longleftrightarrow> m = Inr x"
  by (cases m) simp_all

lemma no_except_Inl_iff:
  "no_except m = Inl e \<longleftrightarrow> (\<exists>e'. m = Inl e' \<and> e = (if is_std_exception e' then Terminated else e'))"
  by (cases m) auto

text \<open>Library functions report failure with a message.\<close>

definition lib :: "string + 'a \<Rightarrow> exn + 'a" where
  "lib m = (case m of Inl msg \<Rightarrow> Inl (LibraryError msg) | Inr x \<Rightarrow> Inr x)"

lemma lib_simps [simp, fallible]: "lib (Inl msg) = Inl (LibraryError msg)" "lib (Inr x) = Inr x"
  by (simp_all add: lib_def)

subsection \<open>Vectors used as stacks\<close>

definition back_of :: "'a list \<Rightarrow> exn + 'a" where
  "back_of xs = (if xs = [] then Inl EmptyVector else Inr (last xs))"

definition pop_back :: "'a list \<Rightarrow> exn + 'a list" where
  "pop_back xs = (if xs = [] then Inl EmptyVector else Inr (butlast xs))"

definition modify_back :: "('a \<Rightarrow> 'a) \<Rightarrow> 'a list \<Rightarrow> exn + 'a list" where
  "modify_back f xs = (if xs = [] then Inl EmptyVector else Inr (butlast xs @ [f (last xs)]))"

lemma stack_snoc [simp, fallible]:
  "back_of (xs @ [x]) = Inr x"
  "pop_back (xs @ [x]) = Inr xs"
  "modify_back f (xs @ [x]) = Inr (xs @ [f x])"
  by (simp_all add: back_of_def pop_back_def modify_back_def)

lemma back_of_Inr: "back_of xs = Inr x \<longleftrightarrow> (\<exists>ys. xs = ys @ [x])"
  by (auto simp: back_of_def intro: append_butlast_last_id [symmetric])

lemma modify_back_Inr: "modify_back f xs = Inr zs \<longleftrightarrow> (\<exists>ys x. xs = ys @ [x] \<and> zs = ys @ [f x])"
  by (cases xs rule: rev_cases) (auto simp: modify_back_def)

lemma pop_back_Inr: "pop_back xs = Inr ys \<longleftrightarrow> (\<exists>x. xs = ys @ [x])"
  by (cases xs rule: rev_cases) (auto simp: pop_back_def)

subsection \<open>First occurrences\<close>

text \<open>The elements of a list not seen before, in order of first occurrence.\<close>

fun nub_acc :: "'a set \<Rightarrow> 'a list \<Rightarrow> 'a list" where
  "nub_acc seen [] = []"
| "nub_acc seen (x # xs) = (if x \<in> seen then nub_acc seen xs else x # nub_acc (insert x seen) xs)"

lemma set_nub_acc [simp]: "set (nub_acc seen xs) = set xs - seen"
  by (induction xs arbitrary: seen) auto

lemma distinct_nub_acc [simp]: "distinct (nub_acc seen xs)"
  by (induction xs arbitrary: seen) auto

lemma nub_acc_append: "nub_acc seen (xs @ ys) = nub_acc seen xs @ nub_acc (seen \<union> set xs) ys"
  by (induction xs arbitrary: seen) (auto simp: insert_absorb)

lemma nub_acc_id: "distinct xs \<Longrightarrow> set xs \<inter> seen = {} \<Longrightarrow> nub_acc seen xs = xs"
  by (induction xs arbitrary: seen) auto

subsection \<open>Association lists\<close>

lemma alist_update_absent: "k \<notin> fst ` set al \<Longrightarrow> AList.update k v al = al @ [(k, v)]"
  by (induction al) auto

lemma alist_delete_filter: "AList.delete k al = filter (\<lambda>p. fst p \<noteq> k) al"
  by (induction al) auto

lemma set_alist_delete: "set (AList.delete k al) = {p \<in> set al. fst p \<noteq> k}"
  by (auto simp: alist_delete_filter)

subsection \<open>Strings\<close>

text \<open>Unsigned subtraction of \<open>size_t\<close> values held as naturals below \<open>2 ^ 64\<close>.\<close>

definition sz_sub :: "nat \<Rightarrow> nat \<Rightarrow> nat" where
  "sz_sub a b = (if b \<le> a then a - b else 2 ^ 64 + a - b)"

definition npos :: nat where
  "npos = 2 ^ 64 - 1"

definition sz_succ :: "nat \<Rightarrow> nat" where
  "sz_succ a = (a + 1) mod 2 ^ 64"

definition substr :: "string \<Rightarrow> nat \<Rightarrow> nat \<Rightarrow> exn + string" where
  "substr s pos n = (if length s < pos then Inl OutOfRange else Inr (take n (drop pos s)))"

definition find_char :: "string \<Rightarrow> char \<Rightarrow> nat" where
  "find_char s c = (let p = length (takeWhile (\<lambda>x. x \<noteq> c) s) in if p < length s then p else npos)"

lemma find_char_first: "c \<notin> set p \<Longrightarrow> find_char (p @ c # l) c = length p"
proof -
  assume "c \<notin> set p"
  then have "takeWhile (\<lambda>x. x \<noteq> c) (p @ c # l) = p"
    by (induction p) auto
  then show ?thesis by (simp add: find_char_def)
qed

text \<open>Stripping a delimiter of \<open>k\<close> characters from both ends, as the code does with \<open>substr\<close>.\<close>

lemma substr_strip:
  "length a = k \<Longrightarrow> length b = k \<Longrightarrow> substr (a @ s @ b) k (sz_sub (length (a @ s @ b)) (2 * k)) = Inr s"
  by (simp add: substr_def sz_sub_def)

subsection \<open>Bytes\<close>

lemma unat_of_nat_uint8 [simp]: "k < 256 \<Longrightarrow> unat (of_nat k :: uint8) = k"
  by (simp add: unsigned_of_nat take_bit_nat_eq_self)

lemma of_nat_uint8_inject: "i < 256 \<Longrightarrow> j < 256 \<Longrightarrow> (of_nat i :: uint8) = of_nat j \<longleftrightarrow> i = j"
  using unat_of_nat_uint8 by metis

text \<open>Counting bytes up from any start is injective on at most 256 steps, and only on those.\<close>

lemma uint8_count_inj:
  fixes a :: uint8
  shows "inj_on (\<lambda>i. a + of_nat i) {..<n} \<longleftrightarrow> n \<le> 256"
proof
  assume inj: "inj_on (\<lambda>i. a + of_nat i :: uint8) {..<n}"
  show "n \<le> 256"
  proof (rule ccontr)
    assume "\<not> n \<le> 256"
    moreover have "a + of_nat 0 = (a + of_nat 256 :: uint8)" by simp
    ultimately show False using inj_onD [OF inj, of 0 256] by simp
  qed
next
  assume "n \<le> 256"
  then show "inj_on (\<lambda>i. a + of_nat i :: uint8) {..<n}"
    by (auto simp: inj_on_def of_nat_uint8_inject)
qed

end
