(* ===== verification/Lru_Cache.thy ===== *)
theory Lru_Cache
  imports Tentris_Prelude "HOL-Library.Sublist"
begin

text \<open>
  \<open>libs/endpoint/src/dice/endpoint/SyncedLRUCache.hpp\<close>: the query cache of the endpoints, a hash
  map from keys to iterators into a \<open>std::list\<close> kept in order of use. Every public operation holds
  \<open>lock_\<close> for its whole body, so concurrent use is some sequence of these operations.

  A node of the \<open>std::list\<close> carries its identity \<open>iter\<close>: list iterators stay valid when nodes are
  spliced and become dangling when their node is popped, which the model checks at every
  dereference. The \<open>robin_hood\<close> map is an association list with distinct keys, so that \<open>size()\<close> is
  computed. Constructing a value (\<open>std::make_shared<Value>(key)\<close>) may throw; it is the argument
  \<open>mk\<close>. Sizes are \<open>size_t\<close>, so \<open>max_size + elasticity\<close> wraps.
  Members lose their trailing underscore, which HOL names cannot end in.
\<close>

subsection \<open>State and operations\<close>

record ('k, 'v) node_type =
  iter :: nat
  node_key :: 'k
  node_value :: 'v

record ('k, 'v) lru_cache =
  cache :: "('k \<times> nat) list"
  lru_list :: "('k, 'v) node_type list"
  next_iter :: nat
  max_size :: size_t
  elasticity :: size_t

definition lru_new :: "size_t \<Rightarrow> size_t \<Rightarrow> ('k, 'v) lru_cache" where
  "lru_new msize elast =
     \<lparr>cache = [], lru_list = [], next_iter = 0, max_size = msize, elasticity = elast\<rparr>"

lemma lru_new_simps [simp]:
  "cache (lru_new m e) = []" "lru_list (lru_new m e) = []"
  "max_size (lru_new m e) = m" "elasticity (lru_new m e) = e"
  by (simp_all add: lru_new_def)

definition lru_size :: "('k, 'v) lru_cache \<Rightarrow> nat" where
  "lru_size c = length (cache c)"

definition lru_empty :: "('k, 'v) lru_cache \<Rightarrow> bool" where
  "lru_empty c \<longleftrightarrow> cache c = []"

definition lru_clear :: "('k, 'v) lru_cache \<Rightarrow> ('k, 'v) lru_cache" where
  "lru_clear c = c\<lparr>cache := [], lru_list := []\<rparr>"

definition max_allowed_size :: "('k, 'v) lru_cache \<Rightarrow> size_t" where
  "max_allowed_size c = max_size c + elasticity c"

function prune_loop :: "size_t \<Rightarrow> ('k, 'v) lru_cache \<Rightarrow> exn + size_t \<times> ('k, 'v) lru_cache" where
  "prune_loop count c =
     (if unat (max_size c) < length (cache c)
      then if lru_list c = [] then Inl EmptyVector
           else prune_loop (count + 1)
                  (c\<lparr>cache := AList.delete (node_key (last (lru_list c))) (cache c),
                     lru_list := butlast (lru_list c)\<rparr>)
      else Inr (count, c))"
  by pat_completeness auto
termination
  by (relation "measure (\<lambda>(count, c). length (lru_list c))") auto

declare prune_loop.simps [simp del]

definition prune :: "('k, 'v) lru_cache \<Rightarrow> exn + size_t \<times> ('k, 'v) lru_cache" where
  "prune c =
     (if max_size c = 0 \<or> length (cache c) < unat (max_allowed_size c) then Inr (0, c)
      else prune_loop 0 c)"

definition deref :: "nat \<Rightarrow> ('k, 'v) node_type list \<Rightarrow> exn + ('k, 'v) node_type" where
  "deref it l = (case find (\<lambda>n. iter n = it) l of None \<Rightarrow> Inl Dangling | Some n \<Rightarrow> Inr n)"

text \<open>
  \<open>operator[]\<close>. The result is paired with the cache left behind, also when an exception leaves the
  operation: a throwing value constructor is called inside \<open>emplace_front\<close>, before the cache changes.
  The returned \<open>key_value.value\<close> is read after \<open>prune\<close> and so needs the new node to be alive.
\<close>

definition lru_get ::
  "('k \<Rightarrow> exn + 'v) \<Rightarrow> 'k \<Rightarrow> ('k, 'v) lru_cache \<Rightarrow> (exn + 'v) \<times> ('k, 'v) lru_cache" where
  "lru_get mk k c =
     (case map_of (cache c) k of
        None \<Rightarrow>
          (case mk k of
             Inl e \<Rightarrow> (Inl e, c)
           | Inr v \<Rightarrow>
               (let it = next_iter c;
                    c1 = c\<lparr>lru_list := \<lparr>iter = it, node_key = k, node_value = v\<rparr> # lru_list c,
                           next_iter := Suc it\<rparr>;
                    c2 = c1\<lparr>cache := AList.update k it (cache c1)\<rparr>
                in case prune c2 of
                     Inl e \<Rightarrow> (Inl e, c2)
                   | Inr (n, c3) \<Rightarrow>
                       (bind_res (deref it (lru_list c3)) (\<lambda>nd. Inr (node_value nd)), c3)))
      | Some it \<Rightarrow>
          (case deref it (lru_list c) of
             Inl e \<Rightarrow> (Inl e, c)
           | Inr nd \<Rightarrow>
               (Inr (node_value nd),
                c\<lparr>lru_list := nd # filter (\<lambda>m. iter m \<noteq> it) (lru_list c)\<rparr>)))"

text \<open>A sequence of accesses to any cache: the answers in order, and the cache left behind.\<close>

fun cache_run :: "('k \<Rightarrow> 'c \<Rightarrow> 'r \<times> 'c) \<Rightarrow> 'k list \<Rightarrow> 'c \<Rightarrow> 'r list \<times> 'c" where
  "cache_run get [] c = ([], c)"
| "cache_run get (k # ks) c =
     (case get k c of (r, c') \<Rightarrow> (case cache_run get ks c' of (rs, c'') \<Rightarrow> (r # rs, c'')))"

subsection \<open>Abstract specification: a list of entries in order of use\<close>

definition lru_abs :: "('k, 'v) lru_cache \<Rightarrow> ('k \<times> 'v) list" where
  "lru_abs c = map (\<lambda>n. (node_key n, node_value n)) (lru_list c)"

definition spec_prune :: "size_t \<Rightarrow> size_t \<Rightarrow> ('k \<times> 'v) list \<Rightarrow> ('k \<times> 'v) list" where
  "spec_prune m e xs = (if m = 0 \<or> length xs < unat (m + e) then xs else take (unat m) xs)"

definition spec_get ::
  "('k \<Rightarrow> exn + 'v) \<Rightarrow> size_t \<Rightarrow> size_t \<Rightarrow> 'k \<Rightarrow> ('k \<times> 'v) list \<Rightarrow> (exn + 'v) \<times> ('k \<times> 'v) list" where
  "spec_get mk m e k xs =
     (case map_of xs k of
        Some v \<Rightarrow> (Inr v, (k, v) # AList.delete k xs)
      | None \<Rightarrow> (case mk k of Inl x \<Rightarrow> (Inl x, xs) | Inr v \<Rightarrow> (Inr v, spec_prune m e ((k, v) # xs))))"

subsection \<open>The invariant: map and list describe the same entries\<close>

definition lru_inv :: "('k, 'v) lru_cache \<Rightarrow> bool" where
  "lru_inv c \<longleftrightarrow>
     distinct (map fst (cache c)) \<and> distinct (map node_key (lru_list c)) \<and>
     distinct (map iter (lru_list c)) \<and> (\<forall>n \<in> set (lru_list c). iter n < next_iter c) \<and>
     set (cache c) = (\<lambda>n. (node_key n, iter n)) ` set (lru_list c)"

lemma lru_inv_new: "lru_inv (lru_new m e)"
  by (simp add: lru_inv_def lru_new_def)

lemma lru_inv_clear: "lru_inv c \<Longrightarrow> lru_inv (lru_clear c)"
  by (simp add: lru_inv_def lru_clear_def)

lemma lru_inv_size:
  assumes "lru_inv c"
  shows "length (cache c) = length (lru_list c)"
proof -
  have "set (map fst (cache c)) = set (map node_key (lru_list c))"
    using assms by (simp add: lru_inv_def image_image)
  then have "card (set (map fst (cache c))) = card (set (map node_key (lru_list c)))"
    by (rule arg_cong)
  moreover have "card (set (map fst (cache c))) = length (map fst (cache c))"
    using assms by (intro distinct_card) (simp add: lru_inv_def)
  moreover have "card (set (map node_key (lru_list c))) = length (map node_key (lru_list c))"
    using assms by (intro distinct_card) (simp add: lru_inv_def)
  ultimately show ?thesis by simp
qed

text \<open>Looking a key up in the map finds the node of the list that holds the key, and only that.\<close>

lemma lru_inv_lookup_None: "lru_inv c \<Longrightarrow> map_of (cache c) k = None \<longleftrightarrow> k \<notin> node_key ` set (lru_list c)"
  by (simp add: lru_inv_def map_of_eq_None_iff image_image)

lemma lru_inv_lookup_Some:
  assumes "lru_inv c" and "map_of (cache c) k = Some it"
  obtains n where "n \<in> set (lru_list c)" "node_key n = k" "iter n = it" "deref it (lru_list c) = Inr n"
proof -
  from assms(2) have "(k, it) \<in> set (cache c)" by (rule map_of_SomeD)
  then obtain n where n: "n \<in> set (lru_list c)" "node_key n = k" "iter n = it"
    using assms(1) by (auto simp: lru_inv_def)
  have "find (\<lambda>m. iter m = it) (lru_list c) = Some n"
  proof -
    have "\<And>l. n \<in> set l \<Longrightarrow> distinct (map iter l) \<Longrightarrow> find (\<lambda>m. iter m = it) l = Some n"
      subgoal for l using n(3) by (induction l) auto
      done
    then show ?thesis using n(1) assms(1) by (simp add: lru_inv_def)
  qed
  with n show ?thesis by (intro that) (simp_all add: deref_def)
qed

subsection \<open>Every operation keeps the invariant\<close>

lemma lru_inv_remove_last [inv_intros]:
  assumes "lru_inv c" and "lru_list c = l @ [n]"
  shows "lru_inv (c\<lparr>cache := AList.delete (node_key n) (cache c), lru_list := l\<rparr>)"
  using assms
  by (auto simp: lru_inv_def set_alist_delete distinct_delete image_iff)

lemma lru_inv_insert [inv_intros]:
  assumes "lru_inv c" and "k \<notin> node_key ` set (lru_list c)"
  shows "lru_inv (c\<lparr>lru_list := \<lparr>iter = next_iter c, node_key = k, node_value = v\<rparr> # lru_list c,
                    next_iter := Suc (next_iter c),
                    cache := AList.update k (next_iter c) (cache c)\<rparr>)"
proof -
  have "k \<notin> fst ` set (cache c)"
    using assms by (simp add: lru_inv_def image_image)
  then show ?thesis
    using assms by (auto simp: lru_inv_def alist_update_absent less_Suc_eq)
qed

lemma lru_inv_touch [inv_intros]:
  assumes inv: "lru_inv c" and n: "n \<in> set (lru_list c)"
  shows "lru_inv (c\<lparr>lru_list := n # filter (\<lambda>m. iter m \<noteq> iter n) (lru_list c)\<rparr>)"
proof -
  have iters: "inj_on iter (set (lru_list c))" and keys: "inj_on node_key (set (lru_list c))"
    using inv by (simp_all add: lru_inv_def distinct_map)
  have same: "set (n # filter (\<lambda>m. iter m \<noteq> iter n) (lru_list c)) = set (lru_list c)"
    using n iters by (auto dest: inj_onD)
  have "node_key n \<notin> node_key ` set (filter (\<lambda>m. iter m \<noteq> iter n) (lru_list c))"
    using n keys by (auto dest: inj_onD)
  with same inv n show ?thesis
    by (auto simp: lru_inv_def distinct_map_filter)
qed

lemma prune_loop_take:
  assumes "lru_inv c"
  shows "\<exists>ca. prune_loop cnt c =
           Inr (cnt + of_nat (length (lru_list c) - unat (max_size c)),
                c\<lparr>cache := ca, lru_list := take (unat (max_size c)) (lru_list c)\<rparr>) \<and>
         lru_inv (c\<lparr>cache := ca, lru_list := take (unat (max_size c)) (lru_list c)\<rparr>)"
  using assms
proof (induction cnt c rule: prune_loop.induct)
  case (1 cnt c)
  note len = lru_inv_size [OF "1.prems"]
  show ?case
  proof (cases "unat (max_size c) < length (lru_list c)")
    case False
    then have "c\<lparr>cache := cache c, lru_list := take (unat (max_size c)) (lru_list c)\<rparr> = c"
      by simp
    with False "1.prems" len show ?thesis
      by (intro exI [of _ "cache c"]) (simp add: prune_loop.simps [of cnt c])
  next
    case True
    then obtain l n where l: "lru_list c = l @ [n]"
      by (cases "lru_list c" rule: rev_cases) auto
    let ?c = "c\<lparr>cache := AList.delete (node_key n) (cache c), lru_list := l\<rparr>"
    have unfold: "prune_loop cnt c = prune_loop (cnt + 1) ?c"
      using True len l by (simp add: prune_loop.simps [of cnt c])
    have steps: "cnt + of_nat (length (lru_list c) - unat (max_size c)) =
        cnt + 1 + of_nat (length l - unat (max_size c))"
      using True l by (simp add: Suc_diff_le)
    obtain ca where "prune_loop (cnt + 1) ?c =
          Inr (cnt + 1 + of_nat (length l - unat (max_size c)),
               ?c\<lparr>cache := ca, lru_list := take (unat (max_size c)) l\<rparr>)"
        "lru_inv (?c\<lparr>cache := ca, lru_list := take (unat (max_size c)) l\<rparr>)"
      using "1.IH" True len l lru_inv_remove_last [OF "1.prems" l] by auto
    moreover have "take (unat (max_size c)) (lru_list c) = take (unat (max_size c)) l"
      using True l by simp
    ultimately show ?thesis
      unfolding unfold steps by (intro exI [of _ ca]) simp
  qed
qed

lemma prune_spec:
  assumes "lru_inv c"
  shows "\<exists>cnt ca xs. prune c = Inr (cnt, c\<lparr>cache := ca, lru_list := xs\<rparr>) \<and>
           lru_inv (c\<lparr>cache := ca, lru_list := xs\<rparr>) \<and>
           xs = (if max_size c = 0 \<or> length (lru_list c) < unat (max_size c + elasticity c) then lru_list c
                 else take (unat (max_size c)) (lru_list c))"
proof (cases "max_size c = 0 \<or> length (lru_list c) < unat (max_size c + elasticity c)")
  case True
  moreover have "c\<lparr>cache := cache c, lru_list := lru_list c\<rparr> = c" by simp
  ultimately show ?thesis
    using assms lru_inv_size [OF assms]
    by (intro exI [of _ 0] exI [of _ "cache c"] exI [of _ "lru_list c"])
       (simp add: prune_def max_allowed_size_def)
next
  case False
  then show ?thesis
    using prune_loop_take [OF assms, of 0] lru_inv_size [OF assms]
    by (auto simp: prune_def max_allowed_size_def)
qed

subsection \<open>Refinement: the map-and-list code implements the ordered list\<close>

lemma lru_abs_lookup:
  assumes "lru_inv c"
  shows "map_of (lru_abs c) k =
           (case map_of (cache c) k of None \<Rightarrow> None
            | Some it \<Rightarrow> (case deref it (lru_list c) of Inl e \<Rightarrow> None | Inr n \<Rightarrow> Some (node_value n)))"
proof (cases "map_of (cache c) k")
  case None
  with lru_inv_lookup_None [OF assms] have "k \<notin> fst ` set (lru_abs c)"
    by (auto simp: lru_abs_def)
  then have "map_of (lru_abs c) k = None" by (simp add: map_of_eq_None_iff)
  with None show ?thesis by simp
next
  case (Some it)
  obtain n where n: "n \<in> set (lru_list c)" "node_key n = k" "deref it (lru_list c) = Inr n"
    using lru_inv_lookup_Some [OF assms Some] by blast
  have "distinct (map fst (lru_abs c))"
    using assms by (simp add: lru_abs_def lru_inv_def comp_def)
  moreover have "(k, node_value n) \<in> set (lru_abs c)"
    using n by (auto simp: lru_abs_def)
  ultimately show ?thesis
    using Some n by simp
qed

lemma lru_abs_touch:
  assumes "lru_inv c" and "n \<in> set (lru_list c)"
  shows "map (\<lambda>m. (node_key m, node_value m)) (filter (\<lambda>m. iter m \<noteq> iter n) (lru_list c)) =
         AList.delete (node_key n) (lru_abs c)"
proof -
  have "filter (\<lambda>m. iter m \<noteq> iter n) (lru_list c) = filter (\<lambda>m. node_key m \<noteq> node_key n) (lru_list c)"
    using assms by (intro filter_cong) (auto simp: lru_inv_def distinct_map dest: inj_onD)
  then show ?thesis
    by (simp add: lru_abs_def alist_delete_filter filter_map comp_def)
qed

lemma lru_get_refines:
  assumes inv: "lru_inv c" and get: "lru_get mk k c = (r, c')"
  shows "lru_inv c' \<and> spec_get mk (max_size c) (elasticity c) k (lru_abs c) = (r, lru_abs c') \<and>
         max_size c' = max_size c \<and> elasticity c' = elasticity c"
proof (cases "map_of (cache c) k")
  case (Some it)
  obtain n where n: "n \<in> set (lru_list c)" "node_key n = k" "iter n = it" "deref it (lru_list c) = Inr n"
    using lru_inv_lookup_Some [OF inv Some] by blast
  have "map_of (lru_abs c) k = Some (node_value n)"
    using Some n by (simp add: lru_abs_lookup [OF inv])
  moreover have "r = Inr (node_value n)"
      "c' = c\<lparr>lru_list := n # filter (\<lambda>m. iter m \<noteq> iter n) (lru_list c)\<rparr>"
    using get Some n by (auto simp: lru_get_def)
  ultimately show ?thesis
    using lru_inv_touch [OF inv n(1)] lru_abs_touch [OF inv n(1)] n(2)
    by (simp add: spec_get_def lru_abs_def)
next
  case None
  have absent: "k \<notin> node_key ` set (lru_list c)"
    using None lru_inv_lookup_None [OF inv] by blast
  have spec_None: "map_of (lru_abs c) k = None"
    using None by (simp add: lru_abs_lookup [OF inv])
  show ?thesis
  proof (cases "mk k")
    case (Inl e)
    then have "r = Inl e" "c' = c"
      using None get by (simp_all add: lru_get_def)
    with Inl spec_None inv show ?thesis
      by (simp add: spec_get_def)
  next
    case (Inr v)
    let ?n = "\<lparr>iter = next_iter c, node_key = k, node_value = v\<rparr>"
    let ?c2 = "c\<lparr>lru_list := ?n # lru_list c, next_iter := Suc (next_iter c),
                 cache := AList.update k (next_iter c) (cache c)\<rparr>"
    note inv2 = lru_inv_insert [OF inv absent, of v]
    obtain cnt ca xs where prune: "prune ?c2 = Inr (cnt, ?c2\<lparr>cache := ca, lru_list := xs\<rparr>)"
        "lru_inv (?c2\<lparr>cache := ca, lru_list := xs\<rparr>)"
      and xs': "xs = (if max_size ?c2 = 0 \<or> length (lru_list ?c2) < unat (max_size ?c2 + elasticity ?c2)
                      then lru_list ?c2 else take (unat (max_size ?c2)) (lru_list ?c2))"
      using prune_spec [OF inv2] by blast
    have xs: "xs = (if max_size c = 0 \<or> Suc (length (lru_list c)) < unat (max_size c + elasticity c)
                     then ?n # lru_list c else take (unat (max_size c)) (?n # lru_list c))"
      using xs' by simp
    have "\<exists>ys. xs = ?n # ys"
      using xs by (cases "unat (max_size c)") (auto simp: unat_eq_0)
    then have "deref (next_iter c) xs = Inr ?n"
      by (auto simp: deref_def)
    then have "r = Inr v" "c' = ?c2\<lparr>cache := ca, lru_list := xs\<rparr>"
      using get None Inr prune(1) by (auto simp: lru_get_def Let_def)
    then show ?thesis
      using spec_None Inr prune(2) xs
      by (simp add: spec_get_def spec_prune_def lru_abs_def take_map [symmetric])
  qed
qed

subsection \<open>The interface the endpoints use: a cache that only remembers\<close>

text \<open>
  The client calls \<open>get\<close> with a key and relies on the answer being the one that constructing the
  value anew would give, an exception included, whatever was asked before and whatever was evicted.
\<close>

locale memo_cache =
  fixes get :: "'k \<Rightarrow> 'c \<Rightarrow> 'r \<times> 'c"
    and mk :: "'k \<Rightarrow> 'r"
    and good :: "'c \<Rightarrow> bool"
  assumes get_answer: "good c \<Longrightarrow> fst (get k c) = mk k"
    and get_good: "good c \<Longrightarrow> good (snd (get k c))"
begin

lemma run_good: "good c \<Longrightarrow> good (snd (cache_run get ks c))"
proof (induction ks arbitrary: c)
  case Nil
  then show ?case by simp
next
  case (Cons k ks)
  then show ?case by (simp add: case_prod_beta get_good)
qed

lemma run_answers: "good c \<Longrightarrow> fst (cache_run get ks c) = map mk ks"
proof (induction ks arbitrary: c)
  case Nil
  then show ?case by simp
next
  case (Cons k ks)
  then show ?case by (simp add: case_prod_beta get_good get_answer)
qed

end

definition lru_coherent :: "('k \<Rightarrow> exn + 'v) \<Rightarrow> ('k, 'v) lru_cache \<Rightarrow> bool" where
  "lru_coherent mk c \<longleftrightarrow> (\<forall>(k, v) \<in> set (lru_abs c). mk k = Inr v)"

lemma spec_prune_subset: "set (spec_prune m e xs) \<subseteq> set xs"
  by (simp add: spec_prune_def set_take_subset)

lemma spec_get_answer:
  assumes "\<forall>(k, v) \<in> set xs. mk k = Inr v"
  shows "fst (spec_get mk m e k xs) = mk k \<and> (\<forall>(k, v) \<in> set (snd (spec_get mk m e k xs)). mk k = Inr v)"
proof (cases "map_of xs k")
  case None
  then show ?thesis
    using assms spec_prune_subset [of m e "(k, _) # xs"]
    by (cases "mk k") (fastforce simp: spec_get_def)+
next
  case (Some v)
  with assms have "mk k = Inr v" by (auto dest: map_of_SomeD)
  with Some assms show ?thesis by (auto simp: spec_get_def set_alist_delete)
qed

definition lru_good :: "('k \<Rightarrow> exn + 'v) \<Rightarrow> ('k, 'v) lru_cache \<Rightarrow> bool" where
  "lru_good mk c \<longleftrightarrow> lru_inv c \<and> lru_coherent mk c"

lemma lru_good_new: "lru_good mk (lru_new m e)"
  by (simp add: lru_good_def lru_inv_new) (simp add: lru_coherent_def lru_abs_def lru_new_def)

lemma lru_get_good:
  assumes "lru_good mk c"
  shows "fst (lru_get mk k c) = mk k \<and> lru_good mk (snd (lru_get mk k c))"
proof -
  obtain r c' where get: "lru_get mk k c = (r, c')" by (cases "lru_get mk k c")
  note refines = lru_get_refines [OF _ get]
  show ?thesis
    using refines assms spec_get_answer [of "lru_abs c" mk "max_size c" "elasticity c" k] get
    by (simp add: lru_good_def lru_coherent_def)
qed

interpretation lru: memo_cache "lru_get mk" mk "lru_good mk" for mk
  by unfold_locales (simp_all add: lru_get_good)

text \<open>
  C14. The query cache is transparent: whatever sequence of keys is asked of a new cache of any size
  and elasticity, each answer is the one constructing the value from the key gives, thrown
  exceptions included, and no operation runs into a dangling iterator or pops an empty list.
\<close>

theorem lru_transparent:
  "fst (cache_run (lru_get mk) ks (lru_new m e)) = map mk ks"
  by (rule lru.run_answers [OF lru_good_new])

subsection \<open>Bounds and order of eviction\<close>

lemma lru_get_size:
  assumes "lru_inv c" and "max_size c \<noteq> 0"
    and "lru_size c \<le> max (unat (max_size c)) (unat (max_size c + elasticity c) - 1)"
  shows "lru_size (snd (lru_get mk k c)) \<le> max (unat (max_size c)) (unat (max_size c + elasticity c) - 1)"
proof -
  obtain r c' where get: "lru_get mk k c = (r, c')" by (cases "lru_get mk k c")
  note refines = lru_get_refines [OF assms(1) get]
  have sizes: "lru_size c = length (lru_abs c)" "lru_size c' = length (lru_abs c')"
    using lru_inv_size [OF assms(1)] lru_inv_size [of c'] refines
    by (simp_all add: lru_size_def lru_abs_def)
  have hit: "Suc (length (AList.delete k (lru_abs c))) \<le> length (lru_abs c)" if "k \<in> fst ` set (lru_abs c)"
    using that length_filter_less [of _ "lru_abs c" "\<lambda>p. fst p \<noteq> k"]
    by (auto simp: alist_delete_filter Suc_le_eq)
  have "length (lru_abs c') = length (snd (spec_get mk (max_size c) (elasticity c) k (lru_abs c)))"
    using refines by simp
  also have "\<dots> \<le> max (unat (max_size c)) (unat (max_size c + elasticity c) - 1)"
  proof (cases "map_of (lru_abs c) k")
    case None
    then show ?thesis
      using assms(2,3) sizes(1) by (auto simp: spec_get_def spec_prune_def split: sum.split)
  next
    case (Some v)
    then have "k \<in> fst ` set (lru_abs c)" by (force dest: map_of_SomeD)
    with Some hit assms(3) sizes(1) show ?thesis by (simp add: spec_get_def)
  qed
  finally show ?thesis using sizes(2) get by simp
qed

text \<open>
  C31. A cache with a non-zero soft limit never holds more than \<open>max_size + elasticity - 1\<close> entries
  after any accesses (\<open>max_size\<close> when the elasticity is 0), also where the sum wraps around.
\<close>

theorem lru_size_bounded:
  assumes "m \<noteq> 0"
  shows "lru_size (snd (cache_run (lru_get mk) ks (lru_new m e))) \<le> max (unat m) (unat (m + e) - 1)"
proof -
  have "lru_size (snd (cache_run (lru_get mk) ks c)) \<le> max (unat m) (unat (m + e) - 1)"
    if "lru_inv c" "max_size c = m" "elasticity c = e" "lru_size c \<le> max (unat m) (unat (m + e) - 1)" for c
    using that
  proof (induction ks arbitrary: c)
    case Nil
    then show ?case by simp
  next
    case (Cons k ks)
    obtain r c' where get: "lru_get mk k c = (r, c')" by (cases "lru_get mk k c")
    have "lru_size (snd (lru_get mk k c)) \<le> max (unat m) (unat (m + e) - 1)"
      using lru_get_size [of c mk k] Cons.prems assms by simp
    with get lru_get_refines [OF Cons.prems(1) get] Cons.prems(2,3)
    show ?case using Cons.IH [of c'] by (simp add: case_prod_beta)
  qed
  then show ?thesis by (simp add: lru_inv_new lru_size_def)
qed

theorem lru_size_bounded_witness:
  "(2 :: size_t) \<noteq> 0 \<and>
   lru_size (snd (cache_run (lru_get Inr) [1, 2, 3, 1, 4 :: nat] (lru_new 2 2))) \<le> 3"
  using lru_size_bounded [of 2 Inr "[1, 2, 3, 1, 4 :: nat]" 2] by simp

text \<open>The keys used so far, last used first, each once.\<close>

definition recency :: "'k list \<Rightarrow> 'k list" where
  "recency ks = fold (\<lambda>k l. k # filter (\<lambda>x. x \<noteq> k) l) ks []"

lemma distinct_recency_fold: "distinct l \<Longrightarrow> distinct (fold (\<lambda>k l. k # filter (\<lambda>x. x \<noteq> k) l) ks l)"
  by (induction ks arbitrary: l) auto

lemma take_filter_absent:
  assumes "k \<notin> set (take n l)"
  shows "take n (filter (\<lambda>x. x \<noteq> k) l) = take n l"
proof -
  have "filter (\<lambda>x. x \<noteq> k) (take n l) = take n l"
    using assms by (intro filter_True) auto
  then have "filter (\<lambda>x. x \<noteq> k) l = take n l @ filter (\<lambda>x. x \<noteq> k) (drop n l)"
    using filter_append [of "\<lambda>x. x \<noteq> k" "take n l" "drop n l"] by simp
  then show ?thesis by (cases "length l \<le> n") simp_all
qed

lemma filter_take_present:
  assumes "distinct l" and "k \<in> set (take n l)"
  shows "filter (\<lambda>x. x \<noteq> k) (take n l) = take (n - 1) (filter (\<lambda>x. x \<noteq> k) l)"
proof -
  let ?t = "take n l"
  have "filter (\<lambda>x. x \<noteq> k) ?t = remove1 k ?t"
    unfolding distinct_remove1_removeAll [OF distinct_take [OF assms(1)]] removeAll_filter_not_eq
    by (rule filter_cong) auto
  then have len: "length (filter (\<lambda>x. x \<noteq> k) ?t) = length ?t - 1"
    using assms(2) by (simp add: length_remove1)
  have split: "filter (\<lambda>x. x \<noteq> k) l = filter (\<lambda>x. x \<noteq> k) ?t @ filter (\<lambda>x. x \<noteq> k) (drop n l)"
    using filter_append [of "\<lambda>x. x \<noteq> k" ?t "drop n l"] by simp
  show ?thesis
  proof (cases "length l \<le> n")
    case True
    then show ?thesis using len by simp
  next
    case False
    then show ?thesis using len unfolding split by simp
  qed
qed

text \<open>One access keeps the entries a prefix of the recency order that is long enough.\<close>

definition keeps_recent :: "size_t \<Rightarrow> 'k list \<Rightarrow> 'k list \<Rightarrow> bool" where
  "keeps_recent m l ks \<longleftrightarrow> (\<exists>n. ks = take n l \<and> (if m = 0 then length l \<le> n else unat m \<le> n))"

lemma keeps_recent_get:
  assumes "keeps_recent m l (map fst xs)" and "distinct l" and "mk k = Inr v"
  shows "keeps_recent m (k # filter (\<lambda>x. x \<noteq> k) l) (map fst (snd (spec_get mk m e k xs)))"
proof -
  obtain n where n: "map fst xs = take n l" "if m = 0 then length l \<le> n else unat m \<le> n"
    using assms(1) by (auto simp: keeps_recent_def)
  let ?l = "filter (\<lambda>x. x \<noteq> k) l"
  show ?thesis
  proof (cases "map_of xs k")
    case (Some w)
    then have "k \<in> fst ` set xs" by (force dest: map_of_SomeD)
    then have present: "k \<in> set (take n l)" using n(1) by (metis list.set_map)
    have "map fst (AList.delete k xs) = filter (\<lambda>x. x \<noteq> k) (take n l)"
      unfolding n(1) [symmetric] alist_delete_filter by (simp add: filter_map comp_def)
    also have "\<dots> = take (n - 1) ?l"
      by (rule filter_take_present [OF assms(2) present])
    finally have "map fst (snd (spec_get mk m e k xs)) = take n (k # ?l)"
      using Some present by (cases n) (simp_all add: spec_get_def)
    moreover have "length (k # ?l) \<le> n" if "length l \<le> n"
      using that present length_filter_less [of k l "\<lambda>x. x \<noteq> k"] by (auto dest: in_set_takeD)
    ultimately show ?thesis
      using n(2) unfolding keeps_recent_def by (intro exI [of _ n]) (simp split: if_splits)
  next
    case None
    then have "k \<notin> set (take n l)"
      using n(1) by (metis list.set_map map_of_eq_None_iff)
    then have "map fst ((k, v) # xs) = take (Suc n) (k # ?l)"
      using n(1) by (simp add: take_filter_absent)
    then have "map fst (snd (spec_get mk m e k xs)) =
        (if m = 0 \<or> length ((k, v) # xs) < unat (m + e) then take (Suc n) (k # ?l)
         else take (unat m) (take (Suc n) (k # ?l)))"
      using None assms(3) by (simp add: spec_get_def spec_prune_def flip: take_map)
    moreover have "length (k # ?l) \<le> Suc n" if "length l \<le> n"
      using order_trans [OF length_filter_le that, of "\<lambda>x. x \<noteq> k"] by simp
    moreover have "take (unat m) (take (Suc n) (k # ?l)) = take (unat m) (k # ?l)" if "m \<noteq> 0"
      using that n(2) by (simp only: take_take) simp
    ultimately show ?thesis
      using n(2) unfolding keeps_recent_def
      by (intro exI [of _ "if m = 0 \<or> length ((k, v) # xs) < unat (m + e) then Suc n else unat m"])
         (simp split: if_splits)
  qed
qed

text \<open>
  C32. Least recently used entries are evicted first: after any accesses to a new cache, the keys it
  holds are, in list order, the most recently used ones, and at least \<open>max_size\<close> of them (all of
  them when \<open>max_size\<close> is 0). Keys whose value could not be constructed leave no trace.
\<close>

theorem lru_keeps_most_recent:
  "\<exists>n. map node_key (lru_list (snd (cache_run (lru_get mk) ks (lru_new m e)))) =
         take n (recency (filter (\<lambda>k. \<exists>v. mk k = Inr v) ks)) \<and>
       (if m = 0 then length (recency (filter (\<lambda>k. \<exists>v. mk k = Inr v) ks)) \<le> n else unat m \<le> n)"
proof -
  have step: "keeps_recent m (fold (\<lambda>k l. k # filter (\<lambda>x. x \<noteq> k) l) (filter (\<lambda>k. \<exists>v. mk k = Inr v) ks) l)
               (map node_key (lru_list (snd (cache_run (lru_get mk) ks c))))"
    if "lru_good mk c" "max_size c = m" "elasticity c = e" "distinct l"
       "keeps_recent m l (map node_key (lru_list c))" for c l
    using that
  proof (induction ks arbitrary: c l)
    case Nil
    then show ?case by simp
  next
    case (Cons k ks)
    obtain r c' where get: "lru_get mk k c = (r, c')" by (cases "lru_get mk k c")
    have inv: "lru_inv c" using Cons.prems(1) by (simp add: lru_good_def)
    note ref = lru_get_refines [OF inv get]
    have good: "r = mk k" "lru_good mk c'"
      using lru_get_good [OF Cons.prems(1), of k] get by simp_all
    have keys: "map node_key (lru_list d) = map fst (lru_abs d)" for d :: "('a, 'b) lru_cache"
      by (simp add: lru_abs_def)
    show ?case
    proof (cases "mk k")
      case (Inl x)
      have "map_of (lru_abs c) k = None"
        using Cons.prems(1) Inl
        by (fastforce simp: lru_good_def lru_coherent_def map_of_eq_None_iff)
      then have "lru_abs c' = lru_abs c"
        using ref Inl by (simp add: spec_get_def)
      then show ?thesis
        using Cons.IH [of c' l] Cons.prems good ref get Inl by (simp add: keys case_prod_beta)
    next
      case (Inr v)
      have "keeps_recent m (k # filter (\<lambda>x. x \<noteq> k) l) (map fst (snd (spec_get mk m e k (lru_abs c))))"
        using Cons.prems(4,5) Inr by (intro keeps_recent_get [of m l _ mk k v]) (simp_all add: keys)
      then show ?thesis
        using Cons.IH [of c' "k # filter (\<lambda>x. x \<noteq> k) l"] Cons.prems good ref get Inr
        by (simp add: keys case_prod_beta)
    qed
  qed
  have "keeps_recent m [] (map node_key (lru_list (lru_new m e)))"
    unfolding keeps_recent_def by (rule exI [of _ "unat m"]) simp
  then have "keeps_recent m (recency (filter (\<lambda>k. \<exists>v. mk k = Inr v) ks))
      (map node_key (lru_list (snd (cache_run (lru_get mk) ks (lru_new m e)))))"
    unfolding recency_def by (intro step) (simp_all add: lru_good_new)
  then show ?thesis by (simp only: keeps_recent_def)
qed

end
