(* ===== verification/Node_Store.thy ===== *)
theory Node_Store
  imports Tentris_Prelude
begin

text \<open>
  The persistent node store (\<open>libs/node-store\<close>): the interning of RDF nodes to node ids.

  \<^item> The four backend classes (\<open>MetallBNodeBackend\<close>, \<open>MetallIRIBackend\<close>, \<open>MetallLiteralBackend\<close>,
    \<open>MetallVariableBackend\<close>) as records with their constructors and their conversions to views.
  \<^item> \<open>MetallNodeTypeStorage\<close>: the two maps and the memory their pointers refer to; a map is the list of
    its entries, \<open>emplace\<close> does not replace an entry, and a lookup by view compares the hash of the view
    with the stored hash and then the view with the view of the stored backend.
  \<^item> \<open>PersistentNodeStorageBackendImpl\<close>: the four storages and the next ids, with
    \<open>lookup_or_insert_impl\<close>, \<open>find_or_make_id\<close>, \<open>find_id\<close>, \<open>find_backend_view\<close>, the constructor; and
    \<open>PersistentNodeStorageBackend\<close>, the interface behind which it is called.

  Views, their equality and hash, node ids and the allocator belong to libraries: views are records of
  the members the code uses, everything else is a parameter.
\<close>

subsection \<open>Views and backends\<close>

record 'n bnode_view =
  bnode_identifier :: string
  bnode_scope :: "'n option"

record iri_view =
  iri_identifier :: string

record 'i literal_view =
  lit_datatype_id :: 'i
  lit_lexical_form :: string
  lit_language_tag :: string
  lit_needs_escape :: bool

record variable_view =
  variable_view_name :: string
  variable_view_anonymous :: bool

record bnode_backend =
  bb_identifier :: string
  bb_hash :: size_t

record iri_backend =
  ib_iri :: string
  ib_hash :: size_t

record 'i literal_backend =
  lb_hash :: size_t
  lb_datatype_id :: 'i
  lb_lexical :: string
  lb_lang_tag :: string
  lb_needs_escape :: bool

record variable_backend =
  vb_name :: string
  vb_anonymous :: bool
  vb_hash :: size_t

text \<open>What the storage template uses of a backend class, and of its view.\<close>

record ('v, 'b) backend_ops =
  construct :: "'v \<Rightarrow> 'b"
  as_view :: "'b \<Rightarrow> 'v"
  stored_hash :: "'b \<Rightarrow> size_t"
  view_hash :: "'v \<Rightarrow> size_t"
  view_eq :: "'v \<Rightarrow> 'v \<Rightarrow> bool"

definition bnode_view_of :: "bnode_backend \<Rightarrow> 'n bnode_view" where
  "bnode_view_of b = \<lparr>bnode_identifier = bb_identifier b, bnode_scope = None\<rparr>"

definition make_bnode_backend :: "('n bnode_view \<Rightarrow> size_t) \<Rightarrow> 'n bnode_view \<Rightarrow> bnode_backend" where
  "make_bnode_backend h v =
     (let b = \<lparr>bb_identifier = bnode_identifier v, bb_hash = 0\<rparr> in b\<lparr>bb_hash := h (bnode_view_of b)\<rparr>)"

definition iri_view_of :: "iri_backend \<Rightarrow> iri_view" where
  "iri_view_of b = \<lparr>iri_identifier = ib_iri b\<rparr>"

definition make_iri_backend :: "(iri_view \<Rightarrow> size_t) \<Rightarrow> string \<Rightarrow> iri_backend" where
  "make_iri_backend h i = (let b = \<lparr>ib_iri = i, ib_hash = 0\<rparr> in b\<lparr>ib_hash := h (iri_view_of b)\<rparr>)"

definition literal_view_of :: "'i literal_backend \<Rightarrow> 'i literal_view" where
  "literal_view_of b = \<lparr>lit_datatype_id = lb_datatype_id b, lit_lexical_form = lb_lexical b,
     lit_language_tag = lb_lang_tag b, lit_needs_escape = lb_needs_escape b\<rparr>"

definition make_literal_backend :: "('i literal_view \<Rightarrow> size_t) \<Rightarrow> 'i literal_view \<Rightarrow> 'i literal_backend" where
  "make_literal_backend h v = \<lparr>lb_hash = h v, lb_datatype_id = lit_datatype_id v, lb_lexical = lit_lexical_form v,
     lb_lang_tag = lit_language_tag v, lb_needs_escape = lit_needs_escape v\<rparr>"

definition variable_view_of :: "variable_backend \<Rightarrow> variable_view" where
  "variable_view_of b = \<lparr>variable_view_name = vb_name b, variable_view_anonymous = vb_anonymous b\<rparr>"

definition make_variable_backend :: "(variable_view \<Rightarrow> size_t) \<Rightarrow> variable_view \<Rightarrow> variable_backend" where
  "make_variable_backend h v =
     (let b = \<lparr>vb_name = variable_view_name v, vb_anonymous = variable_view_anonymous v, vb_hash = 0\<rparr>
      in b\<lparr>vb_hash := h (variable_view_of b)\<rparr>)"

text \<open>The instances of the template; \<open>h\<close> and \<open>eq\<close> are the hash and the equality of the library's views.\<close>

definition bnode_ops where
  "bnode_ops h eq = \<lparr>construct = make_bnode_backend h, as_view = bnode_view_of, stored_hash = bb_hash,
     view_hash = h, view_eq = eq\<rparr>"

definition iri_ops where
  "iri_ops h eq = \<lparr>construct = (\<lambda>v. make_iri_backend h (iri_identifier v)), as_view = iri_view_of,
     stored_hash = ib_hash, view_hash = h, view_eq = eq\<rparr>"

definition literal_ops where
  "literal_ops h eq = \<lparr>construct = make_literal_backend h, as_view = literal_view_of, stored_hash = lb_hash,
     view_hash = h, view_eq = eq\<rparr>"

definition variable_ops where
  "variable_ops h eq = \<lparr>construct = make_variable_backend h, as_view = variable_view_of, stored_hash = vb_hash,
     view_hash = h, view_eq = eq\<rparr>"

subsection \<open>\<open>MetallNodeTypeStorage\<close>\<close>

type_synonym ptr = nat

record ('b, 'i) type_storage =
  memory :: "ptr \<rightharpoonup> 'b"
  id2data :: "('i \<times> ptr) list"
  data2id :: "(ptr \<times> 'i) list"

definition new_storage :: "('b, 'i) type_storage" where
  "new_storage = \<lparr>memory = Map.empty, id2data = [], data2id = []\<rparr>"

definition emplace :: "'k \<Rightarrow> 'x \<Rightarrow> ('k \<times> 'x) list \<Rightarrow> ('k \<times> 'x) list" where
  "emplace k x xs = (if map_of xs k = None then xs @ [(k, x)] else xs)"

text \<open>\<open>BackendTypeHash\<close> and \<open>BackendTypeEqual\<close> on a view and a stored pointer.\<close>

definition matches :: "('v, 'b) backend_ops \<Rightarrow> 'v \<Rightarrow> 'b \<Rightarrow> bool" where
  "matches ops v b \<longleftrightarrow> stored_hash ops b = view_hash ops v \<and> view_eq ops v (as_view ops b)"

definition find_data :: "('v, 'b) backend_ops \<Rightarrow> ('b, 'i) type_storage \<Rightarrow> 'v \<Rightarrow> (ptr \<times> 'i) option" where
  "find_data ops st v =
     List.find (\<lambda>(p, i). case memory st p of None \<Rightarrow> False | Some b \<Rightarrow> matches ops v b) (data2id st)"

definition insert_backend ::
  "(ptr list \<Rightarrow> ptr) \<Rightarrow> 'b \<Rightarrow> 'i \<Rightarrow> ('b, 'i) type_storage \<Rightarrow> ('b, 'i) type_storage" where
  "insert_backend alloc b i st =
     (let mem = alloc (map fst (data2id st))
      in st\<lparr>memory := (memory st)(mem \<mapsto> b), data2id := emplace mem i (data2id st),
            id2data := emplace i mem (id2data st)\<rparr>)"

text \<open>
  \<open>lookup_or_insert_impl\<close>, run by one thread: the second lookup, under the exclusive lock, precedes
  the insertion. The null id is \<open>None\<close>.
\<close>

definition lookup_or_insert_impl ::
  "('v, 'b) backend_ops \<Rightarrow> (ptr list \<Rightarrow> ptr) \<Rightarrow> ('v \<Rightarrow> 'c \<Rightarrow> 'i \<times> 'c) \<Rightarrow> bool \<Rightarrow> 'v \<Rightarrow>
   ('b, 'i) type_storage \<times> 'c \<Rightarrow> 'i option \<times> ('b, 'i) type_storage \<times> 'c" where
  "lookup_or_insert_impl ops alloc next_id create_if_not_present v stc =
     (case stc of (st, c) \<Rightarrow>
       (case find_data ops st v of
          Some (_, i) \<Rightarrow> (Some i, st, c)
        | None \<Rightarrow>
            if create_if_not_present
            then (case find_data ops st v of
                    Some (_, i) \<Rightarrow> (Some i, st, c)
                  | None \<Rightarrow>
                      (case next_id v c of (i, c') \<Rightarrow>
                        (Some i, insert_backend alloc (construct ops v) i st, c')))
            else (None, st, c)))"

definition find_backend_view :: "('v, 'b) backend_ops \<Rightarrow> ('b, 'i) type_storage \<Rightarrow> 'i \<Rightarrow> exn + 'v" where
  "find_backend_view ops st i =
     (case map_of (id2data st) i of
        None \<Rightarrow> Inl OutOfRange
      | Some p \<Rightarrow> (case memory st p of None \<Rightarrow> Inl Dangling | Some b \<Rightarrow> Inr (as_view ops b)))"

definition lookup_size :: "('b, 'i) type_storage \<Rightarrow> nat" where
  "lookup_size st = length (id2data st)"

subsection \<open>\<open>PersistentNodeStorageBackendImpl\<close>\<close>

record ('i, 'j, 't, 'n) node_api =
  allocate :: "ptr list \<Rightarrow> ptr"
  succ_id :: "'i \<Rightarrow> 'i"
  succ_literal_id :: "'j \<Rightarrow> 'j"
  make_literal_id :: "'j \<Rightarrow> 't \<Rightarrow> 'i"
  iri_node_id_to_literal_type :: "'i \<Rightarrow> 't"
  min_bnode_id :: 'i
  min_iri_id :: 'i
  min_literal_id :: 'j
  min_variable_id :: 'i
  reserved_datatype_ids :: "(string \<times> 'i) list"
  bnode_hash :: "'n bnode_view \<Rightarrow> size_t"
  bnode_eq :: "'n bnode_view \<Rightarrow> 'n bnode_view \<Rightarrow> bool"
  iri_hash :: "iri_view \<Rightarrow> size_t"
  iri_eq :: "iri_view \<Rightarrow> iri_view \<Rightarrow> bool"
  literal_hash :: "'i literal_view \<Rightarrow> size_t"
  literal_eq :: "'i literal_view \<Rightarrow> 'i literal_view \<Rightarrow> bool"
  variable_hash :: "variable_view \<Rightarrow> size_t"
  variable_eq :: "variable_view \<Rightarrow> variable_view \<Rightarrow> bool"

record ('i, 'j) node_store =
  bnode_storage :: "(bnode_backend, 'i) type_storage"
  iri_storage :: "(iri_backend, 'i) type_storage"
  literal_storage :: "('i literal_backend, 'i) type_storage"
  variable_storage :: "(variable_backend, 'i) type_storage"
  next_literal_id :: 'j
  next_bnode_id :: 'i
  next_iri_id :: 'i
  next_variable_id :: 'i

abbreviation "b_ops api \<equiv> bnode_ops (bnode_hash api) (bnode_eq api)"
abbreviation "i_ops api \<equiv> iri_ops (iri_hash api) (iri_eq api)"
abbreviation "l_ops api \<equiv> literal_ops (literal_hash api) (literal_eq api)"
abbreviation "v_ops api \<equiv> variable_ops (variable_hash api) (variable_eq api)"

text \<open>The constructor puts the reserved datatype IRIs into the IRI storage.\<close>

definition reserve_iri ::
  "('i, 'j, 't, 'n) node_api \<Rightarrow> string \<times> 'i \<Rightarrow> (iri_backend, 'i) type_storage \<Rightarrow> (iri_backend, 'i) type_storage" where
  "reserve_iri api entry st =
     insert_backend (allocate api) (make_iri_backend (iri_hash api) (fst entry)) (snd entry) st"

definition new_store :: "('i, 'j, 't, 'n) node_api \<Rightarrow> ('i, 'j) node_store" where
  "new_store api =
     \<lparr>bnode_storage = new_storage,
      iri_storage = fold (reserve_iri api) (reserved_datatype_ids api) new_storage,
      literal_storage = new_storage, variable_storage = new_storage,
      next_literal_id = min_literal_id api, next_bnode_id = min_bnode_id api,
      next_iri_id = min_iri_id api, next_variable_id = min_variable_id api\<rparr>"

definition store_size :: "('i, 'j) node_store \<Rightarrow> nat" where
  "store_size s = lookup_size (bnode_storage s) + lookup_size (iri_storage s) +
     lookup_size (literal_storage s) + lookup_size (variable_storage s)"

text \<open>The functions that generate the next id, as state transformers on the next id.\<close>

definition next_plain :: "('i, 'j, 't, 'n) node_api \<Rightarrow> 'v \<Rightarrow> 'i \<Rightarrow> 'i \<times> 'i" where
  "next_plain api v c = (c, succ_id api c)"

definition next_literal :: "('i, 'j, 't, 'n) node_api \<Rightarrow> 'i literal_view \<Rightarrow> 'j \<Rightarrow> 'i \<times> 'j" where
  "next_literal api v c =
     (make_literal_id api c (iri_node_id_to_literal_type api (lit_datatype_id v)), succ_literal_id api c)"

text \<open>A literal view is in lexical form or holds a value; \<open>get_lexical()\<close> throws on the latter.\<close>

datatype 'i literal_backend_view = LexicalView "'i literal_view" | ValueView

fun get_lexical :: "'i literal_backend_view \<Rightarrow> exn + 'i literal_view" where
  "get_lexical (LexicalView v) = Inr v"
| "get_lexical ValueView = Inl (LibraryError ''bad_variant_access'')"

definition find_or_make_bnode ::
  "('i, 'j, 't, 'n) node_api \<Rightarrow> 'n bnode_view \<Rightarrow> ('i, 'j) node_store \<Rightarrow> 'i option \<times> ('i, 'j) node_store" where
  "find_or_make_bnode api v s =
     (case lookup_or_insert_impl (b_ops api) (allocate api) (next_plain api) True v (bnode_storage s, next_bnode_id s) of
        (i, st, c) \<Rightarrow> (i, s\<lparr>bnode_storage := st, next_bnode_id := c\<rparr>))"

definition find_or_make_iri ::
  "('i, 'j, 't, 'n) node_api \<Rightarrow> iri_view \<Rightarrow> ('i, 'j) node_store \<Rightarrow> 'i option \<times> ('i, 'j) node_store" where
  "find_or_make_iri api v s =
     (case lookup_or_insert_impl (i_ops api) (allocate api) (next_plain api) True v (iri_storage s, next_iri_id s) of
        (i, st, c) \<Rightarrow> (i, s\<lparr>iri_storage := st, next_iri_id := c\<rparr>))"

definition find_or_make_literal ::
  "('i, 'j, 't, 'n) node_api \<Rightarrow> 'i literal_view \<Rightarrow> ('i, 'j) node_store \<Rightarrow> 'i option \<times> ('i, 'j) node_store" where
  "find_or_make_literal api v s =
     (case lookup_or_insert_impl (l_ops api) (allocate api) (next_literal api) True v (literal_storage s, next_literal_id s) of
        (i, st, c) \<Rightarrow> (i, s\<lparr>literal_storage := st, next_literal_id := c\<rparr>))"

definition find_or_make_variable ::
  "('i, 'j, 't, 'n) node_api \<Rightarrow> variable_view \<Rightarrow> ('i, 'j) node_store \<Rightarrow> 'i option \<times> ('i, 'j) node_store" where
  "find_or_make_variable api v s =
     (case lookup_or_insert_impl (v_ops api) (allocate api) (next_plain api) True v (variable_storage s, next_variable_id s) of
        (i, st, c) \<Rightarrow> (i, s\<lparr>variable_storage := st, next_variable_id := c\<rparr>))"

text \<open>The const overloads: the same lookup without insertion.\<close>

definition find_bnode :: "('i, 'j, 't, 'n) node_api \<Rightarrow> 'n bnode_view \<Rightarrow> ('i, 'j) node_store \<Rightarrow> 'i option" where
  "find_bnode api v s =
     fst (lookup_or_insert_impl (b_ops api) (allocate api) (next_plain api) False v (bnode_storage s, next_bnode_id s))"

definition find_iri :: "('i, 'j, 't, 'n) node_api \<Rightarrow> iri_view \<Rightarrow> ('i, 'j) node_store \<Rightarrow> 'i option" where
  "find_iri api v s =
     fst (lookup_or_insert_impl (i_ops api) (allocate api) (next_plain api) False v (iri_storage s, next_iri_id s))"

definition find_literal :: "('i, 'j, 't, 'n) node_api \<Rightarrow> 'i literal_view \<Rightarrow> ('i, 'j) node_store \<Rightarrow> 'i option" where
  "find_literal api v s =
     fst (lookup_or_insert_impl (l_ops api) (allocate api) (next_literal api) False v (literal_storage s, next_literal_id s))"

definition find_variable :: "('i, 'j, 't, 'n) node_api \<Rightarrow> variable_view \<Rightarrow> ('i, 'j) node_store \<Rightarrow> 'i option" where
  "find_variable api v s =
     fst (lookup_or_insert_impl (v_ops api) (allocate api) (next_plain api) False v (variable_storage s, next_variable_id s))"

text \<open>Resolving the id of a node, one function per kind.\<close>

definition find_bnode_backend_view :: "('i, 'j, 't, 'n) node_api \<Rightarrow> ('i, 'j) node_store \<Rightarrow> 'i \<Rightarrow> exn + 'n bnode_view" where
  [simp]: "find_bnode_backend_view api s i = find_backend_view (b_ops api) (bnode_storage s) i"

definition find_iri_backend_view :: "('i, 'j, 't, 'n) node_api \<Rightarrow> ('i, 'j) node_store \<Rightarrow> 'i \<Rightarrow> exn + iri_view" where
  [simp]: "find_iri_backend_view api s i = find_backend_view (i_ops api) (iri_storage s) i"

definition find_literal_backend_view :: "('i, 'j, 't, 'n) node_api \<Rightarrow> ('i, 'j) node_store \<Rightarrow> 'i \<Rightarrow> exn + 'i literal_view" where
  [simp]: "find_literal_backend_view api s i = find_backend_view (l_ops api) (literal_storage s) i"

definition find_variable_backend_view :: "('i, 'j, 't, 'n) node_api \<Rightarrow> ('i, 'j) node_store \<Rightarrow> 'i \<Rightarrow> exn + variable_view" where
  [simp]: "find_variable_backend_view api s i = find_backend_view (v_ops api) (variable_storage s) i"

subsection \<open>\<open>PersistentNodeStorageBackend\<close>\<close>

text \<open>
  The virtual functions of the interface as requests, and what they return. All but the view lookups and
  the deletions are \<open>noexcept\<close>.
\<close>

datatype ('i, 'n) request =
    Size
  | HasSpecializedStorageFor
  | FindOrMakeBNode "'n bnode_view"
  | FindOrMakeIRI iri_view
  | FindOrMakeLiteral "'i literal_backend_view"
  | FindOrMakeVariable variable_view
  | FindBNode "'n bnode_view"
  | FindIRI iri_view
  | FindLiteral "'i literal_backend_view"
  | FindVariable variable_view
  | FindBNodeView 'i
  | FindIRIView 'i
  | FindLiteralView 'i
  | FindVariableView 'i
  | EraseIRI 'i
  | EraseLiteral 'i
  | EraseBNode 'i
  | EraseVariable 'i

datatype ('i, 'n) response =
    SizeIs nat
  | Specialized bool
  | NodeID "'i option"
  | BNodeView "'n bnode_view"
  | IRIView iri_view
  | LiteralView "'i literal_view"
  | VariableView variable_view

fun backend_call ::
  "('i, 'j, 't, 'n) node_api \<Rightarrow> ('i, 'n) request \<Rightarrow> ('i, 'j) node_store \<Rightarrow> exn + ('i, 'n) response \<times> ('i, 'j) node_store" where
  "backend_call api Size s = Inr (SizeIs (store_size s), s)"
| "backend_call api HasSpecializedStorageFor s = Inr (Specialized False, s)"
| "backend_call api (FindOrMakeBNode v) s = (case find_or_make_bnode api v s of (i, s') \<Rightarrow> Inr (NodeID i, s'))"
| "backend_call api (FindOrMakeIRI v) s = (case find_or_make_iri api v s of (i, s') \<Rightarrow> Inr (NodeID i, s'))"
| "backend_call api (FindOrMakeLiteral v) s =
     no_except (bind_res (get_lexical v) (\<lambda>v. case find_or_make_literal api v s of (i, s') \<Rightarrow> Inr (NodeID i, s')))"
| "backend_call api (FindOrMakeVariable v) s = (case find_or_make_variable api v s of (i, s') \<Rightarrow> Inr (NodeID i, s'))"
| "backend_call api (FindBNode v) s = Inr (NodeID (find_bnode api v s), s)"
| "backend_call api (FindIRI v) s = Inr (NodeID (find_iri api v s), s)"
| "backend_call api (FindLiteral v) s =
     no_except (bind_res (get_lexical v) (\<lambda>v. Inr (NodeID (find_literal api v s), s)))"
| "backend_call api (FindVariable v) s = Inr (NodeID (find_variable api v s), s)"
| "backend_call api (FindBNodeView i) s =
     map_res (\<lambda>v. (BNodeView v, s)) (find_bnode_backend_view api s i)"
| "backend_call api (FindIRIView i) s =
     map_res (\<lambda>v. (IRIView v, s)) (find_iri_backend_view api s i)"
| "backend_call api (FindLiteralView i) s =
     map_res (\<lambda>v. (LiteralView v, s)) (find_literal_backend_view api s i)"
| "backend_call api (FindVariableView i) s =
     map_res (\<lambda>v. (VariableView v, s)) (find_variable_backend_view api s i)"
| "backend_call api (EraseIRI i) s = Inl (RuntimeError ''Not implemented.'')"
| "backend_call api (EraseLiteral i) s = Inl (RuntimeError ''Not implemented.'')"
| "backend_call api (EraseBNode i) s = Inl (RuntimeError ''Not implemented.'')"
| "backend_call api (EraseVariable i) s = Inl (RuntimeError ''Not implemented.'')"

subsection \<open>Interning, as an interface\<close>

text \<open>Interning a sequence of views.\<close>

fun make_all :: "('v \<Rightarrow> 's \<Rightarrow> 'i option \<times> 's) \<Rightarrow> 'v list \<Rightarrow> 's \<Rightarrow> 'i option list \<times> 's" where
  "make_all intern [] s = ([], s)"
| "make_all intern (v # vs) s = (case intern v s of (i, s') \<Rightarrow> case make_all intern vs s' of (is, s'') \<Rightarrow> (i # is, s''))"

text \<open>
  What a client relies on: \<open>make\<close> interns a view, \<open>find\<close> looks one up, \<open>view_of\<close> resolves an id.
  \<open>inv n\<close> says that the store is consistent and that \<open>n\<close> more ids are available; \<open>faithful\<close> views are
  those a backend can represent.
\<close>

locale intern_store =
  fixes make :: "'v \<Rightarrow> 's \<Rightarrow> 'i option \<times> 's"
    and find :: "'s \<Rightarrow> 'v \<Rightarrow> 'i option"
    and view_of :: "'s \<Rightarrow> 'i \<Rightarrow> exn + 'v"
    and inv :: "nat \<Rightarrow> 's \<Rightarrow> bool"
    and same :: "'v \<Rightarrow> 'v \<Rightarrow> bool"
    and faithful :: "'v \<Rightarrow> bool"
  assumes make_inv: "inv (Suc n) s \<Longrightarrow> inv n (snd (make v s))"
    and make_found: "inv (Suc n) s \<Longrightarrow> faithful v \<Longrightarrow>
           \<exists>i. fst (make v s) = Some i \<and> find (snd (make v s)) v = Some i"
    and make_keeps: "inv (Suc n) s \<Longrightarrow> find s w = Some i \<Longrightarrow> find (snd (make v s)) w = Some i"
    and make_hit: "find s v = Some i \<Longrightarrow> make v s = (Some i, s)"
    and found_same: "inv n s \<Longrightarrow> find s v = Some i \<Longrightarrow> find s w = Some i \<longleftrightarrow> same v w"
    and found_view: "inv n s \<Longrightarrow> find s v = Some i \<Longrightarrow> \<exists>w. view_of s i = Inr w \<and> same v w"
begin

lemma make_all_found:
  assumes "inv (length vs) s" and "\<And>v. v \<in> set vs \<Longrightarrow> faithful v" and "make_all make vs s = (is, s')"
  shows "inv 0 s' \<and> is = map (find s') vs \<and> None \<notin> set is \<and> (\<forall>w i. find s w = Some i \<longrightarrow> find s' w = Some i)"
  using assms
proof (induction vs arbitrary: s "is")
  case Nil
  then show ?case by simp
next
  case (Cons v vs)
  obtain i s1 where make: "make v s = (i, s1)" by (cases "make v s")
  obtain is1 where rest: "make_all make vs s1 = (is1, s')" "is = i # is1"
    using Cons.prems(3) make by (auto split: prod.splits)
  have "inv (length vs) s1" using make_inv [of "length vs" s v] Cons.prems(1) make by simp
  note IH = Cons.IH [OF this _ rest(1)]
  obtain j where "i = Some j" "find s1 v = Some j"
    using make_found [of "length vs" s v] Cons.prems make by auto
  moreover have "find s1 w = Some k" if "find s w = Some k" for w k
    using make_keeps [of "length vs" s w k v] Cons.prems(1) make that by simp
  ultimately show ?case using IH Cons.prems(2) rest(2) by auto
qed

text \<open>Two views get the same id exactly if they are the same; every id resolves to its view.\<close>

lemma make_all_injective:
  assumes "inv (length vs) s" and "\<And>v. v \<in> set vs \<Longrightarrow> faithful v" and "make_all make vs s = (is, s')"
    and "j < length vs" and "k < length vs"
  shows "is ! j = is ! k \<longleftrightarrow> same (vs ! j) (vs ! k)"
    and "\<exists>i w. is ! j = Some i \<and> view_of s' i = Inr w \<and> same (vs ! j) w"
proof -
  note all = make_all_found [OF assms(1-3)]
  have "find s' (vs ! j) \<noteq> None" "find s' (vs ! k) \<noteq> None"
    using all assms(4,5) by (auto simp: in_set_conv_nth)
  then obtain a b where ids: "find s' (vs ! j) = Some a" "find s' (vs ! k) = Some b" by auto
  show "is ! j = is ! k \<longleftrightarrow> same (vs ! j) (vs ! k)"
    using found_same [of 0 s' "vs ! j" a "vs ! k"] all ids assms(4,5) by auto
  show "\<exists>i w. is ! j = Some i \<and> view_of s' i = Inr w \<and> same (vs ! j) w"
    using found_view [of 0 s' "vs ! j" a] all ids assms(4) by auto
qed

end

subsection \<open>The storage implements the interface\<close>

text \<open>What the views' library has to satisfy: equality is an equivalence that the hash respects.\<close>

definition view_laws :: "('v, 'b) backend_ops \<Rightarrow> bool" where
  "view_laws ops \<longleftrightarrow> equivp (view_eq ops) \<and> (\<forall>v w. view_eq ops v w \<longrightarrow> view_hash ops v = view_hash ops w)"

definition faithful :: "('v, 'b) backend_ops \<Rightarrow> 'v \<Rightarrow> bool" where
  "faithful ops v \<longleftrightarrow> matches ops v (construct ops v)"

text \<open>The next \<open>n\<close> ids are new and different, whatever views they are generated for.\<close>

fun fresh_ids :: "('v \<Rightarrow> 'c \<Rightarrow> 'i \<times> 'c) \<Rightarrow> nat \<Rightarrow> 'c \<Rightarrow> 'i set \<Rightarrow> bool" where
  "fresh_ids next_id 0 c used \<longleftrightarrow> True"
| "fresh_ids next_id (Suc n) c used \<longleftrightarrow>
     (\<forall>v. fst (next_id v c) \<notin> used \<and> fresh_ids next_id n (snd (next_id v c)) (insert (fst (next_id v c)) used))"

lemma fresh_ids_mono: "fresh_ids next_id (Suc n) c used \<Longrightarrow> fresh_ids next_id n c used"
proof (induction n arbitrary: c used)
  case 0
  show ?case by simp
next
  case (Suc n)
  show ?case
    unfolding fresh_ids.simps(2) [of next_id n]
  proof (intro allI conjI)
    fix v
    show "fst (next_id v c) \<notin> used" using Suc.prems by simp
    show "fresh_ids next_id n (snd (next_id v c)) (insert (fst (next_id v c)) used)"
      by (rule Suc.IH) (use Suc.prems in \<open>simp only: fresh_ids.simps(2) [of next_id "Suc n"]\<close>)
  qed
qed

definition storage_ok :: "('b, 'i) type_storage \<Rightarrow> bool" where
  "storage_ok st \<longleftrightarrow>
     id2data st = map prod.swap (data2id st) \<and> distinct (map fst (data2id st)) \<and> distinct (map snd (data2id st)) \<and>
     (\<forall>p \<in> set (map fst (data2id st)). memory st p \<noteq> None)"

definition alloc_ok :: "(ptr list \<Rightarrow> ptr) \<Rightarrow> bool" where
  "alloc_ok alloc \<longleftrightarrow> (\<forall>ps. alloc ps \<notin> set ps)"

definition typed_ok ::
  "('v, 'b) backend_ops \<Rightarrow> (ptr list \<Rightarrow> ptr) \<Rightarrow> ('v \<Rightarrow> 'c \<Rightarrow> 'i \<times> 'c) \<Rightarrow> nat \<Rightarrow> ('b, 'i) type_storage \<times> 'c \<Rightarrow> bool" where
  "typed_ok ops alloc next_id n s \<longleftrightarrow>
     view_laws ops \<and> alloc_ok alloc \<and> storage_ok (fst s) \<and>
     fresh_ids next_id n (snd s) (snd ` set (data2id (fst s)))"

lemma map_of_swap:
  "distinct (map snd xs) \<Longrightarrow> (p, i) \<in> set xs \<Longrightarrow> map_of (map prod.swap xs) i = Some p"
  by (rule map_of_is_SomeI) (auto simp: comp_def intro: rev_image_eqI [of "(p, i)"])

lemma find_data_SomeD:
  assumes "find_data ops st v = Some (p, i)"
  obtains b where "(p, i) \<in> set (data2id st)" "memory st p = Some b" "matches ops v b"
  using assms by (auto simp: find_data_def find_Some_iff split: option.splits dest: nth_mem)

lemma find_data_None:
  "find_data ops st v = None \<longleftrightarrow> (\<forall>(p, i) \<in> set (data2id st). \<forall>b. memory st p = Some b \<longrightarrow> \<not> matches ops v b)"
  by (auto simp: find_data_def find_None_iff split: option.splits)

lemma find_append: "List.find P (xs @ ys) = (case List.find P xs of None \<Rightarrow> List.find P ys | Some x \<Rightarrow> Some x)"
  by (induction xs) simp_all

text \<open>A new backend is found by the views it matches, unless an older entry already is.\<close>

lemma insert_backend_effect:
  assumes "storage_ok st" and "alloc_ok alloc" and "i \<notin> snd ` set (data2id st)"
  shows "storage_ok (insert_backend alloc b i st)"
    and "data2id (insert_backend alloc b i st) = data2id st @ [(alloc (map fst (data2id st)), i)]"
    and "find_data ops (insert_backend alloc b i st) v =
           (case find_data ops st v of
              Some x \<Rightarrow> Some x
            | None \<Rightarrow> if matches ops v b then Some (alloc (map fst (data2id st)), i) else None)"
proof -
  let ?mem = "alloc (map fst (data2id st))"
  have mem: "?mem \<notin> fst ` set (data2id st)"
    using assms(2) unfolding alloc_ok_def by (metis list.set_map)
  have "map_of (data2id st) ?mem = None" using mem by (simp add: map_of_eq_None_iff)
  moreover have "map_of (id2data st) i = None"
    using assms(1,3) by (force simp: map_of_eq_None_iff storage_ok_def)
  ultimately have eq: "data2id (insert_backend alloc b i st) = data2id st @ [(?mem, i)]"
    "id2data (insert_backend alloc b i st) = id2data st @ [(i, ?mem)]"
    "memory (insert_backend alloc b i st) = (memory st)(?mem \<mapsto> b)"
    by (simp_all add: insert_backend_def emplace_def Let_def)
  then show "data2id (insert_backend alloc b i st) = data2id st @ [(?mem, i)]" by simp
  show "storage_ok (insert_backend alloc b i st)"
    using assms(1,3) mem by (auto simp: storage_ok_def eq)
  let ?P = "\<lambda>m (p, i). case m p of None \<Rightarrow> False | Some b \<Rightarrow> matches ops v b"
  have "List.find (?P ((memory st)(?mem \<mapsto> b))) (data2id st) = List.find (?P (memory st)) (data2id st)"
    by (rule find_cong) (use mem in \<open>auto simp: image_iff\<close>)
  then show "find_data ops (insert_backend alloc b i st) v =
           (case find_data ops st v of
              Some x \<Rightarrow> Some x
            | None \<Rightarrow> if matches ops v b then Some (?mem, i) else None)"
    by (simp add: find_data_def eq find_append split: option.split)
qed

definition typed_find :: "('v, 'b) backend_ops \<Rightarrow> ('b, 'i) type_storage \<times> 'c \<Rightarrow> 'v \<Rightarrow> 'i option" where
  "typed_find ops s v = map_option snd (find_data ops (fst s) v)"

lemma lookup_without_insert: "fst (lookup_or_insert_impl ops alloc next_id False v s) = typed_find ops s v"
  by (auto simp: lookup_or_insert_impl_def typed_find_def split: prod.split option.split)

lemma lookup_hit: "typed_find ops s v = Some i \<Longrightarrow> lookup_or_insert_impl ops alloc next_id True v s = (Some i, s)"
  by (auto simp: lookup_or_insert_impl_def typed_find_def split: prod.split)

lemma lookup_miss:
  "typed_find ops s v = None \<Longrightarrow>
   lookup_or_insert_impl ops alloc next_id True v s =
     (Some (fst (next_id v (snd s))),
      insert_backend alloc (construct ops v) (fst (next_id v (snd s))) (fst s), snd (next_id v (snd s)))"
  by (auto simp: lookup_or_insert_impl_def typed_find_def split: prod.split)

lemma typed_make:
  assumes "typed_ok ops alloc next_id (Suc n) s"
  shows "typed_ok ops alloc next_id n (snd (lookup_or_insert_impl ops alloc next_id True v s))"
    and "typed_find ops s w = Some i \<Longrightarrow>
      typed_find ops (snd (lookup_or_insert_impl ops alloc next_id True v s)) w = Some i"
    and "faithful ops v \<Longrightarrow> \<exists>i. fst (lookup_or_insert_impl ops alloc next_id True v s) = Some i \<and>
      typed_find ops (snd (lookup_or_insert_impl ops alloc next_id True v s)) v = Some i"
proof -
  obtain st c where s: "s = (st, c)" by (cases s)
  from assms have ok: "view_laws ops" "alloc_ok alloc" "storage_ok st"
    and fresh: "fresh_ids next_id (Suc n) c (snd ` set (data2id st))"
    by (simp_all add: typed_ok_def s)
  let ?i = "fst (next_id v c)" and ?st = "insert_backend alloc (construct ops v) (fst (next_id v c)) st"
  from fresh have new: "?i \<notin> snd ` set (data2id st)"
    "fresh_ids next_id n (snd (next_id v c)) (insert ?i (snd ` set (data2id st)))"
    by simp_all
  note ins = insert_backend_effect [OF ok(3,2) new(1), where b = "construct ops v"]
  have "typed_ok ops alloc next_id n (snd (lookup_or_insert_impl ops alloc next_id True v s)) \<and>
      (typed_find ops s w = Some i \<longrightarrow>
        typed_find ops (snd (lookup_or_insert_impl ops alloc next_id True v s)) w = Some i) \<and>
      (faithful ops v \<longrightarrow> (\<exists>i. fst (lookup_or_insert_impl ops alloc next_id True v s) = Some i \<and>
        typed_find ops (snd (lookup_or_insert_impl ops alloc next_id True v s)) v = Some i))"
  proof (cases "typed_find ops s v")
    case None
    then have none: "find_data ops st v = None" by (simp add: typed_find_def s)
    have "typed_ok ops alloc next_id n (?st, snd (next_id v c))"
      using ok ins(1,2) new(2) by (simp add: typed_ok_def)
    then show ?thesis
      using ins(3) [of ops] none lookup_miss [OF None, of alloc next_id]
      by (auto simp: typed_find_def s faithful_def)
  next
    case (Some j)
    have "typed_ok ops alloc next_id n s"
      using ok fresh_ids_mono [OF fresh] by (simp add: typed_ok_def s)
    then show ?thesis using Some by (simp add: lookup_hit [OF Some])
  qed
  then show "typed_ok ops alloc next_id n (snd (lookup_or_insert_impl ops alloc next_id True v s))"
    "typed_find ops s w = Some i \<Longrightarrow>
      typed_find ops (snd (lookup_or_insert_impl ops alloc next_id True v s)) w = Some i"
    "faithful ops v \<Longrightarrow> \<exists>i. fst (lookup_or_insert_impl ops alloc next_id True v s) = Some i \<and>
      typed_find ops (snd (lookup_or_insert_impl ops alloc next_id True v s)) v = Some i"
    by simp_all
qed

lemma typed_found:
  assumes "typed_ok ops alloc next_id n s" and "typed_find ops s v = Some i"
  shows "typed_find ops s w = Some i \<longleftrightarrow> view_eq ops v w"
    and "\<exists>w. find_backend_view ops (fst s) i = Inr w \<and> view_eq ops v w"
proof -
  obtain st c where s: "s = (st, c)" by (cases s)
  from assms(1) have eq: "equivp (view_eq ops)" "\<And>v w. view_eq ops v w \<Longrightarrow> view_hash ops v = view_hash ops w"
    and st: "storage_ok st"
    by (auto simp: typed_ok_def s view_laws_def)
  from assms(2) obtain p where p: "find_data ops st v = Some (p, i)" by (auto simp: typed_find_def s)
  from find_data_SomeD [OF p] obtain b where v: "find_data ops st v = Some (p, i)" "(p, i) \<in> set (data2id st)"
    "memory st p = Some b" "matches ops v b"
    using p by metis
  show "typed_find ops s w = Some i \<longleftrightarrow> view_eq ops v w"
  proof
    assume "typed_find ops s w = Some i"
    then obtain p' b' where w: "(p', i) \<in> set (data2id st)" "memory st p' = Some b'" "matches ops w b'"
      by (auto simp: typed_find_def s elim: find_data_SomeD)
    have "distinct (map snd (data2id st))" using st by (simp add: storage_ok_def)
    then have "p' = p" using map_of_swap v(2) w(1) by (metis option.inject)
    with w v show "view_eq ops v w"
      using eq(1) by (auto simp: matches_def intro: equivp_transp equivp_symp)
  next
    assume "view_eq ops v w"
    then have "matches ops v = matches ops w"
      using eq by (auto simp: fun_eq_iff matches_def intro: equivp_transp equivp_symp)
    then have "find_data ops st v = find_data ops st w"
      unfolding find_data_def by (rule arg_cong)
    then have "find_data ops st w = Some (p, i)" using v(1) by (rule subst)
    then show "typed_find ops s w = Some i" by (simp add: typed_find_def s)
  qed
  have "map_of (id2data st) i = Some p"
    using st map_of_swap v(2) by (metis storage_ok_def)
  then show "\<exists>w. find_backend_view ops (fst s) i = Inr w \<and> view_eq ops v w"
    using v(3,4) by (simp add: find_backend_view_def s matches_def)
qed

interpretation typed: intern_store "lookup_or_insert_impl ops alloc next_id True" "typed_find ops"
  "\<lambda>s. find_backend_view ops (fst s)" "typed_ok ops alloc next_id" "view_eq ops" "faithful ops"
  for ops alloc next_id
  by unfold_locales (fact typed_make typed_found lookup_hit)+

subsection \<open>The whole store\<close>

definition store_ok :: "('i, 'j, 't, 'n) node_api \<Rightarrow> nat \<Rightarrow> ('i, 'j) node_store \<Rightarrow> bool" where
  "store_ok api n s \<longleftrightarrow>
     typed_ok (b_ops api) (allocate api) (next_plain api) n (bnode_storage s, next_bnode_id s) \<and>
     typed_ok (i_ops api) (allocate api) (next_plain api) n (iri_storage s, next_iri_id s) \<and>
     typed_ok (l_ops api) (allocate api) (next_literal api) n (literal_storage s, next_literal_id s) \<and>
     typed_ok (v_ops api) (allocate api) (next_plain api) n (variable_storage s, next_variable_id s)"

text \<open>
  What the libraries have to provide for \<open>n\<close> interned nodes of each kind: the laws of views, an allocator
  that returns unused memory, ids that do not repeat, and reserved ids apart from each other and from
  the generated ones.
\<close>

definition node_api_ok :: "('i, 'j, 't, 'n) node_api \<Rightarrow> nat \<Rightarrow> bool" where
  "node_api_ok api n \<longleftrightarrow>
     view_laws (b_ops api) \<and> view_laws (i_ops api) \<and> view_laws (l_ops api) \<and> view_laws (v_ops api) \<and>
     alloc_ok (allocate api) \<and> distinct (map snd (reserved_datatype_ids api)) \<and>
     fresh_ids (next_plain api :: 'n bnode_view \<Rightarrow> _) n (min_bnode_id api) {} \<and>
     fresh_ids (next_plain api :: iri_view \<Rightarrow> _) n (min_iri_id api) (snd ` set (reserved_datatype_ids api)) \<and>
     fresh_ids (next_literal api) n (min_literal_id api) {} \<and>
     fresh_ids (next_plain api :: variable_view \<Rightarrow> _) n (min_variable_id api) {}"

lemma storage_ok_new [simp]: "storage_ok new_storage" "data2id new_storage = []"
  by (simp_all add: storage_ok_def new_storage_def)

lemma reserve_ok:
  assumes "alloc_ok (allocate api)" and "distinct (map snd rs)"
  shows "storage_ok (fold (reserve_iri api) rs new_storage) \<and>
         map snd (data2id (fold (reserve_iri api) rs new_storage)) = map snd rs"
  using assms(2)
proof (induction rs rule: rev_induct)
  case Nil
  show ?case by simp
next
  case (snoc r rs)
  then have ok: "storage_ok (fold (reserve_iri api) rs new_storage)"
    "map snd (data2id (fold (reserve_iri api) rs new_storage)) = map snd rs"
    by simp_all
  have "snd r \<notin> snd ` set (data2id (fold (reserve_iri api) rs new_storage))"
    using snoc.prems ok(2) by (auto simp flip: set_map)
  note ins = insert_backend_effect [OF ok(1) assms(1) this]
  show ?case using ins(1,2) ok(2) by (simp add: reserve_iri_def [of api r])
qed

lemma new_store_ok: "node_api_ok api n \<Longrightarrow> store_ok api n (new_store api)"
proof -
  assume ok: "node_api_ok api n"
  then have "alloc_ok (allocate api)" "distinct (map snd (reserved_datatype_ids api))"
    by (simp_all add: node_api_ok_def)
  note reserve = reserve_ok [OF this]
  have "snd ` set (data2id (fold (reserve_iri api) (reserved_datatype_ids api) new_storage)) =
      snd ` set (reserved_datatype_ids api)"
    using arg_cong [where f = set, OF conjunct2 [OF reserve]] by simp
  with ok conjunct1 [OF reserve] show ?thesis
    by (simp add: store_ok_def typed_ok_def node_api_ok_def new_store_def)
qed

lemma typed_ok_mono: "typed_ok ops alloc next_id (Suc n) s \<Longrightarrow> typed_ok ops alloc next_id n s"
  unfolding typed_ok_def by (metis fresh_ids_mono)

lemma store_ok_mono: "store_ok api (Suc n) s \<Longrightarrow> store_ok api n s"
  by (simp add: store_ok_def typed_ok_mono)

lemma find_or_make_ok:
  assumes "store_ok api (Suc n) s"
  shows "store_ok api n (snd (find_or_make_bnode api b s))"
    and "store_ok api n (snd (find_or_make_iri api i s))"
    and "store_ok api n (snd (find_or_make_literal api l s))"
    and "store_ok api n (snd (find_or_make_variable api v s))"
  using assms store_ok_mono [OF assms]
    typed.make_inv [of "b_ops api" "allocate api" "next_plain api" n "(bnode_storage s, next_bnode_id s)" b]
    typed.make_inv [of "i_ops api" "allocate api" "next_plain api" n "(iri_storage s, next_iri_id s)" i]
    typed.make_inv [of "l_ops api" "allocate api" "next_literal api" n "(literal_storage s, next_literal_id s)" l]
    typed.make_inv [of "v_ops api" "allocate api" "next_plain api" n "(variable_storage s, next_variable_id s)" v]
  by (auto simp: store_ok_def find_or_make_bnode_def find_or_make_iri_def find_or_make_literal_def
      find_or_make_variable_def split: prod.splits)

lemma backend_call_ok:
  assumes "store_ok api (Suc n) s" and "backend_call api req s = Inr (r, s')"
  shows "store_ok api n s'"
proof -
  have "\<And>v i t. find_or_make_bnode api v s = (i, t) \<Longrightarrow> store_ok api n t"
    "\<And>v i t. find_or_make_iri api v s = (i, t) \<Longrightarrow> store_ok api n t"
    "\<And>v i t. find_or_make_literal api v s = (i, t) \<Longrightarrow> store_ok api n t"
    "\<And>v i t. find_or_make_variable api v s = (i, t) \<Longrightarrow> store_ok api n t"
    using find_or_make_ok [OF assms(1)] by (metis snd_conv)+
  then show ?thesis
    using assms(2) store_ok_mono [OF assms(1)] by (cases req) (auto simp: map_res_def split: prod.splits, metis surj_pair)
qed

fun backend_run ::
  "('i, 'j, 't, 'n) node_api \<Rightarrow> ('i, 'n) request list \<Rightarrow> ('i, 'j) node_store \<Rightarrow>
   exn + ('i, 'n) response list \<times> ('i, 'j) node_store" where
  "backend_run api [] s = Inr ([], s)"
| "backend_run api (req # reqs) s =
     bind_res (backend_call api req s) (\<lambda>(r, s). bind_res (backend_run api reqs s) (\<lambda>(rs, s). Inr (r # rs, s)))"

text \<open>Each interning function is an instance of the interface, at the level of the whole store.\<close>

lemma find_as_typed:
  "find_bnode api v s = typed_find (b_ops api) (bnode_storage s, next_bnode_id s) v"
  "find_iri api w s = typed_find (i_ops api) (iri_storage s, next_iri_id s) w"
  "find_literal api x s = typed_find (l_ops api) (literal_storage s, next_literal_id s) x"
  "find_variable api y s = typed_find (v_ops api) (variable_storage s, next_variable_id s) y"
  by (simp_all add: find_bnode_def find_iri_def find_literal_def find_variable_def lookup_without_insert)

lemma make_as_typed:
  "find_or_make_bnode api v s =
     (let r = lookup_or_insert_impl (b_ops api) (allocate api) (next_plain api) True v (bnode_storage s, next_bnode_id s)
      in (fst r, s\<lparr>bnode_storage := fst (snd r), next_bnode_id := snd (snd r)\<rparr>))"
  "find_or_make_iri api w s =
     (let r = lookup_or_insert_impl (i_ops api) (allocate api) (next_plain api) True w (iri_storage s, next_iri_id s)
      in (fst r, s\<lparr>iri_storage := fst (snd r), next_iri_id := snd (snd r)\<rparr>))"
  "find_or_make_literal api x s =
     (let r = lookup_or_insert_impl (l_ops api) (allocate api) (next_literal api) True x (literal_storage s, next_literal_id s)
      in (fst r, s\<lparr>literal_storage := fst (snd r), next_literal_id := snd (snd r)\<rparr>))"
  "find_or_make_variable api y s =
     (let r = lookup_or_insert_impl (v_ops api) (allocate api) (next_plain api) True y (variable_storage s, next_variable_id s)
      in (fst r, s\<lparr>variable_storage := fst (snd r), next_variable_id := snd (snd r)\<rparr>))"
  by (simp_all add: find_or_make_bnode_def find_or_make_iri_def find_or_make_literal_def find_or_make_variable_def
      Let_def split: prod.split)

lemma ops_eq [simp]:
  "view_eq (b_ops api) = bnode_eq api" "view_eq (i_ops api) = iri_eq api"
  "view_eq (l_ops api) = literal_eq api" "view_eq (v_ops api) = variable_eq api"
  by (simp_all add: bnode_ops_def iri_ops_def literal_ops_def variable_ops_def)

lemma store_okD:
  "store_ok api n s \<Longrightarrow> typed_ok (b_ops api) (allocate api) (next_plain api) n (bnode_storage s, next_bnode_id s)"
  "store_ok api n s \<Longrightarrow> typed_ok (i_ops api) (allocate api) (next_plain api) n (iri_storage s, next_iri_id s)"
  "store_ok api n s \<Longrightarrow> typed_ok (l_ops api) (allocate api) (next_literal api) n (literal_storage s, next_literal_id s)"
  "store_ok api n s \<Longrightarrow> typed_ok (v_ops api) (allocate api) (next_plain api) n (variable_storage s, next_variable_id s)"
  by (simp_all add: store_ok_def)

interpretation iris: intern_store "find_or_make_iri api" "\<lambda>s v. find_iri api v s"
  "\<lambda>s. find_backend_view (i_ops api) (iri_storage s)" "store_ok api" "iri_eq api" "faithful (i_ops api)"
  for api
proof (unfold_locales, goal_cases)
  case (1 n s v)
  then show ?case by (rule find_or_make_ok)
next
  case (2 n s v)
  then show ?case
    using typed.make_found [OF store_okD(2) [OF 2(1)] 2(2)] by (simp add: find_as_typed make_as_typed Let_def)
next
  case (3 n s w i v)
  then show ?case
    using typed.make_keeps [OF store_okD(2) [OF 3(1)]] by (simp add: find_as_typed make_as_typed Let_def)
next
  case (4 s v i)
  then show ?case by (simp add: find_as_typed make_as_typed lookup_hit Let_def)
next
  case (5 n s v i w)
  then show ?case using typed.found_same [OF store_okD(2) [OF 5(1)]] by (simp add: find_as_typed)
next
  case (6 n s v i)
  then show ?case using typed.found_view [OF store_okD(2) [OF 6(1)]] by (simp add: find_as_typed)
qed

interpretation literals: intern_store "find_or_make_literal api" "\<lambda>s v. find_literal api v s"
  "\<lambda>s. find_backend_view (l_ops api) (literal_storage s)" "store_ok api" "literal_eq api" "faithful (l_ops api)"
  for api
proof (unfold_locales, goal_cases)
  case (1 n s v)
  then show ?case by (rule find_or_make_ok)
next
  case (2 n s v)
  then show ?case
    using typed.make_found [OF store_okD(3) [OF 2(1)] 2(2)] by (simp add: find_as_typed make_as_typed Let_def)
next
  case (3 n s w i v)
  then show ?case
    using typed.make_keeps [OF store_okD(3) [OF 3(1)]] by (simp add: find_as_typed make_as_typed Let_def)
next
  case (4 s v i)
  then show ?case by (simp add: find_as_typed make_as_typed lookup_hit Let_def)
next
  case (5 n s v i w)
  then show ?case using typed.found_same [OF store_okD(3) [OF 5(1)]] by (simp add: find_as_typed)
next
  case (6 n s v i)
  then show ?case using typed.found_view [OF store_okD(3) [OF 6(1)]] by (simp add: find_as_typed)
qed

interpretation variables: intern_store "find_or_make_variable api" "\<lambda>s v. find_variable api v s"
  "\<lambda>s. find_backend_view (v_ops api) (variable_storage s)" "store_ok api" "variable_eq api" "faithful (v_ops api)"
  for api
proof (unfold_locales, goal_cases)
  case (1 n s v)
  then show ?case by (rule find_or_make_ok)
next
  case (2 n s v)
  then show ?case
    using typed.make_found [OF store_okD(4) [OF 2(1)] 2(2)] by (simp add: find_as_typed make_as_typed Let_def)
next
  case (3 n s w i v)
  then show ?case
    using typed.make_keeps [OF store_okD(4) [OF 3(1)]] by (simp add: find_as_typed make_as_typed Let_def)
next
  case (4 s v i)
  then show ?case by (simp add: find_as_typed make_as_typed lookup_hit Let_def)
next
  case (5 n s v i w)
  then show ?case using typed.found_same [OF store_okD(4) [OF 5(1)]] by (simp add: find_as_typed)
next
  case (6 n s v i)
  then show ?case using typed.found_view [OF store_okD(4) [OF 6(1)]] by (simp add: find_as_typed)
qed

interpretation bnodes: intern_store "find_or_make_bnode api" "\<lambda>s v. find_bnode api v s"
  "\<lambda>s. find_backend_view (b_ops api) (bnode_storage s)" "store_ok api" "bnode_eq api" "faithful (b_ops api)"
  for api
proof (unfold_locales, goal_cases)
  case (1 n s v)
  then show ?case by (rule find_or_make_ok)
next
  case (2 n s v)
  then show ?case
    using typed.make_found [OF store_okD(1) [OF 2(1)] 2(2)] by (simp add: find_as_typed make_as_typed Let_def)
next
  case (3 n s w i v)
  then show ?case
    using typed.make_keeps [OF store_okD(1) [OF 3(1)]] by (simp add: find_as_typed make_as_typed Let_def)
next
  case (4 s v i)
  then show ?case by (simp add: find_as_typed make_as_typed lookup_hit Let_def)
next
  case (5 n s v i w)
  then show ?case using typed.found_same [OF store_okD(1) [OF 5(1)]] by (simp add: find_as_typed)
next
  case (6 n s v i)
  then show ?case using typed.found_view [OF store_okD(1) [OF 6(1)]] by (simp add: find_as_typed)
qed

end
