(* ===== verification/Node_Interning.thy ===== *)
theory Node_Interning
  imports Node_Store
begin

text \<open>
  What the node store guarantees: its invariant, interning of each kind of node, the errors of its
  interface, the stability of ids; and the one kind of view it cannot intern, a blank node with a scope.
\<close>

subsection \<open>A concrete library\<close>

text \<open>Consecutive numbers as ids, structural equality, and one reserved datatype.\<close>

definition sample_nodes :: "(nat, nat, nat, unit) node_api" where
  "sample_nodes = \<lparr>allocate = (\<lambda>ps. Suc (fold max ps 0)), succ_id = Suc, succ_literal_id = Suc,
     make_literal_id = (\<lambda>j t. 10 * j + min t 9), iri_node_id_to_literal_type = id, min_bnode_id = 1, min_iri_id = 7,
     min_literal_id = 1, min_variable_id = 1, reserved_datatype_ids = [(''xsd:string'', 5)],
     bnode_hash = (\<lambda>_. 0), bnode_eq = (=), iri_hash = (\<lambda>_. 0), iri_eq = (=),
     literal_hash = (\<lambda>_. 0), literal_eq = (=), variable_hash = (\<lambda>_. 0), variable_eq = (=)\<rparr>"

lemma fold_max_ge: "a \<le> fold max xs (a :: nat) \<and> (\<forall>x \<in> set xs. x \<le> fold max xs a)"
  by (induction xs arbitrary: a) (auto intro: order_trans [OF max.cobounded1] order_trans [OF max.cobounded2])

lemma fresh_plain_nat:
  "succ_id api = Suc \<Longrightarrow> (\<forall>u \<in> used. u < c) \<Longrightarrow> fresh_ids (next_plain api) n c used"
  by (induction n arbitrary: c used) (auto simp: next_plain_def less_Suc_eq)

lemma fresh_literal_nat:
  "(\<forall>u \<in> used. u < 10 * c) \<Longrightarrow> fresh_ids (next_literal sample_nodes) n c used"
proof (induction n arbitrary: c used)
  case 0
  show ?case by simp
next
  case (Suc n)
  have "\<forall>u \<in> insert (10 * c + min t 9) used. u < 10 * Suc c" for t
    using Suc.prems by auto
  then show ?case
    using Suc.IH [of _ "Suc c"] Suc.prems by (auto simp: next_literal_def sample_nodes_def)
qed

lemma sample_nodes_ok: "node_api_ok sample_nodes n"
proof -
  have "alloc_ok (allocate sample_nodes)"
    using fold_max_ge [of 0] by (fastforce simp: alloc_ok_def sample_nodes_def)
  moreover have "view_laws (b_ops sample_nodes)" "view_laws (i_ops sample_nodes)" "view_laws (l_ops sample_nodes)"
    "view_laws (v_ops sample_nodes)"
    by (simp_all add: view_laws_def bnode_ops_def iri_ops_def literal_ops_def variable_ops_def sample_nodes_def
        identity_equivp)
  moreover have "fresh_ids (next_plain sample_nodes :: unit bnode_view \<Rightarrow> _) n (min_bnode_id sample_nodes) {}"
    "fresh_ids (next_plain sample_nodes :: iri_view \<Rightarrow> _) n (min_iri_id sample_nodes)
       (snd ` set (reserved_datatype_ids sample_nodes))"
    "fresh_ids (next_plain sample_nodes :: variable_view \<Rightarrow> _) n (min_variable_id sample_nodes) {}"
    by (rule fresh_plain_nat; simp add: sample_nodes_def)+
  moreover have "fresh_ids (next_literal sample_nodes) n (min_literal_id sample_nodes) {}"
    by (rule fresh_literal_nat) simp
  moreover have "distinct (map snd (reserved_datatype_ids sample_nodes))" by (simp add: sample_nodes_def)
  ultimately show ?thesis by (simp only: node_api_ok_def)
qed

subsection \<open>The invariant\<close>

lemma backend_run_ok:
  "store_ok api (length reqs + n) s \<Longrightarrow> backend_run api reqs s = Inr (rs, s') \<Longrightarrow> store_ok api n s'"
proof (induction reqs arbitrary: s rs)
  case Nil
  then show ?case by simp
next
  case (Cons req reqs)
  then obtain r s1 rs1 where "backend_call api req s = Inr (r, s1)" "backend_run api reqs s1 = Inr (rs1, s')"
    by auto
  with Cons show ?case by (auto intro: backend_call_ok)
qed

text \<open>
  Whatever sequence of calls a new store receives, its two maps stay inverse to each other, without
  a repeated id or pointer and without a pointer to memory it does not own, for as long as the library
  provides fresh ids.
\<close>

lemma store_invariant:
  assumes "node_api_ok api (length reqs)" and "backend_run api reqs (new_store api) = Inr (rs, s)"
  shows "storage_ok (bnode_storage s) \<and> storage_ok (iri_storage s) \<and> storage_ok (literal_storage s) \<and>
         storage_ok (variable_storage s)"
proof -
  have "store_ok api 0 s"
    by (rule backend_run_ok [of _ reqs 0 "new_store api" rs]) (use assms new_store_ok in auto)
  then show ?thesis by (simp add: store_ok_def typed_ok_def)
qed

definition sample_requests :: "(nat, unit) request list" where
  "sample_requests = [FindOrMakeIRI \<lparr>iri_identifier = ''a''\<rparr>, FindOrMakeIRI \<lparr>iri_identifier = ''xsd:string''\<rparr>, Size]"

definition sample_store :: "(nat, nat) node_store" where
  "sample_store = (new_store sample_nodes)\<lparr>next_iri_id := 8, iri_storage :=
     \<lparr>memory = [1 \<mapsto> \<lparr>ib_iri = ''xsd:string'', ib_hash = 0\<rparr>, 2 \<mapsto> \<lparr>ib_iri = ''a'', ib_hash = 0\<rparr>],
      id2data = [(5, 1), (7, 2)], data2id = [(1, 5), (2, 7)]\<rparr>\<rparr>"

lemmas store_run_defs = find_or_make_iri_def find_or_make_bnode_def lookup_or_insert_impl_def find_data_def matches_def
  insert_backend_def emplace_def new_store_def new_storage_def reserve_iri_def iri_ops_def bnode_ops_def
  make_iri_backend_def iri_view_of_def make_bnode_backend_def bnode_view_of_def next_plain_def store_size_def lookup_size_def
  sample_nodes_def

lemma sample_run:
  "backend_run sample_nodes sample_requests (new_store sample_nodes) =
     Inr ([NodeID (Some 7), NodeID (Some 5), SizeIs 2], sample_store)"
  by (simp add: sample_requests_def sample_store_def store_run_defs Let_def numeral_2_eq_2)

lemma store_invariant_example: "storage_ok (iri_storage sample_store)"
  using store_invariant [OF sample_nodes_ok sample_run] by simp

subsection \<open>Interning\<close>

lemma view_eta:
  "\<lparr>iri_identifier = iri_identifier i\<rparr> = i"
  "\<lparr>lit_datatype_id = lit_datatype_id l, lit_lexical_form = lit_lexical_form l,
     lit_language_tag = lit_language_tag l, lit_needs_escape = lit_needs_escape l\<rparr> = l"
  "\<lparr>variable_view_name = variable_view_name v, variable_view_anonymous = variable_view_anonymous v\<rparr> = v"
  by simp_all

lemma faithful_views:
  "view_laws (i_ops api) \<Longrightarrow> faithful (i_ops api) i"
  "view_laws (l_ops api) \<Longrightarrow> faithful (l_ops api) l"
  "view_laws (v_ops api) \<Longrightarrow> faithful (v_ops api) v"
  by (auto simp: faithful_def matches_def view_laws_def iri_ops_def literal_ops_def variable_ops_def
      make_iri_backend_def iri_view_of_def make_literal_backend_def literal_view_of_def make_variable_backend_def
      variable_view_of_def Let_def view_eta equivp_reflp)

lemma store_view_laws:
  "store_ok api n s \<Longrightarrow> view_laws (i_ops api) \<and> view_laws (l_ops api) \<and> view_laws (v_ops api)"
  by (simp add: store_ok_def typed_ok_def)

text \<open>
  Interning literals, whose ids also encode the datatype: two literals receive the same id exactly if
  lexical form, datatype, language tag and escaping are equal as the library compares them, and every id
  resolves to an equal literal.
\<close>

lemma literals_interned:
  assumes "store_ok api (length vs) s" and "make_all (find_or_make_literal api) vs s = (is, s')"
    and "j < length vs" and "k < length vs"
  shows "(is ! j = is ! k \<longleftrightarrow> literal_eq api (vs ! j) (vs ! k)) \<and>
         (\<exists>i w. is ! j = Some i \<and> find_backend_view (l_ops api) (literal_storage s') i = Inr w \<and> literal_eq api (vs ! j) w)"
  using literals.make_all_injective [OF assms(1) faithful_views(2) assms(2-4)] store_view_laws [OF assms(1)] by simp

definition sample_literal :: "nat \<Rightarrow> nat literal_view" where
  "sample_literal d = \<lparr>lit_datatype_id = d, lit_lexical_form = ''1'', lit_language_tag = '''', lit_needs_escape = False\<rparr>"

lemma literals_interned_example:
  "fst (make_all (find_or_make_literal sample_nodes) [sample_literal 1, sample_literal 2] (new_store sample_nodes)) ! 0 \<noteq>
   fst (make_all (find_or_make_literal sample_nodes) [sample_literal 1, sample_literal 2] (new_store sample_nodes)) ! 1"
  using literals_interned [OF new_store_ok [OF sample_nodes_ok], of "[sample_literal 1, sample_literal 2]" _ _ 0 1,
      OF surjective_pairing]
  by (simp add: sample_nodes_def sample_literal_def)

lemma scoped_not_matched:
  assumes "\<And>w. bnode_eq api v w \<Longrightarrow> bnode_scope v = bnode_scope w" and "bnode_scope v \<noteq> None"
  shows "\<not> matches (b_ops api) v b"
  using assms(1) [of "bnode_view_of b"] assms(2) by (auto simp: matches_def bnode_ops_def bnode_view_of_def)

lemma typed_miss_fresh:
  assumes "typed_ok ops alloc next_id (Suc (Suc n)) s" and "typed_find ops s v = None"
    and "typed_find ops (snd (lookup_or_insert_impl ops alloc next_id True v s)) v = None"
  shows "fst (lookup_or_insert_impl ops alloc next_id True v (snd (lookup_or_insert_impl ops alloc next_id True v s))) \<noteq>
         fst (lookup_or_insert_impl ops alloc next_id True v s)"
proof -
  have "fresh_ids next_id (Suc (Suc n)) (snd s) (snd ` set (data2id (fst s)))"
    using assms(1) by (simp add: typed_ok_def)
  then have "fst (next_id v (snd (next_id v (snd s)))) \<noteq> fst (next_id v (snd s))" by simp
  then show ?thesis
    using lookup_miss [OF assms(2), of alloc next_id] lookup_miss [OF assms(3), of alloc next_id] by simp
qed

text \<open>
  C35. The backend of a blank node does not keep its scope. If the library tells scopes apart, a blank node
  with a scope is never found again, and interning it twice in a row yields two different ids.
\<close>

theorem scoped_bnodes_not_interned:
  assumes "\<And>w. bnode_eq api v w \<Longrightarrow> bnode_scope v = bnode_scope w" and "bnode_scope v \<noteq> None"
    and "store_ok api 2 s"
    and "find_or_make_bnode api v s = (i1, s1)" and "find_or_make_bnode api v s1 = (i2, s2)"
  shows "find_bnode api v s1 = None \<and> i1 \<noteq> i2"
proof -
  have none: "typed_find (b_ops api) t v = None" for t
    using scoped_not_matched [of api v, OF assms(1,2)] by (simp add: typed_find_def find_data_None split: prod.split)
  have "store_ok api (Suc (Suc 0)) s" using assms(3) by (simp add: numeral_2_eq_2)
  from typed_miss_fresh [OF store_okD(1) [OF this] none none] assms(4,5) show ?thesis
    by (auto simp: find_as_typed make_as_typed Let_def none)
qed

definition scoped :: "unit bnode_view" where
  "scoped = \<lparr>bnode_identifier = ''b'', bnode_scope = Some ()\<rparr>"

theorem scoped_bnodes_not_interned_witness:
  "find_bnode sample_nodes scoped (snd (find_or_make_bnode sample_nodes scoped (new_store sample_nodes))) = None"
  using scoped_bnodes_not_interned [of sample_nodes scoped, OF _ _ new_store_ok [OF sample_nodes_ok]
      surjective_pairing surjective_pairing]
  by (simp add: sample_nodes_def scoped_def)

subsection \<open>Ids and errors\<close>

lemma find_backend_view_stable:
  assumes "typed_ok ops alloc next_id (Suc n) s" and "find_backend_view ops (fst s) i = Inr w"
  shows "find_backend_view ops (fst (snd (lookup_or_insert_impl ops alloc next_id True v s))) i = Inr w"
proof (cases "typed_find ops s v")
  case (Some j)
  then show ?thesis using assms(2) by (simp add: lookup_hit)
next
  case None
  have st: "storage_ok (fst s)" "alloc_ok alloc" using assms(1) by (simp_all add: typed_ok_def)
  obtain p b where p: "map_of (id2data (fst s)) i = Some p" "memory (fst s) p = Some b" "as_view ops b = w"
    using assms(2) by (auto simp: find_backend_view_def split: option.splits)
  have "(i, p) \<in> set (id2data (fst s))" using p(1) by (rule map_of_SomeD)
  then have "p \<in> set (map fst (data2id (fst s)))" using st(1) by (force simp: storage_ok_def)
  then have "alloc (map fst (data2id (fst s))) \<noteq> p" using st(2) unfolding alloc_ok_def by metis
  then show ?thesis
    using p by (auto simp: lookup_miss [OF None] insert_backend_def Let_def emplace_def find_backend_view_def
        map_add_def split: option.split)
qed

text \<open>Every id of a storage still resolves to the view it resolved to before.\<close>

definition ids_kept :: "('v, 'b) backend_ops \<Rightarrow> ('b, 'i) type_storage \<Rightarrow> ('b, 'i) type_storage \<Rightarrow> bool" where
  "ids_kept ops st st' \<longleftrightarrow> (\<forall>i w. find_backend_view ops st i = Inr w \<longrightarrow> find_backend_view ops st' i = Inr w)"

lemma ids_kept_refl [simp]: "ids_kept ops st st"
  by (simp add: ids_kept_def)

lemma ids_kept_trans: "ids_kept ops st st' \<Longrightarrow> ids_kept ops st' st'' \<Longrightarrow> ids_kept ops st st''"
  by (simp add: ids_kept_def)

lemma lookup_kept:
  assumes "typed_ok ops alloc next_id (Suc n) s"
  shows "ids_kept ops (fst s) (fst (snd (lookup_or_insert_impl ops alloc next_id True v s)))"
  using find_backend_view_stable [OF assms] by (simp add: ids_kept_def)

lemma backend_call_kept:
  assumes "store_ok api (Suc n) s" and "backend_call api req s = Inr (r, s')"
  shows "ids_kept (b_ops api) (bnode_storage s) (bnode_storage s')"
    and "ids_kept (i_ops api) (iri_storage s) (iri_storage s')"
    and "ids_kept (l_ops api) (literal_storage s) (literal_storage s')"
    and "ids_kept (v_ops api) (variable_storage s) (variable_storage s')"
  using assms(2) lookup_kept [OF store_okD(1) [OF assms(1)]] lookup_kept [OF store_okD(2) [OF assms(1)]]
    lookup_kept [OF store_okD(3) [OF assms(1)]] lookup_kept [OF store_okD(4) [OF assms(1)]]
  by (cases req; auto simp: make_as_typed Let_def map_res_def bind_res_def no_except_def split: sum.splits)+

text \<open>
  C30. In each of the four storages of a consistent store, every id keeps resolving to the same node whatever else is
  asked of the store later, as long as fresh ids do not run out: ids are never reassigned.
\<close>

theorem ids_stable:
  assumes "store_ok api (length reqs) s" and "backend_run api reqs s = Inr (rs, s')"
  shows "ids_kept (b_ops api) (bnode_storage s) (bnode_storage s') \<and>
         ids_kept (i_ops api) (iri_storage s) (iri_storage s') \<and>
         ids_kept (l_ops api) (literal_storage s) (literal_storage s') \<and>
         ids_kept (v_ops api) (variable_storage s) (variable_storage s')"
  using assms
proof (induction reqs arbitrary: s rs)
  case Nil
  then show ?case by simp
next
  case (Cons req reqs)
  then obtain r s1 rs1 where step: "backend_call api req s = Inr (r, s1)" "backend_run api reqs s1 = Inr (rs1, s')"
    by auto
  have ok: "store_ok api (Suc (length reqs)) s" using Cons.prems(1) by simp
  from Cons.IH [OF backend_call_ok [OF ok step(1)] step(2)] show ?case
    using backend_call_kept [OF ok step(1)] by (blast intro: ids_kept_trans)
qed

theorem ids_stable_witness: "find_backend_view (i_ops sample_nodes) (iri_storage sample_store) 5 = Inr \<lparr>iri_identifier = ''xsd:string''\<rparr>"
proof -
  have "find_backend_view (i_ops sample_nodes) (iri_storage (new_store sample_nodes)) 5 = Inr \<lparr>iri_identifier = ''xsd:string''\<rparr>"
    by (simp add: store_run_defs find_backend_view_def Let_def)
  then show ?thesis
    using ids_stable [OF new_store_ok [OF sample_nodes_ok] sample_run] by (simp add: ids_kept_def)
qed

lemma find_backend_view_error:
  assumes "storage_ok st"
  shows "find_backend_view ops st i = Inl e \<longleftrightarrow> i \<notin> snd ` set (data2id st) \<and> e = OutOfRange"
proof -
  have ids: "fst ` set (id2data st) = snd ` set (data2id st)"
    using assms by (simp add: storage_ok_def image_image)
  show ?thesis
  proof (cases "map_of (id2data st) i")
    case None
    moreover from this have "i \<notin> snd ` set (data2id st)" by (simp add: map_of_eq_None_iff ids)
    ultimately show ?thesis by (auto simp: find_backend_view_def)
  next
    case (Some p)
    then have p: "(i, p) \<in> set (id2data st)" by (rule map_of_SomeD)
    then have "p \<in> set (map fst (data2id st))"
      using assms by (auto simp: storage_ok_def intro: rev_image_eqI)
    then have "memory st p \<noteq> None" using assms unfolding storage_ok_def by blast
    moreover have "i \<in> snd ` set (data2id st)" using p ids by (metis fst_conv imageI)
    ultimately show ?thesis using Some by (auto simp: find_backend_view_def)
  qed
qed

fun request_error :: "('i, 'j) node_store \<Rightarrow> ('i, 'n) request \<Rightarrow> exn option" where
  "request_error s (FindOrMakeLiteral ValueView) = Some Terminated"
| "request_error s (FindLiteral ValueView) = Some Terminated"
| "request_error s (FindBNodeView i) = (if i \<in> snd ` set (data2id (bnode_storage s)) then None else Some OutOfRange)"
| "request_error s (FindIRIView i) = (if i \<in> snd ` set (data2id (iri_storage s)) then None else Some OutOfRange)"
| "request_error s (FindLiteralView i) = (if i \<in> snd ` set (data2id (literal_storage s)) then None else Some OutOfRange)"
| "request_error s (FindVariableView i) = (if i \<in> snd ` set (data2id (variable_storage s)) then None else Some OutOfRange)"
| "request_error s (EraseIRI i) = Some (RuntimeError ''Not implemented.'')"
| "request_error s (EraseLiteral i) = Some (RuntimeError ''Not implemented.'')"
| "request_error s (EraseBNode i) = Some (RuntimeError ''Not implemented.'')"
| "request_error s (EraseVariable i) = Some (RuntimeError ''Not implemented.'')"
| "request_error s _ = None"

lemma map_res_Inl: "map_res f m = Inl e \<longleftrightarrow> m = Inl e"
  by (cases m) auto

text \<open>
  On a consistent store the interface fails in three ways only: erasing is not implemented, resolving
  an id that was never assigned is out of range, and a literal view that is not in lexical form ends the
  process, since the library's exception leaves a \<open>noexcept\<close> function. Interning and looking up IRIs,
  blank nodes and variables never fails.
\<close>

lemma backend_errors:
  assumes "store_ok api n s"
  shows "(case backend_call api req s of Inl e \<Rightarrow> Some e | Inr _ \<Rightarrow> None) = request_error s req"
proof -
  have st: "storage_ok (bnode_storage s)" "storage_ok (iri_storage s)" "storage_ok (literal_storage s)"
    "storage_ok (variable_storage s)"
    using assms by (simp_all add: store_ok_def typed_ok_def)
  have iff: "backend_call api req s = Inl e \<longleftrightarrow> request_error s req = Some e" for e
  proof (cases req)
    case (FindOrMakeLiteral v)
    then show ?thesis by (cases v) (auto split: prod.split)
  next
    case (FindLiteral v)
    then show ?thesis by (cases v) auto
  qed (use st in \<open>auto simp: map_res_Inl find_backend_view_error split: prod.split\<close>)
  show ?thesis
  proof (cases "backend_call api req s")
    case (Inl e)
    then show ?thesis using iff [of e] by simp
  next
    case (Inr x)
    then have "request_error s req \<noteq> Some e" for e using iff [of e] by simp
    then have "request_error s req = None" by (cases "request_error s req") blast+
    then show ?thesis using Inr by simp
  qed
qed

lemma backend_errors_example:
  "backend_call sample_nodes (FindIRIView 3) (new_store sample_nodes) = Inl OutOfRange"
  using backend_errors [OF new_store_ok [OF sample_nodes_ok, of 0], of "FindIRIView 3"]
  by (simp add: store_run_defs Let_def split: sum.splits)

end
