(* ===== verification/Node_Keys.thy ===== *)
theory Node_Keys
  imports Node_Interning
begin

text \<open>
  The key parts of the RDF tensor (\<open>libs/rdf-tensor\<close>, \<open>NodeWrapper.hpp\<close> and \<open>RDFNodeHashes.hpp\<close>): nodes
  are compared, ordered and hashed by the raw value of their handle alone, never by what they stand for.
  That this is sound rests on interning: the whole interface of the node store, for nodes of all kinds in
  any order, is one more \<open>intern_store\<close>.

  The handle is a class of the RDF library: the id of the node with its kind, whose \<open>raw()\<close> is a
  parameter.
\<close>

subsection \<open>\<open>NodeWrapper\<close>\<close>

datatype node_kind = BNodeKind | IRIKind | LiteralKind | VariableKind

record 'i handle =
  handle_id :: 'i
  handle_kind :: node_kind

definition node_wrapper_eq :: "('i handle \<Rightarrow> size_t) \<Rightarrow> 'i handle \<Rightarrow> 'i handle \<Rightarrow> bool" where
  "node_wrapper_eq raw a b \<longleftrightarrow> raw a = raw b"

definition node_wrapper_neq :: "('i handle \<Rightarrow> size_t) \<Rightarrow> 'i handle \<Rightarrow> 'i handle \<Rightarrow> bool" where
  "node_wrapper_neq raw a b \<longleftrightarrow> raw a \<noteq> raw b"

datatype ordering = Less | Equal | Greater

definition node_wrapper_compare :: "('i handle \<Rightarrow> size_t) \<Rightarrow> 'i handle \<Rightarrow> 'i handle \<Rightarrow> ordering" where
  "node_wrapper_compare raw a b = (if raw a < raw b then Less else if raw a = raw b then Equal else Greater)"

text \<open>\<open>dice_hash_overload\<close> of the wrapper and of the four node classes, and \<open>std::hash\<close>.\<close>

definition node_wrapper_hash :: "(size_t \<Rightarrow> size_t) \<Rightarrow> ('i handle \<Rightarrow> size_t) \<Rightarrow> 'i handle \<Rightarrow> size_t" where
  "node_wrapper_hash hash_fundamental raw x = hash_fundamental (raw x)"

definition rdf_node_hash :: "(size_t \<Rightarrow> size_t) \<Rightarrow> ('i handle \<Rightarrow> size_t) \<Rightarrow> 'i handle \<Rightarrow> size_t" where
  "rdf_node_hash hash_fundamental raw x = hash_fundamental (raw x)"

definition std_hash :: "('i handle \<Rightarrow> size_t) \<Rightarrow> 'i handle \<Rightarrow> size_t" where
  "std_hash raw x = raw x"

subsection \<open>Interning through the interface\<close>

datatype ('i, 'n) node_view =
    BNodeOf "'n bnode_view"
  | IRIOf iri_view
  | LiteralOf "'i literal_view"
  | VariableOf variable_view

fun kind_of :: "('i, 'n) node_view \<Rightarrow> node_kind" where
  "kind_of (BNodeOf b) = BNodeKind"
| "kind_of (IRIOf i) = IRIKind"
| "kind_of (LiteralOf l) = LiteralKind"
| "kind_of (VariableOf v) = VariableKind"

fun make_request :: "('i, 'n) node_view \<Rightarrow> ('i, 'n) request" where
  "make_request (BNodeOf b) = FindOrMakeBNode b"
| "make_request (IRIOf i) = FindOrMakeIRI i"
| "make_request (LiteralOf l) = FindOrMakeLiteral (LexicalView l)"
| "make_request (VariableOf v) = FindOrMakeVariable v"

fun find_request :: "('i, 'n) node_view \<Rightarrow> ('i, 'n) request" where
  "find_request (BNodeOf b) = FindBNode b"
| "find_request (IRIOf i) = FindIRI i"
| "find_request (LiteralOf l) = FindLiteral (LexicalView l)"
| "find_request (VariableOf v) = FindVariable v"

fun view_request :: "'i handle \<Rightarrow> ('i, 'n) request" where
  "view_request h =
     (case handle_kind h of
        BNodeKind \<Rightarrow> FindBNodeView (handle_id h) | IRIKind \<Rightarrow> FindIRIView (handle_id h)
      | LiteralKind \<Rightarrow> FindLiteralView (handle_id h) | VariableKind \<Rightarrow> FindVariableView (handle_id h))"

definition handle_of :: "node_kind \<Rightarrow> 'i option \<Rightarrow> 'i handle option" where
  "handle_of k i = map_option (\<lambda>i. \<lparr>handle_id = i, handle_kind = k\<rparr>) i"

definition make_node ::
  "('i, 'j, 't, 'n) node_api \<Rightarrow> ('i, 'n) node_view \<Rightarrow> ('i, 'j) node_store \<Rightarrow> 'i handle option \<times> ('i, 'j) node_store" where
  "make_node api v s =
     (case backend_call api (make_request v) s of
        Inr (NodeID i, s') \<Rightarrow> (handle_of (kind_of v) i, s')
      | _ \<Rightarrow> (None, s))"

definition find_node :: "('i, 'j, 't, 'n) node_api \<Rightarrow> ('i, 'j) node_store \<Rightarrow> ('i, 'n) node_view \<Rightarrow> 'i handle option" where
  "find_node api s v =
     (case backend_call api (find_request v) s of
        Inr (NodeID i, s') \<Rightarrow> handle_of (kind_of v) i
      | _ \<Rightarrow> None)"

definition node_view_of :: "('i, 'j, 't, 'n) node_api \<Rightarrow> ('i, 'j) node_store \<Rightarrow> 'i handle \<Rightarrow> exn + ('i, 'n) node_view" where
  "node_view_of api s h =
     bind_res (backend_call api (view_request h) s) (\<lambda>(r, s).
       case r of
         BNodeView b \<Rightarrow> Inr (BNodeOf b) | IRIView i \<Rightarrow> Inr (IRIOf i)
       | LiteralView l \<Rightarrow> Inr (LiteralOf l) | VariableView v \<Rightarrow> Inr (VariableOf v)
       | _ \<Rightarrow> Inl OutOfRange)"

fun same_node :: "('i, 'j, 't, 'n) node_api \<Rightarrow> ('i, 'n) node_view \<Rightarrow> ('i, 'n) node_view \<Rightarrow> bool" where
  "same_node api (BNodeOf a) (BNodeOf b) = bnode_eq api a b"
| "same_node api (IRIOf a) (IRIOf b) = iri_eq api a b"
| "same_node api (LiteralOf a) (LiteralOf b) = literal_eq api a b"
| "same_node api (VariableOf a) (VariableOf b) = variable_eq api a b"
| "same_node api _ _ = False"

fun faithful_node :: "('i, 'j, 't, 'n) node_api \<Rightarrow> ('i, 'n) node_view \<Rightarrow> bool" where
  "faithful_node api (BNodeOf b) = faithful (b_ops api) b"
| "faithful_node api (IRIOf i) = faithful (i_ops api) i"
| "faithful_node api (LiteralOf l) = faithful (l_ops api) l"
| "faithful_node api (VariableOf v) = faithful (v_ops api) v"

lemma make_node_simps [simp]:
  "make_node api (BNodeOf b) s = apfst (handle_of BNodeKind) (find_or_make_bnode api b s)"
  "make_node api (IRIOf i) s = apfst (handle_of IRIKind) (find_or_make_iri api i s)"
  "make_node api (LiteralOf l) s = apfst (handle_of LiteralKind) (find_or_make_literal api l s)"
  "make_node api (VariableOf v) s = apfst (handle_of VariableKind) (find_or_make_variable api v s)"
  by (simp_all add: make_node_def no_except_def split: prod.split)

lemma find_node_simps [simp]:
  "find_node api s (BNodeOf b) = handle_of BNodeKind (find_bnode api b s)"
  "find_node api s (IRIOf i) = handle_of IRIKind (find_iri api i s)"
  "find_node api s (LiteralOf l) = handle_of LiteralKind (find_literal api l s)"
  "find_node api s (VariableOf v) = handle_of VariableKind (find_variable api v s)"
  by (simp_all add: find_node_def no_except_def)

lemma handle_of_Some [simp]: "handle_of k i = Some h \<longleftrightarrow> i = Some (handle_id h) \<and> handle_kind h = k"
  by (cases i; cases h) (auto simp: handle_of_def)

text \<open>Interning a node of one kind leaves the nodes of the other kinds as they are.\<close>

lemma other_kinds_kept:
  "find_iri api i (snd (find_or_make_bnode api b s)) = find_iri api i s"
  "find_literal api l (snd (find_or_make_bnode api b s)) = find_literal api l s"
  "find_variable api v (snd (find_or_make_bnode api b s)) = find_variable api v s"
  "find_bnode api b (snd (find_or_make_iri api i s)) = find_bnode api b s"
  "find_literal api l (snd (find_or_make_iri api i s)) = find_literal api l s"
  "find_variable api v (snd (find_or_make_iri api i s)) = find_variable api v s"
  "find_bnode api b (snd (find_or_make_literal api l s)) = find_bnode api b s"
  "find_iri api i (snd (find_or_make_literal api l s)) = find_iri api i s"
  "find_variable api v (snd (find_or_make_literal api l s)) = find_variable api v s"
  "find_bnode api b (snd (find_or_make_variable api v s)) = find_bnode api b s"
  "find_iri api i (snd (find_or_make_variable api v s)) = find_iri api i s"
  "find_literal api l (snd (find_or_make_variable api v s)) = find_literal api l s"
  by (simp_all add: find_as_typed make_as_typed Let_def)

interpretation nodes: intern_store "make_node api" "find_node api" "node_view_of api" "store_ok api" "same_node api"
  "faithful_node api"
  for api
proof (unfold_locales, goal_cases)
  case (1 n s v)
  then show ?case by (cases v) (simp_all add: find_or_make_ok)
next
  case (2 n s v)
  then show ?case
    using bnodes.make_found [OF 2(1)] iris.make_found [OF 2(1)] literals.make_found [OF 2(1)] variables.make_found [OF 2(1)]
    by (cases v) (fastforce simp: handle_of_def)+
next
  case (3 n s w h v)
  then show ?case
    using bnodes.make_keeps [OF 3(1)] iris.make_keeps [OF 3(1)] literals.make_keeps [OF 3(1)] variables.make_keeps [OF 3(1)]
    by (cases v; cases w) (simp_all add: other_kinds_kept)
next
  case (4 s v h)
  then show ?case
    by (cases v) (auto simp: bnodes.make_hit iris.make_hit literals.make_hit variables.make_hit)
next
  case (5 n s v h w)
  then show ?case
    using bnodes.found_same [OF 5(1)] iris.found_same [OF 5(1)] literals.found_same [OF 5(1)] variables.found_same [OF 5(1)]
    by (cases v; cases w) simp_all
next
  case (6 n s v h)
  then show ?case
    using bnodes.found_view [OF 6(1)] iris.found_view [OF 6(1)] literals.found_view [OF 6(1)] variables.found_view [OF 6(1)]
    by (cases v) (fastforce simp: node_view_of_def)+
qed

subsection \<open>Keys identify nodes\<close>

lemma faithful_nodes:
  assumes "store_ok api n s"
    and "\<And>b. v = BNodeOf b \<Longrightarrow> bnode_eq api b \<lparr>bnode_identifier = bnode_identifier b, bnode_scope = None\<rparr>"
  shows "faithful_node api v"
proof (cases v)
  case (BNodeOf b)
  have "view_laws (b_ops api)" using assms(1) by (simp add: store_ok_def typed_ok_def)
  then show ?thesis
    using BNodeOf assms(2) [OF BNodeOf]
    by (auto simp: faithful_def matches_def view_laws_def bnode_ops_def make_bnode_backend_def bnode_view_of_def Let_def)
qed (use store_view_laws [OF assms(1)] faithful_views in auto)

text \<open>
  C28. Keys of the tensor identify nodes: however nodes of any kind are interned, two of them are equal as
  key parts, and have the same \<open>std::hash\<close>, exactly if they are of the same kind and equal as the library
  compares them, and every handle resolves to an equal node. This holds as long as blank nodes carry no
  scope of their own and the handles keep apart what they are packed from.
\<close>

theorem nodes_interned:
  assumes "store_ok api (length vs) s" and "make_all (make_node api) vs s = (hs, s')"
    and "j < length vs" and "k < length vs" and "inj_on raw (the ` set hs)"
    and "\<And>b. BNodeOf b \<in> set vs \<Longrightarrow> bnode_eq api b \<lparr>bnode_identifier = bnode_identifier b, bnode_scope = None\<rparr>"
  shows "(node_wrapper_eq raw (the (hs ! j)) (the (hs ! k)) \<longleftrightarrow> same_node api (vs ! j) (vs ! k)) \<and>
         (std_hash raw (the (hs ! j)) = std_hash raw (the (hs ! k)) \<longleftrightarrow> same_node api (vs ! j) (vs ! k)) \<and>
         (\<exists>h w. hs ! j = Some h \<and> node_view_of api s' h = Inr w \<and> same_node api (vs ! j) w)"
proof -
  have "faithful_node api v" if "v \<in> set vs" for v
    by (rule faithful_nodes [OF assms(1)]) (use assms(6) that in blast)
  note interned = nodes.make_all_injective [OF assms(1) this assms(2)] nodes.make_all_found [OF assms(1) this assms(2)]
  then have "length hs = length vs" "None \<notin> set hs" by auto
  then have "hs ! j \<in> set hs" "hs ! k \<in> set hs" using assms(3,4) by simp_all
  moreover from this have "hs ! j \<noteq> None" "hs ! k \<noteq> None" using \<open>None \<notin> set hs\<close> by metis+
  ultimately have "raw (the (hs ! j)) = raw (the (hs ! k)) \<longleftrightarrow> hs ! j = hs ! k"
    using inj_onD [OF assms(5)] by (metis imageI option.expand)
  then show ?thesis
    using interned(1,2) [OF _ assms(3,4)] interned(2) [OF _ assms(3,3)]
    by (simp add: node_wrapper_eq_def std_hash_def)
qed

definition sample_views :: "(nat, unit) node_view list" where
  "sample_views = [IRIOf \<lparr>iri_identifier = ''a''\<rparr>, VariableOf \<lparr>variable_view_name = ''a'', variable_view_anonymous = False\<rparr>,
     IRIOf \<lparr>iri_identifier = ''a''\<rparr>]"

definition sample_raw :: "nat handle \<Rightarrow> size_t" where
  "sample_raw h = of_nat (handle_id h)"

theorem nodes_interned_witness:
  "let hs = fst (make_all (make_node sample_nodes) sample_views (new_store sample_nodes)) in
   node_wrapper_eq sample_raw (the (hs ! 0)) (the (hs ! 2)) \<and> \<not> node_wrapper_eq sample_raw (the (hs ! 0)) (the (hs ! 1))"
proof -
  define hs where "hs = fst (make_all (make_node sample_nodes) sample_views (new_store sample_nodes))"
  define s' where "s' = snd (make_all (make_node sample_nodes) sample_views (new_store sample_nodes))"
  have run: "make_all (make_node sample_nodes) sample_views (new_store sample_nodes) = (hs, s')"
    by (simp add: hs_def s'_def)
  have "hs = map Some [\<lparr>handle_id = 7, handle_kind = IRIKind\<rparr>, \<lparr>handle_id = 1, handle_kind = VariableKind\<rparr>,
      \<lparr>handle_id = 7, handle_kind = IRIKind\<rparr>]"
    by (simp add: hs_def sample_views_def store_run_defs find_or_make_variable_def variable_ops_def
        make_variable_backend_def variable_view_of_def handle_of_def Let_def)
  then have inj: "inj_on sample_raw (the ` set hs)" by (auto simp: inj_on_def sample_raw_def)
  note interned = nodes_interned [OF new_store_ok [OF sample_nodes_ok] run _ _ inj]
  have "node_wrapper_eq sample_raw (the (hs ! 0)) (the (hs ! 2)) \<and> \<not> node_wrapper_eq sample_raw (the (hs ! 0)) (the (hs ! 1))"
    using interned [of 0 2] interned [of 0 1] by (simp add: sample_views_def sample_nodes_def)
  then show ?thesis unfolding hs_def Let_def .
qed

end
