(* ===== verification/Node_Concurrency.thy ===== *)
theory Node_Concurrency
  imports Node_Store
begin

text \<open>
  \<open>lookup_or_insert_impl\<close> run by several threads on one storage, as a step relation.

  The state has the storage's \<open>std::shared_mutex\<close>: the threads that hold it shared, and the one that holds it
  exclusively. A step is one operation of a thread: taking or releasing the lock, a lookup, each of the two
  insertions, and the reading of \<open>found->second\<close>, which the code does after it has released the lock. A
  thread that needs a lock others hold has no step.

  An iterator is the entry it points to together with the generation of the map it was obtained from;
  inserting into \<open>data2id\<close> starts a new generation, since \<open>sparse_map\<close> invalidates iterators on insertion.
  Reading through an iterator of an older generation is undefined behaviour, an \<open>Undefined\<close> thread.
\<close>

subsection \<open>Threads and steps\<close>

text \<open>Between \<open>Searching\<close> and \<open>NotMatched\<close> a thread holds the lock shared, between \<open>Rechecking\<close> and \<open>Inserted\<close> exclusively.\<close>

datatype ('v, 'i) thread =
    Calling 'v
  | Searching 'v
  | Matched 'v ptr 'i nat
  | NotMatched 'v
  | Missed 'v
  | Rechecking 'v
  | Rematched 'v ptr 'i nat
  | Linking 'v ptr 'i
  | Inserted 'v 'i
  | Holding 'v ptr 'i nat
  | Returned 'v 'i
  | Undefined 'v

record ('b, 'i, 'c, 'v) shared =
  storage :: "('b, 'i) type_storage"
  counter :: 'c
  generation :: nat
  shared_by :: "nat set"
  exclusive_by :: "nat option"
  threads :: "nat \<Rightarrow> ('v, 'i) thread option"

definition set_thread :: "nat \<Rightarrow> ('v, 'i) thread \<Rightarrow> ('b, 'i, 'c, 'v) shared \<Rightarrow> ('b, 'i, 'c, 'v) shared" where
  "set_thread t x s = s\<lparr>threads := (threads s)(t \<mapsto> x)\<rparr>"

text \<open>The two halves of \<open>insert_backend\<close>.\<close>

definition store_data :: "ptr \<Rightarrow> 'b \<Rightarrow> 'i \<Rightarrow> ('b, 'i) type_storage \<Rightarrow> ('b, 'i) type_storage" where
  "store_data mem b i st = st\<lparr>memory := (memory st)(mem \<mapsto> b), data2id := emplace mem i (data2id st)\<rparr>"

definition link_id :: "ptr \<Rightarrow> 'i \<Rightarrow> ('b, 'i) type_storage \<Rightarrow> ('b, 'i) type_storage" where
  "link_id mem i st = st\<lparr>id2data := emplace i mem (id2data st)\<rparr>"

fun thread_step ::
  "('v, 'b) backend_ops \<Rightarrow> (ptr list \<Rightarrow> ptr) \<Rightarrow> ('v \<Rightarrow> 'c \<Rightarrow> 'i \<times> 'c) \<Rightarrow> nat \<Rightarrow> ('v, 'i) thread \<Rightarrow>
   ('b, 'i, 'c, 'v) shared \<Rightarrow> ('b, 'i, 'c, 'v) shared option" where
  "thread_step ops alloc next_id t (Calling v) s =
     (if exclusive_by s = None then Some (set_thread t (Searching v) (s\<lparr>shared_by := insert t (shared_by s)\<rparr>)) else None)"
| "thread_step ops alloc next_id t (Searching v) s =
     Some (set_thread t (case find_data ops (storage s) v of
       Some (p, i) \<Rightarrow> Matched v p i (generation s) | None \<Rightarrow> NotMatched v) s)"
| "thread_step ops alloc next_id t (Matched v p i g) s =
     Some (set_thread t (Holding v p i g) (s\<lparr>shared_by := shared_by s - {t}\<rparr>))"
| "thread_step ops alloc next_id t (NotMatched v) s =
     Some (set_thread t (Missed v) (s\<lparr>shared_by := shared_by s - {t}\<rparr>))"
| "thread_step ops alloc next_id t (Missed v) s =
     (if exclusive_by s = None \<and> shared_by s = {} then Some (set_thread t (Rechecking v) (s\<lparr>exclusive_by := Some t\<rparr>)) else None)"
| "thread_step ops alloc next_id t (Rechecking v) s =
     (case find_data ops (storage s) v of
        Some (p, i) \<Rightarrow> Some (set_thread t (Rematched v p i (generation s)) s)
      | None \<Rightarrow>
          (case next_id v (counter s) of (i, c) \<Rightarrow>
             let mem = alloc (map fst (data2id (storage s)))
             in Some (set_thread t (Linking v mem i)
                  (s\<lparr>storage := store_data mem (construct ops v) i (storage s), counter := c, generation := Suc (generation s)\<rparr>))))"
| "thread_step ops alloc next_id t (Rematched v p i g) s =
     Some (set_thread t (Holding v p i g) (s\<lparr>exclusive_by := None\<rparr>))"
| "thread_step ops alloc next_id t (Linking v mem i) s =
     Some (set_thread t (Inserted v i) (s\<lparr>storage := link_id mem i (storage s)\<rparr>))"
| "thread_step ops alloc next_id t (Inserted v i) s = Some (set_thread t (Returned v i) (s\<lparr>exclusive_by := None\<rparr>))"
| "thread_step ops alloc next_id t (Holding v p i g) s =
     Some (set_thread t (if g = generation s then Returned v i else Undefined v) s)"
| "thread_step ops alloc next_id t (Returned v i) s = None"
| "thread_step ops alloc next_id t (Undefined v) s = None"

inductive step ::
  "('v, 'b) backend_ops \<Rightarrow> (ptr list \<Rightarrow> ptr) \<Rightarrow> ('v \<Rightarrow> 'c \<Rightarrow> 'i \<times> 'c) \<Rightarrow>
   ('b, 'i, 'c, 'v) shared \<Rightarrow> ('b, 'i, 'c, 'v) shared \<Rightarrow> bool"
  for ops alloc next_id where
  thread: "threads s t = Some x \<Longrightarrow> thread_step ops alloc next_id t x s = Some s' \<Longrightarrow> step ops alloc next_id s s'"

inductive_cases stepE: "step ops alloc next_id s s'"

inductive reachable ::
  "('v, 'b) backend_ops \<Rightarrow> (ptr list \<Rightarrow> ptr) \<Rightarrow> ('v \<Rightarrow> 'c \<Rightarrow> 'i \<times> 'c) \<Rightarrow>
   ('b, 'i, 'c, 'v) shared \<Rightarrow> ('b, 'i, 'c, 'v) shared \<Rightarrow> bool"
  for ops alloc next_id s0 where
  start: "reachable ops alloc next_id s0 s0"
| step: "reachable ops alloc next_id s0 s \<Longrightarrow> step ops alloc next_id s s' \<Longrightarrow> reachable ops alloc next_id s0 s'"

text \<open>A finite number of threads, each about to look up its view, on a storage nobody has locked.\<close>

definition initial :: "('b, 'i) type_storage \<Rightarrow> 'c \<Rightarrow> 'v list \<Rightarrow> ('b, 'i, 'c, 'v) shared" where
  "initial st c vs = \<lparr>storage = st, counter = c, generation = 0, shared_by = {}, exclusive_by = None,
     threads = (\<lambda>t. if t < length vs then Some (Calling (vs ! t)) else None)\<rparr>"

text \<open>A schedule names the thread that makes the next step.\<close>

fun run_schedule ::
  "('v, 'b) backend_ops \<Rightarrow> (ptr list \<Rightarrow> ptr) \<Rightarrow> ('v \<Rightarrow> 'c \<Rightarrow> 'i \<times> 'c) \<Rightarrow> nat list \<Rightarrow>
   ('b, 'i, 'c, 'v) shared \<Rightarrow> ('b, 'i, 'c, 'v) shared option" where
  "run_schedule ops alloc next_id [] s = Some s"
| "run_schedule ops alloc next_id (t # ts) s =
     Option.bind (Option.bind (threads s t) (\<lambda>x. thread_step ops alloc next_id t x s)) (run_schedule ops alloc next_id ts)"

lemma schedule_reaches:
  "run_schedule ops alloc next_id ts s = Some s' \<Longrightarrow> reachable ops alloc next_id s0 s \<Longrightarrow> reachable ops alloc next_id s0 s'"
proof (induction ts arbitrary: s)
  case (Cons t ts)
  then obtain x u where "threads s t = Some x" "thread_step ops alloc next_id t x s = Some u"
    "run_schedule ops alloc next_id ts u = Some s'"
    by (auto simp: bind_eq_Some_conv)
  with Cons show ?case by (blast intro: step.thread reachable.step)
qed simp

lemma set_thread_simps [simp]:
  "storage (set_thread t x s) = storage s" "counter (set_thread t x s) = counter s"
  "generation (set_thread t x s) = generation s" "shared_by (set_thread t x s) = shared_by s"
  "exclusive_by (set_thread t x s) = exclusive_by s" "threads (set_thread t x s) = (threads s)(t \<mapsto> x)"
  by (simp_all add: set_thread_def)

subsection \<open>The lock\<close>

fun reading :: "('v, 'i) thread option \<Rightarrow> bool" where
  "reading (Some (Searching v)) = True"
| "reading (Some (Matched v p i g)) = True"
| "reading (Some (NotMatched v)) = True"
| "reading _ = False"

fun writing :: "('v, 'i) thread option \<Rightarrow> bool" where
  "writing (Some (Rechecking v)) = True"
| "writing (Some (Rematched v p i g)) = True"
| "writing (Some (Linking v p i)) = True"
| "writing (Some (Inserted v i)) = True"
| "writing _ = False"

text \<open>The lock is held by the threads that are in a critical section, and one writer excludes everybody else.\<close>

definition lock_ok :: "('b, 'i, 'c, 'v) shared \<Rightarrow> bool" where
  "lock_ok s \<longleftrightarrow>
     (\<forall>t. (t \<in> shared_by s \<longleftrightarrow> reading (threads s t)) \<and> (exclusive_by s = Some t \<longleftrightarrow> writing (threads s t))) \<and>
     (exclusive_by s = None \<or> shared_by s = {})"

lemma lock_ok_initial: "lock_ok (initial st c vs)"
  by (simp add: lock_ok_def initial_def)

lemma lock_ok_thread:
  assumes "threads s t = Some x" and "thread_step ops alloc next_id t x s = Some s'" and "lock_ok s"
  shows "lock_ok s'"
proof -
  have lock: "reading (threads s u) = (u \<in> shared_by s)" "writing (threads s u) = (exclusive_by s = Some u)" for u
    using assms(3) by (simp_all add: lock_ok_def)
  have excl: "exclusive_by s = None \<or> shared_by s = {}" using assms(3) by (simp add: lock_ok_def)
  show ?thesis
    using assms(1,2) lock [of t] excl
    by (cases x) (auto simp: lock_ok_def lock Let_def split: if_splits option.splits prod.splits)
qed

lemma lock_ok_step: "step ops alloc next_id s s' \<Longrightarrow> lock_ok s \<Longrightarrow> lock_ok s'"
  by (erule stepE) (rule lock_ok_thread)

subsection \<open>The invariant of the interleaving\<close>

text \<open>The iterator a thread has, and the id a thread has inserted or returns.\<close>

fun match_of :: "('v, 'i) thread \<Rightarrow> ('v \<times> ptr \<times> 'i) option" where
  "match_of (Matched v p i g) = Some (v, p, i)"
| "match_of (Rematched v p i g) = Some (v, p, i)"
| "match_of (Holding v p i g) = Some (v, p, i)"
| "match_of _ = None"

fun id_of :: "('v, 'i) thread \<Rightarrow> ('v \<times> 'i) option" where
  "id_of (Linking v p i) = Some (v, i)"
| "id_of (Inserted v i) = Some (v, i)"
| "id_of (Returned v i) = Some (v, i)"
| "id_of _ = None"

definition thread_ok :: "('v, 'b) backend_ops \<Rightarrow> ('b, 'i) type_storage \<Rightarrow> ('v, 'i) thread \<Rightarrow> bool" where
  "thread_ok ops st x \<longleftrightarrow>
     (\<forall>v p i. match_of x = Some (v, p, i) \<longrightarrow> find_data ops st v = Some (p, i)) \<and>
     (\<forall>v i. id_of x = Some (v, i) \<longrightarrow> faithful ops v \<longrightarrow> map_option snd (find_data ops st v) = Some i)"

text \<open>Threads that may still take a new id.\<close>

fun may_insert :: "('v, 'i) thread option \<Rightarrow> bool" where
  "may_insert (Some (Calling v)) = True"
| "may_insert (Some (Searching v)) = True"
| "may_insert (Some (NotMatched v)) = True"
| "may_insert (Some (Missed v)) = True"
| "may_insert (Some (Rechecking v)) = True"
| "may_insert _ = False"

definition pending :: "('b, 'i, 'c, 'v) shared \<Rightarrow> nat set" where
  "pending s = {t. may_insert (threads s t)}"

text \<open>The storage as it will be when the writer, if it is between its two insertions, has made the second.\<close>

definition completed :: "('b, 'i, 'c, 'v) shared \<Rightarrow> ('b, 'i) type_storage" where
  "completed s =
     (case Option.bind (exclusive_by s) (threads s) of
        Some (Linking v mem i) \<Rightarrow> link_id mem i (storage s)
      | _ \<Rightarrow> storage s)"

definition shared_ok ::
  "('v, 'b) backend_ops \<Rightarrow> (ptr list \<Rightarrow> ptr) \<Rightarrow> ('v \<Rightarrow> 'c \<Rightarrow> 'i \<times> 'c) \<Rightarrow> ('b, 'i, 'c, 'v) shared \<Rightarrow> bool" where
  "shared_ok ops alloc next_id s \<longleftrightarrow>
     lock_ok s \<and> finite (pending s) \<and> typed_ok ops alloc next_id (card (pending s)) (completed s, counter s) \<and>
     (\<forall>t x. threads s t = Some x \<longrightarrow> thread_ok ops (storage s) x)"

lemma find_link [simp]: "find_data ops (link_id mem i st) = find_data ops st"
  by (simp add: find_data_def link_id_def fun_eq_iff)

lemma data2id_link [simp]: "data2id (link_id mem i st) = data2id st"
  by (simp add: link_id_def)

lemma find_completed [simp]: "find_data ops (completed s) = find_data ops (storage s)"
  by (simp add: completed_def split: option.split thread.split)

lemma insert_backend_halves:
  "insert_backend alloc b i st =
     (let mem = alloc (map fst (data2id st)) in link_id mem i (store_data mem b i st))"
  by (simp add: insert_backend_def link_id_def store_data_def Let_def)

lemma typed_ok_less: "typed_ok ops alloc next_id n s \<Longrightarrow> m \<le> n \<Longrightarrow> typed_ok ops alloc next_id m s"
  by (induction n) (auto simp: le_Suc_eq intro: typed_ok_mono)

text \<open>A step that inserts nothing: what was found stays found, and no thread becomes pending.\<close>

lemma shared_ok_quiet:
  assumes ok: "shared_ok ops alloc next_id s" and lock: "lock_ok s'" and threads: "threads s' = (threads s)(t \<mapsto> y)"
    and same: "find_data ops (storage s') = find_data ops (storage s)" "completed s' = completed s" "counter s' = counter s"
    and new: "thread_ok ops (storage s) y" "may_insert (Some y) \<longrightarrow> may_insert (threads s t)"
  shows "shared_ok ops alloc next_id s'"
proof -
  have sub: "pending s' \<subseteq> pending s"
    using new(2) by (auto simp: pending_def threads split: if_splits)
  then have "finite (pending s')" "card (pending s') \<le> card (pending s)"
    using ok by (auto simp: shared_ok_def intro: finite_subset card_mono)
  moreover have "thread_ok ops (storage s') x" if "threads s' u = Some x" for u x
    using that ok new(1) by (auto simp: threads thread_ok_def same shared_ok_def split: if_splits)
  ultimately show ?thesis
    using ok lock by (auto simp: shared_ok_def same intro: typed_ok_less)
qed

lemma shared_ok_insert:
  assumes ok: "shared_ok ops alloc next_id s" and t: "threads s t = Some (Rechecking v)"
    and miss: "find_data ops (storage s) v = None" and run: "thread_step ops alloc next_id t (Rechecking v) s = Some s'"
  shows "shared_ok ops alloc next_id s'"
proof -
  obtain i c where nxt: "next_id v (counter s) = (i, c)" by (cases "next_id v (counter s)")
  let ?mem = "alloc (map fst (data2id (storage s)))"
  let ?st = "insert_backend alloc (construct ops v) i (storage s)"
  have "s' = set_thread t (Linking v ?mem i)
      (s\<lparr>storage := store_data ?mem (construct ops v) i (storage s), counter := c, generation := Suc (generation s)\<rparr>)"
    using run by (simp add: miss nxt Let_def)
  then have s': "threads s' = (threads s)(t \<mapsto> Linking v ?mem i)" "counter s' = c" "exclusive_by s' = exclusive_by s"
    "storage s' = store_data ?mem (construct ops v) i (storage s)"
    by simp_all
  have lock: "lock_ok s" using ok by (simp add: shared_ok_def)
  have "exclusive_by s = Some t" using lock t unfolding lock_ok_def by (metis writing.simps(1))
  then have compl: "completed s = storage s" "completed s' = ?st"
    using t by (simp_all add: completed_def s' insert_backend_halves Let_def)
  have find: "find_data ops (storage s') = find_data ops ?st"
    by (simp add: s' insert_backend_halves Let_def)
  have fin: "finite (pending s)" using ok by (simp add: shared_ok_def)
  have "pending s' = pending s - {t}" by (auto simp: pending_def s' split: if_splits)
  moreover have "t \<in> pending s" by (simp add: pending_def t)
  ultimately have card: "card (pending s) = Suc (card (pending s'))" "finite (pending s')"
    using card_Suc_Diff1 [OF fin, of t] fin by simp_all
  have typed: "typed_ok ops alloc next_id (Suc (card (pending s'))) (storage s, counter s)"
    using ok by (simp add: shared_ok_def compl card(1))
  have make: "lookup_or_insert_impl ops alloc next_id True v (storage s, counter s) = (Some i, ?st, c)"
    using miss nxt lookup_miss [of ops "(storage s, counter s)" v alloc next_id] by (simp add: typed_find_def)
  have keep: "find_data ops ?st w = Some x" if "find_data ops (storage s) w = Some x" for w x
  proof -
    have "storage_ok (storage s)" "alloc_ok alloc" "fst (next_id v (counter s)) \<notin> snd ` set (data2id (storage s))"
      using typed by (simp_all add: typed_ok_def)
    from insert_backend_effect(3) [OF this, where ops = ops and v = w] that nxt show ?thesis by simp
  qed
  have "thread_ok ops (storage s') x" if x: "threads s' u = Some x" for u x
  proof (cases "u = t")
    case True
    then have "x = Linking v ?mem i" using x by (simp add: s')
    then show ?thesis
      using typed_make(3) [OF typed, of v] make by (auto simp: thread_ok_def find typed_find_def)
  next
    case False
    then have "thread_ok ops (storage s) x" using x ok by (auto simp: s' shared_ok_def)
    then show ?thesis using keep by (fastforce simp: thread_ok_def find)
  qed
  moreover have "typed_ok ops alloc next_id (card (pending s')) (completed s', counter s')"
    using typed_make(1) [OF typed, of v] make by (simp add: compl s')
  ultimately show ?thesis
    using card(2) lock_ok_thread [OF t run lock] by (simp add: shared_ok_def)
qed

lemma completed_step:
  assumes t: "threads s t = Some x" and run: "thread_step ops alloc next_id t x s = Some s'" and lock: "lock_ok s"
    and no: "\<not> (\<exists>v. x = Rechecking v \<and> find_data ops (storage s) v = None)"
  shows "completed s' = completed s"
proof -
  have w: "writing (threads s u) = (exclusive_by s = Some u)" for u using lock by (simp add: lock_ok_def)
  show ?thesis
  proof (cases "exclusive_by s")
    case None
    then have "\<not> writing (Some x)" using w [of t] t by simp
    then show ?thesis
      using run t None
      by (cases x) (auto simp: completed_def Let_def split: if_splits option.splits prod.splits)
  next
    case (Some u)
    show ?thesis
    proof (cases "u = t")
      case True
      then show ?thesis
        using run t w [of t] no Some
        by (cases x) (auto simp: completed_def Let_def split: if_splits option.splits prod.splits)
    next
      case False
      then have "\<not> writing (Some x)" using w [of t] t Some by simp
      then have "storage s' = storage s \<and> exclusive_by s' = Some u \<and> threads s' u = threads s u"
        using run False Some by (cases x) (auto split: if_splits)
      then show ?thesis by (simp add: completed_def Some split: option.split thread.split)
    qed
  qed
qed

lemma step_ok:
  assumes "step ops alloc next_id s s'" and ok: "shared_ok ops alloc next_id s"
  shows "shared_ok ops alloc next_id s'"
proof -
  obtain t x where thread: "threads s t = Some x" "thread_step ops alloc next_id t x s = Some s'"
    using assms(1) by (rule stepE)
  show ?thesis
  proof (cases "\<exists>v. x = Rechecking v \<and> find_data ops (storage s) v = None")
    case True
    then show ?thesis using shared_ok_insert [OF ok] thread by blast
  next
    case False
    have lock: "lock_ok s" using ok by (simp add: shared_ok_def)
    have x: "thread_ok ops (storage s) x" using ok thread(1) by (simp add: shared_ok_def)
    obtain y where "threads s' = (threads s)(t \<mapsto> y)" "find_data ops (storage s') = find_data ops (storage s)"
      "counter s' = counter s" "thread_ok ops (storage s) y" "may_insert (Some y) \<longrightarrow> may_insert (Some x)"
      using thread(2) x False
      by (cases x) (auto simp: thread_ok_def Let_def split: if_splits option.splits prod.splits)
    then show ?thesis
      using shared_ok_quiet [OF ok lock_ok_thread [OF thread lock]] completed_step [OF thread lock False] thread(1) by simp
  qed
qed

lemma reachable_ok:
  "reachable ops alloc next_id s0 s \<Longrightarrow> shared_ok ops alloc next_id s0 \<Longrightarrow> shared_ok ops alloc next_id s"
  by (induction rule: reachable.induct) (auto intro: step_ok)

lemma initial_ok:
  assumes "typed_ok ops alloc next_id (length vs) (st, c)"
  shows "shared_ok ops alloc next_id (initial st c vs)"
proof -
  have "pending (initial st c vs) = {..<length vs}"
    by (auto simp: pending_def initial_def split: if_splits)
  moreover have "completed (initial st c vs) = st" by (simp add: completed_def initial_def)
  ultimately show ?thesis
    using assms lock_ok_initial [of st c vs] by (auto simp: shared_ok_def thread_ok_def initial_def split: if_splits)
qed

text \<open>
  C7. Any number of threads start on a consistent storage, with at least as many fresh ids left and an allocator that
  returns fresh memory (\<open>typed_ok\<close>). Under any interleaving, the storage is consistent whenever no thread holds the lock
  exclusively; and of any two threads that have returned ids for views that equal the backend made of them
  (\<open>faithful\<close>, which scoped blank nodes are not), these are the same id exactly if the views are equal. The
  second lookup under the exclusive lock makes interning atomic.
\<close>

theorem concurrent_interning:
  assumes "typed_ok ops alloc next_id (length vs) (st, c)"
    and "reachable ops alloc next_id (initial st c vs) s"
  shows "(exclusive_by s = None \<longrightarrow> storage_ok (storage s)) \<and>
         (\<forall>t1 t2 v1 v2 i1 i2. threads s t1 = Some (Returned v1 i1) \<and> threads s t2 = Some (Returned v2 i2) \<and>
            faithful ops v1 \<and> faithful ops v2 \<longrightarrow> (i1 = i2 \<longleftrightarrow> view_eq ops v1 v2))"
proof (intro conjI allI impI)
  have ok: "shared_ok ops alloc next_id s"
    by (rule reachable_ok [OF assms(2) initial_ok [OF assms(1)]])
  then have typed: "typed_ok ops alloc next_id (card (pending s)) (completed s, counter s)"
    and threads: "\<And>t x. threads s t = Some x \<Longrightarrow> thread_ok ops (storage s) x"
    by (simp_all add: shared_ok_def)
  show "storage_ok (storage s)" if "exclusive_by s = None"
    using typed that by (simp add: typed_ok_def completed_def)
  fix t1 t2 v1 v2 i1 i2
  assume ret: "threads s t1 = Some (Returned v1 i1) \<and> threads s t2 = Some (Returned v2 i2) \<and> faithful ops v1 \<and> faithful ops v2"
  then have "typed_find ops (completed s, counter s) v1 = Some i1" "typed_find ops (completed s, counter s) v2 = Some i2"
    using threads [of t1] threads [of t2] by (auto simp: thread_ok_def typed_find_def)
  then show "i1 = i2 \<longleftrightarrow> view_eq ops v1 v2"
    using typed_found(1) [of ops alloc next_id _ "(completed s, counter s)" v1 i1 v2] typed
    by (auto simp: typed_ok_def)
qed

text \<open>The ids are distinct numbers, the views numbers that are their own backends.\<close>

definition number_ops :: "(nat, nat) backend_ops" where
  "number_ops = \<lparr>construct = id, as_view = id, stored_hash = (\<lambda>_. 0), view_hash = (\<lambda>_. 0), view_eq = (=)\<rparr>"

definition number_alloc :: "ptr list \<Rightarrow> ptr" where
  "number_alloc ps = Suc (fold max ps 0)"

definition number_next :: "nat \<Rightarrow> nat \<Rightarrow> nat \<times> nat" where
  "number_next v c = (c, Suc c)"

lemma number_fresh: "(\<forall>u \<in> used. u < c) \<Longrightarrow> fresh_ids number_next n c used"
  by (induction n arbitrary: c used) (auto simp: number_next_def less_Suc_eq)

lemma number_alloc_ok: "alloc_ok number_alloc"
proof -
  have "a \<le> fold max xs a \<and> (\<forall>x \<in> set xs. x \<le> fold max xs a)" for a :: nat and xs
    by (induction xs arbitrary: a) (auto intro: order_trans [OF max.cobounded1] order_trans [OF max.cobounded2])
  from this [where a = 0] show ?thesis by (fastforce simp: alloc_ok_def number_alloc_def)
qed

lemma number_ok: "typed_ok number_ops number_alloc number_next n (new_storage, 0)"
  using number_fresh [of "{}" 0 n] number_alloc_ok
  by (simp add: typed_ok_def view_laws_def number_ops_def identity_equivp)


lemmas number_defs = initial_def number_ops_def number_next_def number_alloc_def set_thread_def find_data_def
  matches_def store_data_def link_id_def insert_backend_def emplace_def new_storage_def fun_upd_def

text \<open>Two threads that intern the same view: both miss it under the shared lock, the second finds it in the end.\<close>

theorem concurrent_interning_witness:
  "\<exists>s i. reachable number_ops number_alloc number_next (initial new_storage 0 [3, 3]) s \<and> storage_ok (storage s) \<and>
         threads s 0 = Some (Returned 3 i) \<and> threads s 1 = Some (Returned 3 i)"
proof -
  let ?s0 = "initial new_storage 0 [3, 3] :: (nat, nat, nat, nat) shared"
  obtain s where run: "run_schedule number_ops number_alloc number_next [0, 1, 1, 0, 0, 1, 0, 0, 0, 0, 1, 1, 1, 1] ?s0 = Some s"
    and t: "threads s 0 = Some (Returned 3 0)" "threads s 1 = Some (Returned 3 0)" "exclusive_by s = None"
    by (simp add: number_defs insert_Diff_if Let_def)
  have r: "reachable number_ops number_alloc number_next ?s0 s"
    by (rule schedule_reaches [OF run reachable.start])
  have "typed_ok number_ops number_alloc number_next (length [3, 3 :: nat]) (new_storage, 0)" by (rule number_ok)
  from concurrent_interning [OF this r] r t show ?thesis by blast
qed

text \<open>
  C36. The iterator is read after the lock is released: a thread that has found its view can be overtaken
  by a thread that inserts another one, and then reads through an invalidated iterator.
\<close>

theorem stale_iterator_reachable:
  assumes "find_data ops st v = Some (p, i)" and "find_data ops st w = None"
  shows "\<exists>s. reachable ops alloc next_id (initial st c [v, w]) s \<and> threads s 0 = Some (Undefined v)"
proof -
  obtain j d where "next_id w c = (j, d)" by (cases "next_id w c")
  then obtain s where run: "run_schedule ops alloc next_id [0, 0, 0, 1, 1, 1, 1, 1, 1, 1, 0] (initial st c [v, w]) = Some s"
    and "threads s 0 = Some (Undefined v)"
    using assms by (simp add: initial_def set_thread_def fun_upd_def Let_def)
  with schedule_reaches [OF run reachable.start] show ?thesis by blast
qed

theorem stale_iterator_reachable_witness:
  "\<exists>s. reachable number_ops number_alloc number_next
         (initial (insert_backend number_alloc 3 0 new_storage) 1 [3, 4]) s \<and> threads s 0 = Some (Undefined 3)"
  by (rule stale_iterator_reachable [where p = 1 and i = 0]) (simp_all add: number_defs)

subsection \<open>Progress and termination\<close>

fun steps_to_go :: "('v, 'i) thread option \<Rightarrow> nat" where
  "steps_to_go (Some (Calling v)) = 7"
| "steps_to_go (Some (Searching v)) = 6"
| "steps_to_go (Some (NotMatched v)) = 5"
| "steps_to_go (Some (Missed v)) = 4"
| "steps_to_go (Some (Rechecking v)) = 3"
| "steps_to_go (Some (Matched v p i g)) = 2"
| "steps_to_go (Some (Rematched v p i g)) = 2"
| "steps_to_go (Some (Linking v p i)) = 2"
| "steps_to_go (Some (Inserted v i)) = 1"
| "steps_to_go (Some (Holding v p i g)) = 1"
| "steps_to_go _ = 0"

definition total_to_go :: "nat \<Rightarrow> ('b, 'i, 'c, 'v) shared \<Rightarrow> nat" where
  "total_to_go n s = (\<Sum>t < n. steps_to_go (threads s t))"

text \<open>The view a thread works on; \<open>threads_for vs\<close> says there is one thread for every view of \<open>vs\<close>.\<close>

fun view_of_thread :: "('v, 'i) thread \<Rightarrow> 'v" where
  "view_of_thread (Calling v) = v"
| "view_of_thread (Searching v) = v"
| "view_of_thread (Matched v p i g) = v"
| "view_of_thread (NotMatched v) = v"
| "view_of_thread (Missed v) = v"
| "view_of_thread (Rechecking v) = v"
| "view_of_thread (Rematched v p i g) = v"
| "view_of_thread (Linking v p i) = v"
| "view_of_thread (Inserted v i) = v"
| "view_of_thread (Holding v p i g) = v"
| "view_of_thread (Returned v i) = v"
| "view_of_thread (Undefined v) = v"

definition threads_for :: "'v list \<Rightarrow> ('b, 'i, 'c, 'v) shared \<Rightarrow> bool" where
  "threads_for vs s \<longleftrightarrow> (\<forall>t. map_option view_of_thread (threads s t) = (if t < length vs then Some (vs ! t) else None))"

lemma thread_step_effect:
  assumes "thread_step ops alloc next_id t x s = Some s'"
  obtains y where "threads s' = (threads s)(t \<mapsto> y)" and "view_of_thread y = view_of_thread x"
    and "steps_to_go (Some y) < steps_to_go (Some x)"
  using assms by (cases x) (auto simp: Let_def split: if_splits option.splits prod.splits)

text \<open>Only a thread that waits for the lock, or has ended, has no step; and if none has one, nobody holds the lock.\<close>

lemma thread_step_blocked:
  "thread_step ops alloc next_id t x s = None \<longleftrightarrow>
     (\<exists>v. x = Calling v \<and> exclusive_by s \<noteq> None) \<or> (\<exists>v. x = Missed v \<and> (exclusive_by s \<noteq> None \<or> shared_by s \<noteq> {})) \<or>
     (\<exists>v i. x = Returned v i) \<or> (\<exists>v. x = Undefined v)"
  by (cases x) (auto simp: Let_def split: option.split prod.split)

lemma stuck_unlocked:
  assumes "lock_ok s" and "\<not> (\<exists>s'. step ops alloc next_id s s')"
  shows "exclusive_by s = None" and "shared_by s = {}"
proof -
  have free: "\<not> writing (threads s t) \<and> \<not> reading (threads s t)" for t
  proof (cases "threads s t")
    case (Some x)
    then have "thread_step ops alloc next_id t x s = None"
      using assms(2) step.thread [of s t x ops alloc next_id] by fastforce
    then show ?thesis unfolding thread_step_blocked using Some by auto
  qed simp
  then have "exclusive_by s \<noteq> Some t" "t \<notin> shared_by s" for t
    using assms(1) by (auto simp: lock_ok_def)
  then show "exclusive_by s = None" "shared_by s = {}" by auto
qed

lemma stuck_ended:
  assumes "lock_ok s" and "\<not> (\<exists>s'. step ops alloc next_id s s')" and "threads s t = Some x"
  shows "(\<exists>v i. x = Returned v i) \<or> (\<exists>v. x = Undefined v)"
proof -
  have "thread_step ops alloc next_id t x s = None"
    using assms(2,3) step.thread [of s t x ops alloc next_id] by fastforce
  then show ?thesis unfolding thread_step_blocked stuck_unlocked [OF assms(1,2)] by simp
qed

lemma step_to_go:
  assumes "step ops alloc next_id s s'" and "threads_for vs s"
  shows "threads_for vs s' \<and> total_to_go (length vs) s' < total_to_go (length vs) s"
proof -
  obtain t x where t: "threads s t = Some x" "thread_step ops alloc next_id t x s = Some s'"
    using assms(1) by (rule stepE)
  obtain y where y: "threads s' = (threads s)(t \<mapsto> y)" "view_of_thread y = view_of_thread x"
    "steps_to_go (Some y) < steps_to_go (Some x)"
    by (rule thread_step_effect [OF t(2)])
  have "t < length vs" using assms(2) t(1) by (auto simp: threads_for_def split: if_splits)
  then have "total_to_go (length vs) s' < total_to_go (length vs) s"
    unfolding total_to_go_def using t(1) y by (intro sum_strict_mono_ex1) auto
  moreover have "map_option view_of_thread (threads s' u) = map_option view_of_thread (threads s u)" for u
    using t(1) y by simp
  then have "threads_for vs s'" using assms(2) by (simp add: threads_for_def)
  ultimately show ?thesis by blast
qed

lemma run_to_go:
  "(step ops alloc next_id ^^ n) s s' \<Longrightarrow> threads_for vs s \<and> lock_ok s \<Longrightarrow>
   (threads_for vs s' \<and> lock_ok s') \<and> n + total_to_go (length vs) s' \<le> total_to_go (length vs) s"
proof (induction n arbitrary: s')
  case 0
  then show ?case by simp
next
  case (Suc n)
  from Suc.prems(1) obtain u where "(step ops alloc next_id ^^ n) s u" "step ops alloc next_id u s'" by auto
  with Suc.IH [of u] Suc.prems(2) step_to_go [of ops alloc next_id u s' vs] lock_ok_step [of ops alloc next_id u s']
  show ?case by auto
qed

text \<open>
  C8. Interning always ends, without deadlock: every execution of \<open>n\<close> threads makes at most \<open>7 * n\<close> steps, however
  they compete for the lock, and when no step is possible any more, then not because threads wait for the lock:
  it is free, and each thread has returned an id for its view, or has read through an invalidated iterator.
\<close>

theorem interning_terminates:
  assumes "(step ops alloc next_id ^^ n) (initial st c vs) s"
  shows "n \<le> 7 * length vs \<and>
         ((\<exists>s'. step ops alloc next_id s s') \<or>
          exclusive_by s = None \<and> shared_by s = {} \<and>
          list_all (\<lambda>(t, v). \<exists>i. threads s t \<in> {Some (Returned v i), Some (Undefined v)}) (enumerate 0 vs))"
proof -
  have "threads_for vs (initial st c vs) \<and> lock_ok (initial st c vs)" "total_to_go (length vs) (initial st c vs) = 7 * length vs"
    using lock_ok_initial by (simp_all add: threads_for_def initial_def total_to_go_def)
  with run_to_go [OF assms, of vs] have run: "threads_for vs s" "lock_ok s" "n \<le> 7 * length vs" by auto
  show ?thesis
  proof (cases "\<exists>s'. step ops alloc next_id s s'")
    case True
    with run(3) show ?thesis by simp
  next
    case False
    have "\<exists>i. threads s t \<in> {Some (Returned (vs ! t) i), Some (Undefined (vs ! t))}" if "t < length vs" for t
    proof -
      have "map_option view_of_thread (threads s t) = Some (vs ! t)" using run(1) that by (simp add: threads_for_def)
      then obtain x where x: "threads s t = Some x" "view_of_thread x = vs ! t" by auto
      with stuck_ended [OF run(2) False x(1)] show ?thesis by auto
    qed
    with run(3) stuck_unlocked [OF run(2) False] show ?thesis by (auto simp: list_all_length enumerate_eq_zip)
  qed
qed

theorem interning_terminates_witness:
  "\<not> (\<exists>s. (step number_ops number_alloc number_next ^^ 15) (initial new_storage 0 [3, 4]) s)"
  using interning_terminates [of 15 number_ops number_alloc number_next new_storage 0 "[3, 4]"] by fastforce

end
