(* ===== verification/Sparql_Syntax.thy ===== *)
theory Sparql_Syntax
  imports Tentris_Prelude
begin

text \<open>
  The data the SPARQL translation works on.

  \<^item> RDF nodes and variables, as the code builds and inspects them. Literals are values of the
    rdf4cpp library; their type \<open>'l\<close> and the factory functions are parameters.
  \<^item> The parse-tree contexts of the generated ANTLR parser: for every context class one datatype
    whose selectors are the accessors the visitors call. An accessor that may return a null pointer
    is an \<open>option\<close>, one that returns a vector is a list; accessors the code never calls are absent.
    A child that the grammar makes mandatory and the code does not test is always there.
  \<^item> \<open>SPARQLQuery\<close> (\<open>libs/sparql2tensor/src/dice/sparql2tensor/SPARQLQuery.hpp\<close>) and
    \<open>get_slice_keys\<close>.
  \<^item> The library objects the translation fills: the prefix factory and the operand dependency graph.
    Neither is part of the repository, so each is represented by the sequence of calls made on it, and
    what a call returns is a parameter that may depend on that whole sequence.
\<close>

subsection \<open>RDF nodes\<close>

datatype variable = Variable (var_name: string) (is_anonymous: bool)

datatype 'l node =
    NullNode
  | IRI string
  | BNode string
  | Lit 'l
  | VarNode variable

fun is_variable :: "'l node \<Rightarrow> bool" where
  "is_variable (VarNode v) = True"
| "is_variable _ = False"

type_synonym 'l triple_pattern = "'l node \<times> 'l node \<times> 'l node"

fun nodes_of :: "'l triple_pattern \<Rightarrow> 'l node list" where
  "nodes_of (s, p, t) = [s, p, t]"

fun node_vars :: "'l node list \<Rightarrow> variable list" where
  "node_vars [] = []"
| "node_vars (VarNode v # ns) = v # node_vars ns"
| "node_vars (_ # ns) = node_vars ns"

definition pattern_vars :: "'l triple_pattern \<Rightarrow> variable list" where
  "pattern_vars tp = node_vars (nodes_of tp)"

lemma node_vars_append [simp]: "node_vars (xs @ ys) = node_vars xs @ node_vars ys"
  by (induction xs rule: node_vars.induct) auto

lemma set_node_vars: "set (node_vars ns) = {v. VarNode v \<in> set ns}"
  by (induction ns rule: node_vars.induct) auto

subsection \<open>Parse-tree contexts: terms and triples\<close>

datatype iri_ctx = IriCtx (IRIREF: "string option") (prefixedName: "string option option")

datatype var_ctx = VarCtx (var_text: string)

datatype blank_node_ctx = BlankNodeCtx (BLANK_NODE_LABEL: "string option")

datatype string_ctx = StringCtx (string_text: string) (STRING_LITERAL1: bool) (STRING_LITERAL2: bool)

datatype rdf_literal_ctx =
  RdfLiteralCtx (literal_string: string_ctx) (literal_iri: "iri_ctx option") (LANGTAG: "string option")

datatype number_ctx = NumberCtx (has_decimal: bool) (has_double: bool)

datatype numeric_literal_ctx =
  NumericLiteralCtx (numeric_text: string) (numericLiteralPositive: "number_ctx option")
    (numericLiteralNegative: "number_ctx option") (numericLiteralUnsigned: "number_ctx option")

datatype graph_term_ctx =
  GraphTermCtx (term_iri: "iri_ctx option") (term_blankNode: "blank_node_ctx option")
    (term_rdfLiteral: "rdf_literal_ctx option") (term_booleanLiteral: "bool option")
    (term_numericLiteral: "numeric_literal_ctx option")

datatype var_or_term_ctx =
  VarOrTermCtx (vt_var: "var_ctx option") (vt_graphTerm: "graph_term_ctx option")

datatype path_ctx = PathCtx (pathAlternative: "path_elt_or_inverse_ctx list list option")
  and path_elt_or_inverse_ctx = PathEltOrInverseCtx (INVERSE: bool) (pathElt: path_primary_ctx)
  and path_primary_ctx =
    PathPrimaryCtx (primary_iri: "iri_ctx option") (primary_A: bool) (primary_NEGATION: bool)
      (primary_path: "path_ctx option")

datatype verb_ctx = VerbCtx (verbPath: "path_ctx option") (verbSimple: "var_ctx option")

text \<open>
  An \<open>ObjectListPathContext\<close> or \<open>ObjectListContext\<close> is the list of its objects, each given by the
  \<open>varOrTerm()\<close> of its graph node, which is null for the constructs without one.
\<close>

type_synonym object_list_ctx = "var_or_term_ctx option list"

datatype property_list_ctx =
  PropertyListPathNotEmptyCtx (first_verb: verb_ctx) (objectListPath: "object_list_ctx option")
    (propertyListPathNotEmptyList: "(verb_ctx \<times> object_list_ctx option) list")

datatype triples_same_subject_path_ctx =
  TriplesSameSubjectPathCtx (subject_varOrTerm: "var_or_term_ctx option")
    (propertyListPathNotEmpty: "property_list_ctx option")
    (triplesNodePath: bool) (propertyListPath: bool)

type_synonym triples_block_ctx = "triples_same_subject_path_ctx list"

subsection \<open>Parse-tree contexts: graph patterns and queries\<close>

datatype group_graph_pattern_ctx =
    GroupGraphPatternCtx (subSelect: bool) (groupGraphPatternSub: "group_graph_pattern_sub_ctx option")
  and group_graph_pattern_sub_ctx =
    GroupGraphPatternSubCtx (triplesBlock: "triples_block_ctx option")
      (groupGraphPatternSubList: "group_graph_pattern_sub_list_ctx list")
  and group_graph_pattern_sub_list_ctx =
    GroupGraphPatternSubListCtx (graphPatternNotTriples: "graph_pattern_not_triples_ctx option")
      (list_triplesBlock: "triples_block_ctx option")
  and graph_pattern_not_triples_ctx =
    GraphPatternNotTriplesCtx (groupOrUnionGraphPattern: "group_graph_pattern_ctx list option")
      (optionalGraphPattern: "group_graph_pattern_ctx option")

type_synonym group_or_union_ctx = "group_graph_pattern_ctx list"

datatype select_clause_ctx =
  SelectClauseCtx (selectModifier_DISTINCT: "bool option") (ASTERISK: bool)
    (selectVariables: "var_ctx option list")

datatype select_query_ctx =
  SelectQueryCtx (select_whereClause: "group_graph_pattern_ctx option") (selectClause: select_clause_ctx)

datatype ask_query_ctx = AskQueryCtx (ask_whereClause: "group_graph_pattern_ctx option")

datatype prefix_decl_ctx = PrefixDeclCtx (PNAME_NS: "string option") (decl_IRIREF: string)

datatype prologue_ctx = PrologueCtx (prefixDecl: "prefix_decl_ctx list") (baseDecl: "string list")

datatype query_ctx =
  QueryCtx (selectQuery: "select_query_ctx option") (askQuery: "ask_query_ctx option")
    (prologue: "prologue_ctx option")

subsection \<open>Library objects and the translated query\<close>

datatype odg_call =
    AddOperand "uint8 list"
  | AddDependency uint8 uint8 "uint8 option"
  | AddConnection uint8 uint8

record 'l sparql_api =
  make_iri :: "string \<Rightarrow> string + string"
  make_typed :: "string \<Rightarrow> string \<Rightarrow> string + 'l"
  make_lang_tagged :: "string \<Rightarrow> string \<Rightarrow> string + 'l"
  make_simple :: "string \<Rightarrow> string + 'l"
  make_boolean :: "bool \<Rightarrow> string + 'l"
  from_prefix :: "(string \<times> string) list \<Rightarrow> string \<Rightarrow> string \<Rightarrow> string option"
  odg_add_operand :: "odg_call list \<Rightarrow> uint8"
  odg_operand_var_ids :: "odg_call list \<Rightarrow> uint8 \<Rightarrow> uint8 list"

record 'l sparql_query =
  odg :: "odg_call list"
  projected_variables :: "variable list"
  var_to_id :: "variable \<rightharpoonup> uint8"
  triple_patterns :: "'l triple_pattern list"
  prefixes :: "(string \<times> string) list"
  distinct_flag :: bool
  ask_flag :: bool
  project_all_variables :: bool

definition new_query :: "'l sparql_query" where
  "new_query = \<lparr>odg = [], projected_variables = [], var_to_id = Map.empty, triple_patterns = [],
     prefixes = [], distinct_flag = False, ask_flag = False, project_all_variables = False\<rparr>"

definition is_distinct :: "'l sparql_query \<Rightarrow> bool" where
  "is_distinct q = distinct_flag q"

type_synonym 'l slice_key = "'l node option list"

definition get_slice_keys :: "'l sparql_query \<Rightarrow> 'l slice_key list" where
  "get_slice_keys q =
     map (\<lambda>tp. map (\<lambda>n. if is_variable n then None else Some n) (nodes_of tp)) (triple_patterns q)"

subsection \<open>Weight of a pattern\<close>

text \<open>
  The number of \<open>groupGraphPatternSub\<close> nodes of a pattern, counted as the visitor reaches them: it
  bounds the recursion of \<open>visitWellDesignedPattern\<close>.
\<close>

fun ggp_weight :: "group_graph_pattern_ctx \<Rightarrow> nat"
  and sub_weight :: "group_graph_pattern_sub_ctx \<Rightarrow> nat"
  and item_weight :: "group_graph_pattern_sub_list_ctx \<Rightarrow> nat"
  and not_triples_weight :: "graph_pattern_not_triples_ctx \<Rightarrow> nat" where
  "ggp_weight (GroupGraphPatternCtx b None) = 1"
| "ggp_weight (GroupGraphPatternCtx b (Some c)) = sub_weight c"
| "sub_weight (GroupGraphPatternSubCtx tb items) = Suc (sum_list (map item_weight items))"
| "item_weight (GroupGraphPatternSubListCtx None tb) = 0"
| "item_weight (GroupGraphPatternSubListCtx (Some nt) tb) = not_triples_weight nt"
| "not_triples_weight (GraphPatternNotTriplesCtx (Some alts) opt) = sum_list (map ggp_weight alts)"
| "not_triples_weight (GraphPatternNotTriplesCtx None (Some opt)) = ggp_weight opt"
| "not_triples_weight (GraphPatternNotTriplesCtx None None) = 0"

definition opt_sub_weight :: "group_graph_pattern_sub_ctx option \<Rightarrow> nat" where
  "opt_sub_weight c = (case c of None \<Rightarrow> 1 | Some c \<Rightarrow> sub_weight c)"

lemma opt_sub_weight_ggp [simp]: "opt_sub_weight (groupGraphPatternSub g) = ggp_weight g"
  by (cases g rule: ggp_weight.cases) (simp_all add: opt_sub_weight_def)

end
