(* ===== verification/Term_Visitor.thy ===== *)
theory Term_Visitor
  imports Sparql_Syntax
begin

text \<open>
  The part of \<open>SelectAskQueryVisitor\<close> that translates terms, the \<open>PrologueVisitor\<close>, and what they
  guarantee. These functions read the prefix table only and change nothing; each returns the node or
  the exception. The texts of tokens are cut with \<open>substr\<close> exactly as the code does.
\<close>

subsection \<open>Prologue\<close>

definition visitPrefixDecl :: "prefix_decl_ctx \<Rightarrow> 'l sparql_query \<Rightarrow> exn + 'l sparql_query" where
  "visitPrefixDecl ctx q =
     (let prefix = (case PNAME_NS ctx of Some t \<Rightarrow> t | None \<Rightarrow> '''');
          ns = decl_IRIREF ctx
      in bind_res (substr prefix 0 (sz_sub (length prefix) 1)) (\<lambda>p.
         bind_res (substr ns 1 (sz_sub (length ns) 2)) (\<lambda>i.
         Inr (q\<lparr>prefixes := prefixes q @ [(p, i)]\<rparr>))))"

definition visitPrologue :: "prologue_ctx \<Rightarrow> 'l sparql_query \<Rightarrow> exn + 'l sparql_query" where
  "visitPrologue ctx q =
     bind_res (mfold visitPrefixDecl (prefixDecl ctx) q) (\<lambda>q.
     mfold (\<lambda>_ _. Inl (RuntimeError ''Base Declarations not supported yet.'')) (baseDecl ctx) q)"

subsection \<open>Variables, IRIs, blank nodes\<close>

definition visitVar :: "var_ctx \<Rightarrow> exn + variable" where
  "visitVar ctx = bind_res (substr (var_text ctx) 1 npos) (\<lambda>n. Inr (Variable n False))"

definition visitIri :: "'l sparql_api \<Rightarrow> (string \<times> string) list \<Rightarrow> iri_ctx \<Rightarrow> exn + string" where
  "visitIri api prefs ctx =
     (case IRIREF ctx of
        Some iri \<Rightarrow> bind_res (substr iri 1 (sz_sub (length iri) 2)) (\<lambda>i. lib (make_iri api i))
      | None \<Rightarrow>
          (case prefixedName ctx of
             None \<Rightarrow> Inl NullDeref
           | Some None \<Rightarrow> Inl NullDeref
           | Some (Some predicate) \<Rightarrow>
               (let split = find_char predicate (CHR '':'')
                in bind_res (substr predicate 0 split) (\<lambda>p.
                   bind_res (substr predicate (sz_succ split) npos) (\<lambda>l.
                   (case from_prefix api prefs p l of
                      Some iri \<Rightarrow> Inr iri
                    | None \<Rightarrow> Inl (RuntimeError ''Invalid prefixed IRI'')))))))"

definition visitBlankNode :: "blank_node_ctx \<Rightarrow> exn + variable" where
  "visitBlankNode ctx =
     (case BLANK_NODE_LABEL ctx of
        Some label \<Rightarrow> bind_res (substr label 2 npos) (\<lambda>n. Inr (Variable n True))
      | None \<Rightarrow> Inl (RuntimeError ''BlankNode ANON not supported.''))"

subsection \<open>Literals\<close>

definition visitString :: "string_ctx \<Rightarrow> exn + string" where
  "visitString ctx =
     (let v = string_text ctx
      in if STRING_LITERAL1 ctx \<or> STRING_LITERAL2 ctx then substr v 1 (sz_sub (length v) 2)
         else substr v 3 (sz_sub (length v) 6))"

definition visitRdfLiteral :: "'l sparql_api \<Rightarrow> (string \<times> string) list \<Rightarrow> rdf_literal_ctx \<Rightarrow> exn + 'l" where
  "visitRdfLiteral api prefs ctx =
     bind_res (visitString (literal_string ctx)) (\<lambda>v.
       (case literal_iri ctx of
          Some iri \<Rightarrow> bind_res (visitIri api prefs iri) (\<lambda>i. lib (make_typed api v i))
        | None \<Rightarrow>
            (case LANGTAG ctx of
               Some tag \<Rightarrow> bind_res (substr tag 1 npos) (\<lambda>t. lib (make_lang_tagged api v t))
             | None \<Rightarrow> lib (make_simple api v))))"

definition xsd_number :: "number_ctx \<Rightarrow> string" where
  "xsd_number n =
     (if has_decimal n then ''http://www.w3.org/2001/XMLSchema#decimal''
      else if has_double n then ''http://www.w3.org/2001/XMLSchema#double''
      else ''http://www.w3.org/2001/XMLSchema#integer'')"

definition visitNumericLiteral :: "'l sparql_api \<Rightarrow> numeric_literal_ctx \<Rightarrow> exn + 'l" where
  "visitNumericLiteral api ctx =
     (let number = numeric_text ctx;
          typed = (\<lambda>n. bind_res (lib (make_iri api (xsd_number n))) (\<lambda>i. lib (make_typed api number i)))
      in case numericLiteralPositive ctx of
           Some n \<Rightarrow> typed n
         | None \<Rightarrow>
             (case numericLiteralNegative ctx of
                Some n \<Rightarrow> typed n
              | None \<Rightarrow>
                  (case numericLiteralUnsigned ctx of
                     None \<Rightarrow> Inl NullDeref
                   | Some n \<Rightarrow> typed n)))"

definition visitBooleanLiteral :: "'l sparql_api \<Rightarrow> bool \<Rightarrow> exn + 'l" where
  "visitBooleanLiteral api t = lib (if t then make_boolean api True else make_boolean api False)"

subsection \<open>Terms and predicate paths\<close>

definition visitVarOrTerm :: "'l sparql_api \<Rightarrow> (string \<times> string) list \<Rightarrow> var_or_term_ctx \<Rightarrow> exn + 'l node" where
  "visitVarOrTerm api prefs ctx =
     (case vt_var ctx of
        Some v \<Rightarrow> bind_res (visitVar v) (\<lambda>v. Inr (VarNode v))
      | None \<Rightarrow>
          (case vt_graphTerm ctx of
             None \<Rightarrow> Inl NullDeref
           | Some t \<Rightarrow>
               (case term_iri t of Some c \<Rightarrow> bind_res (visitIri api prefs c) (\<lambda>i. Inr (IRI i)) | None \<Rightarrow>
               (case term_blankNode t of Some c \<Rightarrow> bind_res (visitBlankNode c) (\<lambda>v. Inr (VarNode v)) | None \<Rightarrow>
               (case term_rdfLiteral t of Some c \<Rightarrow> bind_res (visitRdfLiteral api prefs c) (\<lambda>l. Inr (Lit l)) | None \<Rightarrow>
               (case term_booleanLiteral t of Some c \<Rightarrow> bind_res (visitBooleanLiteral api c) (\<lambda>l. Inr (Lit l)) | None \<Rightarrow>
               (case term_numericLiteral t of Some c \<Rightarrow> bind_res (visitNumericLiteral api c) (\<lambda>l. Inr (Lit l)) | None \<Rightarrow>
                  Inl (RuntimeError ''RDF collections are not supported yet.''))))))))"

text \<open>
  \<open>visitPath\<close>, \<open>visitPathAlternative\<close>, \<open>visitPathSequence\<close> and \<open>visitPathEltOrInverse\<close> look at the
  first element only, after checking that there is no second one; \<open>pathSequence(0)\<close> of an empty
  vector is a null context.
\<close>

fun visitPath :: "'l sparql_api \<Rightarrow> (string \<times> string) list \<Rightarrow> path_ctx \<Rightarrow> exn + 'l node"
  and visitPathEltOrInverse ::
    "'l sparql_api \<Rightarrow> (string \<times> string) list \<Rightarrow> path_elt_or_inverse_ctx \<Rightarrow> exn + 'l node"
  and visitPathElt :: "'l sparql_api \<Rightarrow> (string \<times> string) list \<Rightarrow> path_primary_ctx \<Rightarrow> exn + 'l node" where
  "visitPath api prefs (PathCtx None) = Inl (RuntimeError ''Malformed query.'')"
| "visitPath api prefs (PathCtx (Some [])) = Inl NullDeref"
| "visitPath api prefs (PathCtx (Some [ [] ])) = Inl NullDeref"
| "visitPath api prefs (PathCtx (Some [ [e] ])) = visitPathEltOrInverse api prefs e"
| "visitPath api prefs (PathCtx (Some [ e1 # e2 # es ])) =
     Inl (RuntimeError ''Property paths are not supported yet'')"
| "visitPath api prefs (PathCtx (Some (s1 # s2 # ss))) =
     Inl (RuntimeError ''Property paths are not supported yet'')"
| "visitPathEltOrInverse api prefs (PathEltOrInverseCtx reversed elt) =
     (if reversed then Inl (RuntimeError ''Property paths are not supported yet'')
      else visitPathElt api prefs elt)"
| "visitPathElt api prefs (PathPrimaryCtx (Some iri) a neg p) =
     bind_res (visitIri api prefs iri) (\<lambda>i. Inr (IRI i))"
| "visitPathElt api prefs (PathPrimaryCtx None True neg p) =
     bind_res (lib (make_iri api ''http://www.w3.org/1999/02/22-rdf-syntax-ns#type'')) (\<lambda>i. Inr (IRI i))"
| "visitPathElt api prefs (PathPrimaryCtx None False True p) =
     Inl (RuntimeError ''Property paths are not supported yet'')"
| "visitPathElt api prefs (PathPrimaryCtx None False False None) = Inl NullDeref"
| "visitPathElt api prefs (PathPrimaryCtx None False False (Some p)) = visitPath api prefs p"

lemma visitPath_iri:
  "visitPath api prefs p = Inr n \<Longrightarrow> \<exists>i. n = IRI i"
  "visitPathEltOrInverse api prefs e = Inr n \<Longrightarrow> \<exists>i. n = IRI i"
  "visitPathElt api prefs q = Inr n \<Longrightarrow> \<exists>i. n = IRI i"
  by (induction p and e and q rule: visitPath_visitPathEltOrInverse_visitPathElt.induct)
     (auto split: if_splits)

subsection \<open>What the translation of terms guarantees\<close>

text \<open>
  A prefixed name \<open>p:l\<close> is resolved with exactly the prefix before its first colon and the local
  part after it, colons of the local part included.
\<close>

lemma visitIri_splits_at_first_colon:
  assumes "CHR '':'' \<notin> set p" and "length p + 1 < 2 ^ 64" and "length l < 2 ^ 64 - 1"
  shows "visitIri api prefs (IriCtx None (Some (Some (p @ CHR '':'' # l)))) =
           (case from_prefix api prefs p l of
              Some iri \<Rightarrow> Inr iri | None \<Rightarrow> Inl (RuntimeError ''Invalid prefixed IRI''))"
  using assms by (simp add: visitIri_def find_char_first Let_def substr_def sz_succ_def npos_def)

lemma visitIri_splits_at_first_colon_example:
  "visitIri \<lparr>make_iri = Inr, make_typed = (\<lambda>_. Inr), make_lang_tagged = (\<lambda>_. Inr), make_simple = Inr,
             make_boolean = (\<lambda>_. Inr ''''), from_prefix = (\<lambda>_ p l. Some (p @ l)),
             odg_add_operand = (\<lambda>_. 0), odg_operand_var_ids = (\<lambda>_ _. [])\<rparr>
            [] (IriCtx None (Some (Some (''ex'' @ CHR '':'' # ''a:b'')))) = Inr ''exa:b''"
  by (subst visitIri_splits_at_first_colon) simp_all

text \<open>Delimiters are stripped exactly: an IRI reference, a short and a long string.\<close>

lemma visitIri_reference:
  "visitIri api prefs (IriCtx (Some (CHR ''<'' # i @ ''>'')) pn) = lib (make_iri api i)"
  using substr_strip [of "''<''" 1 "''>''" i] by (simp add: visitIri_def)

lemma visitString_short:
  "string_text ctx = q # v @ [q'] \<Longrightarrow> STRING_LITERAL1 ctx \<or> STRING_LITERAL2 ctx \<Longrightarrow> visitString ctx = Inr v"
  using substr_strip [of "[q]" 1 "[q']" v] by (simp add: visitString_def)

lemma visitString_long:
  "string_text ctx = q @ v @ q' \<Longrightarrow> length q = 3 \<Longrightarrow> length q' = 3 \<Longrightarrow>
   \<not> STRING_LITERAL1 ctx \<Longrightarrow> \<not> STRING_LITERAL2 ctx \<Longrightarrow> visitString ctx = Inr v"
  using substr_strip [of q 3 q' v] by (simp add: visitString_def)

lemma visitPrefixDecl_declares:
  "PNAME_NS ctx = Some (p @ '':'') \<Longrightarrow> decl_IRIREF ctx = CHR ''<'' # i @ ''>'' \<Longrightarrow>
   visitPrefixDecl ctx q = Inr (q\<lparr>prefixes := prefixes q @ [(p, i)]\<rparr>)"
  using substr_strip [of "''<''" 1 "''>''" i]
  by (simp add: visitPrefixDecl_def substr_def sz_sub_def)

text \<open>
  A prologue without base declarations records its prefixes in order; a base declaration is
  rejected after the prefixes have been read.
\<close>

lemma visitPrologue_declares:
  assumes "\<And>d. d \<in> set ds \<Longrightarrow> PNAME_NS d = Some (pre d @ '':'') \<and> decl_IRIREF d = CHR ''<'' # ns d @ ''>''"
  shows "visitPrologue (PrologueCtx ds bases) q =
           (if bases = [] then Inr (q\<lparr>prefixes := prefixes q @ map (\<lambda>d. (pre d, ns d)) ds\<rparr>)
            else Inl (RuntimeError ''Base Declarations not supported yet.''))"
proof -
  have "mfold visitPrefixDecl ds q = Inr (q\<lparr>prefixes := prefixes q @ map (\<lambda>d. (pre d, ns d)) ds\<rparr>)"
    using assms by (induction ds arbitrary: q) (simp_all add: visitPrefixDecl_declares)
  then show ?thesis by (cases bases) (simp_all add: visitPrologue_def)
qed

lemma visitPrologue_declares_example:
  "visitPrologue (PrologueCtx [PrefixDeclCtx (Some ''ex:'') ''<http://e/>''] []) new_query =
     Inr (new_query\<lparr>prefixes := [(''ex'', ''http://e/'')]\<rparr>)"
  using visitPrologue_declares [of "[PrefixDeclCtx (Some ''ex:'') ''<http://e/>'']"
      "\<lambda>_. ''ex''" "\<lambda>_. ''http://e/''" "[]" new_query]
  by (simp add: new_query_def)

end
