(* ===== verification/Decimal.thy ===== *)
theory Decimal
  imports Tentris_Prelude
begin

text \<open>
  Decimal numerals, as the standard library writes them and the command line parser reads them:
  \<open>show_nat\<close> is \<open>std::to_string\<close> and \<open>operator<<\<close> on unsigned numbers, \<open>read_nat\<close> its inverse.
\<close>

definition digit_char :: "nat \<Rightarrow> char" where
  "digit_char d = char_of (48 + d)"

fun show_nat :: "nat \<Rightarrow> string" where
  "show_nat n = (if n < 10 then [digit_char n] else show_nat (n div 10) @ [digit_char (n mod 10)])"

declare show_nat.simps [simp del]

definition digit_value :: "char \<Rightarrow> nat option" where
  "digit_value c = (let d = of_char c :: nat in if 48 \<le> d \<and> d < 58 then Some (d - 48) else None)"

fun read_digits :: "nat \<Rightarrow> string \<Rightarrow> nat option" where
  "read_digits acc [] = Some acc"
| "read_digits acc (c # cs) =
     (case digit_value c of None \<Rightarrow> None | Some d \<Rightarrow> read_digits (10 * acc + d) cs)"

definition read_nat :: "string \<Rightarrow> nat option" where
  "read_nat s = (if s = [] then None else read_digits 0 s)"

lemma digit_value_char [simp]: "d < 10 \<Longrightarrow> digit_value (digit_char d) = Some d"
  by (simp add: digit_value_def digit_char_def)

lemma read_digits_append:
  "read_digits acc (xs @ ys) = (case read_digits acc xs of None \<Rightarrow> None | Some n \<Rightarrow> read_digits n ys)"
  by (induction xs arbitrary: acc) (auto split: option.split)

lemma show_nat_nonempty [simp]: "show_nat n \<noteq> []"
  by (simp add: show_nat.simps [of n])

lemma read_show_nat [simp]: "read_nat (show_nat n) = Some n"
proof -
  have "read_digits 0 (show_nat n) = Some n"
  proof (induction n rule: show_nat.induct)
    case (1 n)
    then show ?case by (simp add: show_nat.simps [of n] read_digits_append)
  qed
  then show ?thesis by (simp add: read_nat_def)
qed

lemma show_nat_inject: "show_nat m = show_nat n \<longleftrightarrow> m = n"
  using read_show_nat by (metis option.inject)

end
