(* ===== verification/Visitor_Values.thy ===== *)
theory Visitor_Values
  imports Term_Visitor Decimal
begin

text \<open>
  The values the visit functions return are \<open>std::any\<close>s, which their callers cast back. \<open>Term_Visitor\<close>
  models the functions by what the casts yield; here they return tagged values as the code does, every
  \<open>any_cast\<close> checks the tag, and no cast ever meets a value of another type.

  Also the error listener for the ANTLR parser, which no code attaches to it.
\<close>

subsection \<open>\<open>std::any\<close>\<close>

datatype 'l any =
    AnyNode "'l node"
  | AnyIRI string
  | AnyVariable variable
  | AnyLiteral 'l
  | AnyString string

definition bad_any_cast :: exn where
  "bad_any_cast = LibraryError ''bad any_cast''"

fun any_cast_node :: "'l any \<Rightarrow> exn + 'l node" where
  "any_cast_node (AnyNode n) = Inr n"
| "any_cast_node _ = Inl bad_any_cast"

fun any_cast_iri :: "'l any \<Rightarrow> exn + string" where
  "any_cast_iri (AnyIRI i) = Inr i"
| "any_cast_iri _ = Inl bad_any_cast"

fun any_cast_variable :: "'l any \<Rightarrow> exn + variable" where
  "any_cast_variable (AnyVariable v) = Inr v"
| "any_cast_variable _ = Inl bad_any_cast"

fun any_cast_literal :: "'l any \<Rightarrow> exn + 'l" where
  "any_cast_literal (AnyLiteral l) = Inr l"
| "any_cast_literal _ = Inl bad_any_cast"

fun any_cast_string :: "'l any \<Rightarrow> exn + string" where
  "any_cast_string (AnyString s) = Inr s"
| "any_cast_string _ = Inl bad_any_cast"

subsection \<open>The visit functions\<close>

text \<open>The functions that do not cast: the type of the returned expression is the tag.\<close>

definition visitVar_any :: "var_ctx \<Rightarrow> exn + 'l any" where
  "visitVar_any ctx = map_res AnyVariable (visitVar ctx)"

definition visitIri_any :: "'l sparql_api \<Rightarrow> (string \<times> string) list \<Rightarrow> iri_ctx \<Rightarrow> exn + 'l any" where
  "visitIri_any api prefs ctx = map_res AnyIRI (visitIri api prefs ctx)"

definition visitBlankNode_any :: "blank_node_ctx \<Rightarrow> exn + 'l any" where
  "visitBlankNode_any ctx = map_res AnyVariable (visitBlankNode ctx)"

definition visitString_any :: "string_ctx \<Rightarrow> exn + 'l any" where
  "visitString_any ctx = map_res AnyString (visitString ctx)"

definition visitNumericLiteral_any :: "'l sparql_api \<Rightarrow> numeric_literal_ctx \<Rightarrow> exn + 'l any" where
  "visitNumericLiteral_any api ctx = map_res AnyLiteral (visitNumericLiteral api ctx)"

definition visitBooleanLiteral_any :: "'l sparql_api \<Rightarrow> bool \<Rightarrow> exn + 'l any" where
  "visitBooleanLiteral_any api t = map_res AnyLiteral (visitBooleanLiteral api t)"

definition visitRdfLiteral_any :: "'l sparql_api \<Rightarrow> (string \<times> string) list \<Rightarrow> rdf_literal_ctx \<Rightarrow> exn + 'l any" where
  "visitRdfLiteral_any api prefs ctx =
     bind_res (visitString_any (literal_string ctx)) (\<lambda>a :: 'l any.
     bind_res (any_cast_string a) (\<lambda>v.
       (case literal_iri ctx of
          Some iri \<Rightarrow>
            bind_res (visitIri_any api prefs iri) (\<lambda>a.
            bind_res (any_cast_iri a) (\<lambda>i. map_res AnyLiteral (lib (make_typed api v i))))
        | None \<Rightarrow>
            (case LANGTAG ctx of
               Some tag \<Rightarrow> bind_res (substr tag 1 npos) (\<lambda>t. map_res AnyLiteral (lib (make_lang_tagged api v t)))
             | None \<Rightarrow> map_res AnyLiteral (lib (make_simple api v))))))"

definition visitVarOrTerm_any :: "'l sparql_api \<Rightarrow> (string \<times> string) list \<Rightarrow> var_or_term_ctx \<Rightarrow> exn + 'l any" where
  "visitVarOrTerm_any api prefs ctx = map_res AnyNode
     (case vt_var ctx of
        Some v \<Rightarrow> bind_res (visitVar_any v) (\<lambda>a. map_res VarNode (any_cast_variable (a :: 'l any)))
      | None \<Rightarrow>
          (case vt_graphTerm ctx of
             None \<Rightarrow> Inl NullDeref
           | Some t \<Rightarrow>
               (case term_iri t of
                  Some c \<Rightarrow> bind_res (visitIri_any api prefs c) (\<lambda>a. map_res IRI (any_cast_iri a)) | None \<Rightarrow>
               (case term_blankNode t of
                  Some c \<Rightarrow> bind_res (visitBlankNode_any c) (\<lambda>a. map_res VarNode (any_cast_variable (a :: 'l any))) | None \<Rightarrow>
               (case term_rdfLiteral t of
                  Some c \<Rightarrow> bind_res (visitRdfLiteral_any api prefs c) (\<lambda>a. map_res Lit (any_cast_literal a)) | None \<Rightarrow>
               (case term_booleanLiteral t of
                  Some c \<Rightarrow> bind_res (visitBooleanLiteral_any api c) (\<lambda>a. map_res Lit (any_cast_literal a)) | None \<Rightarrow>
               (case term_numericLiteral t of
                  Some c \<Rightarrow> bind_res (visitNumericLiteral_any api c) (\<lambda>a. map_res Lit (any_cast_literal a)) | None \<Rightarrow>
                  Inl (RuntimeError ''RDF collections are not supported yet.''))))))))"

fun visitPath_any :: "'l sparql_api \<Rightarrow> (string \<times> string) list \<Rightarrow> path_ctx \<Rightarrow> exn + 'l any"
  and visitPathEltOrInverse_any ::
    "'l sparql_api \<Rightarrow> (string \<times> string) list \<Rightarrow> path_elt_or_inverse_ctx \<Rightarrow> exn + 'l any"
  and visitPathElt_any :: "'l sparql_api \<Rightarrow> (string \<times> string) list \<Rightarrow> path_primary_ctx \<Rightarrow> exn + 'l any" where
  "visitPath_any api prefs (PathCtx None) = Inl (RuntimeError ''Malformed query.'')"
| "visitPath_any api prefs (PathCtx (Some [])) = Inl NullDeref"
| "visitPath_any api prefs (PathCtx (Some [ [] ])) = Inl NullDeref"
| "visitPath_any api prefs (PathCtx (Some [ [e] ])) = visitPathEltOrInverse_any api prefs e"
| "visitPath_any api prefs (PathCtx (Some [ e1 # e2 # es ])) =
     Inl (RuntimeError ''Property paths are not supported yet'')"
| "visitPath_any api prefs (PathCtx (Some (s1 # s2 # ss))) =
     Inl (RuntimeError ''Property paths are not supported yet'')"
| "visitPathEltOrInverse_any api prefs (PathEltOrInverseCtx reversed elt) =
     (if reversed then Inl (RuntimeError ''Property paths are not supported yet'')
      else visitPathElt_any api prefs elt)"
| "visitPathElt_any api prefs (PathPrimaryCtx (Some iri) a neg p) =
     bind_res (visitIri_any api prefs iri) (\<lambda>x. bind_res (any_cast_iri x) (\<lambda>i. Inr (AnyNode (IRI i))))"
| "visitPathElt_any api prefs (PathPrimaryCtx None True neg p) =
     bind_res (lib (make_iri api ''http://www.w3.org/1999/02/22-rdf-syntax-ns#type'')) (\<lambda>i. Inr (AnyNode (IRI i)))"
| "visitPathElt_any api prefs (PathPrimaryCtx None False True p) =
     Inl (RuntimeError ''Property paths are not supported yet'')"
| "visitPathElt_any api prefs (PathPrimaryCtx None False False None) = Inl NullDeref"
| "visitPathElt_any api prefs (PathPrimaryCtx None False False (Some p)) = visitPath_any api prefs p"

subsection \<open>No cast fails\<close>

lemmas leaf_any_defs = visitVar_any_def visitIri_any_def visitBlankNode_any_def visitString_any_def
  visitNumericLiteral_any_def visitBooleanLiteral_any_def

lemma visitRdfLiteral_any_eq: "visitRdfLiteral_any api prefs ctx = map_res AnyLiteral (visitRdfLiteral api prefs ctx)"
  by (cases "literal_iri ctx"; cases "LANGTAG ctx")
     (simp_all add: visitRdfLiteral_any_def visitRdfLiteral_def leaf_any_defs bind_map_res map_res_bind)

lemma visitVarOrTerm_any_eq: "visitVarOrTerm_any api prefs ctx = map_res AnyNode (visitVarOrTerm api prefs ctx)"
  by (simp add: visitVarOrTerm_any_def visitVarOrTerm_def leaf_any_defs visitRdfLiteral_any_eq bind_map_res
      map_res_def [symmetric] split: option.split)

lemma visitPath_any_eq:
  "visitPath_any api prefs p = map_res AnyNode (visitPath api prefs p)"
  "visitPathEltOrInverse_any api prefs e = map_res AnyNode (visitPathEltOrInverse api prefs e)"
  "visitPathElt_any api prefs q = map_res AnyNode (visitPathElt api prefs q)"
  by (induction p and e and q rule: visitPath_visitPathEltOrInverse_visitPathElt.induct)
     (simp_all add: leaf_any_defs bind_map_res map_res_bind)

text \<open>
  C25. The values of the visitor are well typed: every \<open>any_cast\<close> is to the type of the value it meets, in
  the visit functions themselves and where triples are assembled from terms, predicates and variables, so
  \<open>bad_any_cast\<close> is never thrown, and the casts yield exactly the node, variable or literal that
  \<open>Term_Visitor\<close> says.
\<close>

theorem any_casts_succeed:
  "bind_res (visitVarOrTerm_any api prefs term) any_cast_node = visitVarOrTerm api prefs term \<and>
   bind_res (visitPath_any api prefs path) any_cast_node = visitPath api prefs path \<and>
   bind_res (visitVar_any var) (any_cast_variable :: 'l any \<Rightarrow> _) = visitVar var \<and>
   bind_res (visitRdfLiteral_any api prefs literal) (any_cast_literal :: 'l any \<Rightarrow> _) = visitRdfLiteral api prefs literal"
  for api :: "'l sparql_api"
proof -
  have cast: "bind_res (map_res f m) g = m" if "\<And>x. g (f x) = Inr x" for m and f :: "'a \<Rightarrow> 'b" and g
    using that by (cases m) simp_all
  show ?thesis
    by (simp add: visitVarOrTerm_any_eq visitPath_any_eq(1) visitRdfLiteral_any_eq visitVar_any_def cast)
qed

subsection \<open>\<open>SPARQLErrorListener\<close>\<close>

definition syntaxError :: "size_t \<Rightarrow> size_t \<Rightarrow> string \<Rightarrow> exn + unit" where
  "syntaxError line charPositionInLine msg =
     Inl (RuntimeError (''Syntax error: '' @ msg @ ''. At line: '' @ show_nat (unat line) @
       '' and position: '' @ show_nat (unat charPositionInLine)))"

end
