(* ===== verification/Json_Writer.thy ===== *)
theory Json_Writer
  imports Sparql_Syntax
begin

text \<open>
  \<open>SparqlJsonResultSAXWriter\<close> (\<open>libs/endpoint/private-include\<close>): the solutions of a query, written as
  SPARQL 1.1 JSON results through a SAX-style writer.

  The text the rapidjson writer appends to its buffer for an event may depend on all the events before
  it; it is the parameter \<open>emit\<close>. \<open>StringBuffer\<close> is the text not yet cleared, \<open>events\<close> the writer's history:
  \<open>clear\<close> empties the first and leaves the second. The accessors of literals are the
  parameter \<open>literal_api\<close>. The document itself is specified as a JSON tree.
\<close>

subsection \<open>The library writer\<close>

datatype json_event =
    StartObject
  | EndObject
  | StartArray
  | EndArray
  | Key string
  | StringEvent string

record 'l literal_api =
  datatype_iri :: "'l \<Rightarrow> string"
  language_tag :: "'l \<Rightarrow> string"
  lexical_form :: "'l \<Rightarrow> string"

type_synonym json_emit = "json_event list \<Rightarrow> json_event \<Rightarrow> string"

fun render_from :: "json_emit \<Rightarrow> json_event list \<Rightarrow> json_event list \<Rightarrow> string" where
  "render_from emit h [] = []"
| "render_from emit h (ev # evs) = emit h ev @ render_from emit (h @ [ev]) evs"

lemma render_from_append:
  "render_from emit h (xs @ ys) = render_from emit h xs @ render_from emit (h @ xs) ys"
  by (induction xs arbitrary: h) auto

subsection \<open>State and operations\<close>

record json_writer =
  number_of_solutions :: size_t
  number_of_bindings :: size_t
  buffer_size :: size_t
  buffer :: string
  events :: "json_event list"
  var_names :: "string list"

definition put :: "json_emit \<Rightarrow> json_event \<Rightarrow> json_writer \<Rightarrow> json_writer" where
  "put emit ev w = w\<lparr>buffer := buffer w @ emit (events w) ev, events := events w @ [ev]\<rparr>"

definition puts :: "json_emit \<Rightarrow> json_event list \<Rightarrow> json_writer \<Rightarrow> json_writer" where
  "puts emit evs w = fold (put emit) evs w"

definition json_writer_new :: "json_emit \<Rightarrow> variable list \<Rightarrow> size_t \<Rightarrow> json_writer" where
  "json_writer_new emit variables bsize =
     (let w0 = \<lparr>number_of_solutions = 0, number_of_bindings = 0, buffer_size = bsize, buffer = [],
                events = [], var_names = []\<rparr>;
          w1 = puts emit [StartObject, Key ''head''] w0;
          w2 = w1\<lparr>var_names := map var_name variables\<rparr>;
          w3 = puts emit [StartObject, Key ''vars'', StartArray] w2;
          w4 = puts emit (map StringEvent (var_names w3)) w3;
          w5 = puts emit [EndArray, EndObject] w4
      in puts emit [Key ''results'', StartObject, Key ''bindings'', StartArray] w5)"

definition json_close :: "json_emit \<Rightarrow> json_writer \<Rightarrow> json_writer" where
  "json_close emit w = puts emit [EndArray, EndObject, EndObject] w"

definition xsd_string :: string where
  "xsd_string = ''http://www.w3.org/2001/XMLSchema#string''"

text \<open>The body of the inner loop of \<open>add\<close>, for a term that is not null.\<close>

definition write_term ::
  "json_emit \<Rightarrow> 'l literal_api \<Rightarrow> 'l node \<Rightarrow> string \<Rightarrow> json_writer \<Rightarrow> exn + json_writer" where
  "write_term emit api t var w0 =
     (let w1 = puts emit [Key var, StartObject, Key ''type''] w0 in
      map_res (\<lambda>w2. (puts emit [EndObject] w2)\<lparr>number_of_bindings := number_of_bindings w2 + 1\<rparr>)
        (case t of
           IRI identifier \<Rightarrow>
             Inr (puts emit [StringEvent ''uri'', Key ''value'', StringEvent identifier] w1)
         | Lit literal \<Rightarrow>
             (let w3 = puts emit [StringEvent ''literal''] w1;
                  dt = datatype_iri api literal;
                  w4 = (if dt \<noteq> xsd_string
                        then (let lang = language_tag api literal in
                              if lang \<noteq> [] then puts emit [Key ''xml:lang'', StringEvent lang] w3
                              else puts emit [Key ''datatype'', StringEvent dt] w3)
                        else w3)
              in Inr (puts emit [Key ''value'', StringEvent (lexical_form api literal)] w4))
         | BNode identifier \<Rightarrow>
             Inr (puts emit [StringEvent ''bnode'', Key ''value'', StringEvent identifier] w1)
         | _ \<Rightarrow> Inl (RuntimeError ''Node with incorrect type (none of Literal, BNode, URI) detected.'')))"

definition write_binding ::
  "json_emit \<Rightarrow> 'l literal_api \<Rightarrow> 'l node \<times> string \<Rightarrow> json_writer \<Rightarrow> exn + json_writer" where
  "write_binding emit api b w =
     (case b of (t, var) \<Rightarrow> if t = NullNode then Inr w else write_term emit api t var w)"

definition write_solution ::
  "json_emit \<Rightarrow> 'l literal_api \<Rightarrow> 'l node list \<Rightarrow> json_writer \<Rightarrow> exn + json_writer" where
  "write_solution emit api key w =
     map_res (puts emit [EndObject])
       (mfold (write_binding emit api) (zip key (var_names w)) (puts emit [StartObject] w))"

definition json_add ::
  "json_emit \<Rightarrow> 'l literal_api \<Rightarrow> 'l node list \<times> size_t \<Rightarrow> json_writer \<Rightarrow> exn + json_writer" where
  "json_add emit api entry w =
     (case entry of (key, value) \<Rightarrow>
        map_res (\<lambda>w'. w'\<lparr>number_of_solutions := number_of_solutions w' + value\<rparr>)
          (mfold (\<lambda>i. write_solution emit api key) [0..<unat value] w))"

definition json_size :: "json_writer \<Rightarrow> nat" where
  "json_size w = length (buffer w)"

definition json_full :: "json_writer \<Rightarrow> bool" where
  "json_full w \<longleftrightarrow> unat (buffer_size w) < length (buffer w)"

definition string_view :: "json_writer \<Rightarrow> string" where
  "string_view w = buffer w"

definition json_clear :: "json_writer \<Rightarrow> json_writer" where
  "json_clear w = w\<lparr>buffer := []\<rparr>"

subsection \<open>Specification: the result document\<close>

datatype json =
    JString string
  | JArray "json list"
  | JObject "(string \<times> json) list"

fun json_events :: "json \<Rightarrow> json_event list" where
  "json_events (JString s) = [StringEvent s]"
| "json_events (JArray xs) = StartArray # concat (map json_events xs) @ [EndArray]"
| "json_events (JObject ms) =
     StartObject # concat (map (\<lambda>m. Key (fst m) # json_events (snd m)) ms) @ [EndObject]"

fun term_json :: "'l literal_api \<Rightarrow> 'l node \<Rightarrow> json" where
  "term_json api (IRI i) = JObject [(''type'', JString ''uri''), (''value'', JString i)]"
| "term_json api (BNode i) = JObject [(''type'', JString ''bnode''), (''value'', JString i)]"
| "term_json api (Lit l) =
     JObject ((''type'', JString ''literal'') #
       (if datatype_iri api l = xsd_string then []
        else if language_tag api l \<noteq> [] then [(''xml:lang'', JString (language_tag api l))]
        else [(''datatype'', JString (datatype_iri api l))]) @
       [(''value'', JString (lexical_form api l))])"
| "term_json api _ = JObject []"

definition bound :: "string list \<Rightarrow> 'l node list \<Rightarrow> ('l node \<times> string) list" where
  "bound vars key = filter (\<lambda>b. fst b \<noteq> NullNode) (zip key vars)"

definition solution_json :: "'l literal_api \<Rightarrow> string list \<Rightarrow> 'l node list \<Rightarrow> json" where
  "solution_json api vars key = JObject (map (\<lambda>b. (snd b, term_json api (fst b))) (bound vars key))"

text \<open>Solutions with multiplicities, one row per occurrence.\<close>

definition rows :: "('l node list \<times> size_t) list \<Rightarrow> 'l node list list" where
  "rows es = concat (map (\<lambda>(key, value). replicate (unat value) key) es)"

definition results_json :: "'l literal_api \<Rightarrow> string list \<Rightarrow> 'l node list list \<Rightarrow> json" where
  "results_json api vars keys =
     JObject [(''head'', JObject [(''vars'', JArray (map JString vars))]),
              (''results'', JObject [(''bindings'', JArray (map (solution_json api vars) keys))])]"

text \<open>A row the format cannot express: some bound term is a variable.\<close>

definition unprintable :: "string list \<Rightarrow> 'l node list \<Rightarrow> bool" where
  "unprintable vars key \<longleftrightarrow> (\<exists>b \<in> set (bound vars key). is_variable (fst b))"

subsection \<open>The writer writes the document\<close>

lemma puts_eq:
  "puts emit evs w =
     w\<lparr>buffer := buffer w @ render_from emit (events w) evs, events := events w @ evs\<rparr>"
  by (induction evs arbitrary: w) (simp_all add: puts_def put_def)

lemma puts_counters [simp]:
  "number_of_solutions (puts emit evs w) = number_of_solutions w"
  "number_of_bindings (puts emit evs w) = number_of_bindings w"
  "var_names (puts emit evs w) = var_names w"
  by (simp_all add: puts_eq)

lemma puts_puts [simp]: "puts emit ys (puts emit xs w) = puts emit (xs @ ys) w"
  by (simp add: puts_def)

lemma puts_var_names_update [simp]:
  "puts emit ys (w\<lparr>var_names := vs\<rparr>) = (puts emit ys w)\<lparr>var_names := vs\<rparr>"
  by (simp add: puts_eq)

definition bad_node :: exn where
  "bad_node = RuntimeError ''Node with incorrect type (none of Literal, BNode, URI) detected.''"

text \<open>Writing events while raising the counters.\<close>

definition wrote :: "json_emit \<Rightarrow> json_event list \<Rightarrow> nat \<Rightarrow> size_t \<Rightarrow> json_writer \<Rightarrow> json_writer" where
  "wrote emit evs nb ns w =
     (puts emit evs w)\<lparr>number_of_bindings := number_of_bindings w + of_nat nb,
                       number_of_solutions := number_of_solutions w + ns\<rparr>"

lemma wrote_none [simp]: "wrote emit [] 0 0 w = w"
  by (simp add: wrote_def puts_def)

lemma puts_wrote: "puts emit evs w = wrote emit evs 0 0 w"
  by (simp add: wrote_def puts_eq)

lemma wrote_wrote [simp]:
  "wrote emit ys b' s' (wrote emit xs b s w) = wrote emit (xs @ ys) (b + b') (s + s') w"
  by (simp add: wrote_def puts_eq render_from_append add.assoc)

lemma wrote_fields [simp]:
  "events (wrote emit evs b s w) = events w @ evs"
  "buffer (wrote emit evs b s w) = buffer w @ render_from emit (events w) evs"
  "var_names (wrote emit evs b s w) = var_names w"
  "buffer_size (wrote emit evs b s w) = buffer_size w"
  "number_of_bindings (wrote emit evs b s w) = number_of_bindings w + of_nat b"
  "number_of_solutions (wrote emit evs b s w) = number_of_solutions w + s"
  by (simp_all add: wrote_def puts_eq)

lemma write_term_eq:
  assumes "t \<noteq> NullNode"
  shows "write_term emit api t var w =
     (if is_variable t then Inl bad_node
      else Inr (wrote emit (Key var # json_events (term_json api t)) 1 0 w))"
  using assms
  by (cases t) (simp_all add: write_term_def Let_def bad_node_def wrote_def puts_eq)

definition binding_events :: "'l literal_api \<Rightarrow> 'l node \<times> string \<Rightarrow> json_event list" where
  "binding_events api b = Key (snd b) # json_events (term_json api (fst b))"

lemma write_binding_eq:
  "write_binding emit api (NullNode, var) w = Inr w"
  "t \<noteq> NullNode \<Longrightarrow> write_binding emit api (t, var) w =
     (if is_variable t then Inl bad_node else Inr (wrote emit (binding_events api (t, var)) 1 0 w))"
  by (simp_all add: write_binding_def write_term_eq binding_events_def)

lemma write_bindings_eq:
  "mfold (write_binding emit api) bs w =
     (if \<exists>b \<in> set bs. is_variable (fst b) then Inl bad_node
      else (let shown = filter (\<lambda>b. fst b \<noteq> NullNode) bs
            in Inr (wrote emit (concat (map (binding_events api) shown)) (length shown) 0 w)))"
proof (induction bs arbitrary: w)
  case Nil
  show ?case by simp
next
  case (Cons b bs)
  obtain t var where b: "b = (t, var)" by (cases b)
  consider "t = NullNode" | "t \<noteq> NullNode" "is_variable t" | "t \<noteq> NullNode" "\<not> is_variable t"
    by blast
  then show ?case
    by cases (simp_all add: b Cons.IH write_binding_eq Let_def)
qed

lemma unprintable_zip: "unprintable vars key \<longleftrightarrow> (\<exists>b \<in> set (zip key vars). is_variable (fst b))"
  unfolding unprintable_def bound_def by force

lemma write_solution_eq:
  "write_solution emit api key w =
     (if unprintable (var_names w) key then Inl bad_node
      else Inr (wrote emit (json_events (solution_json api (var_names w) key))
                  (length (bound (var_names w) key)) 0 w))"
  by (auto simp: write_solution_def write_bindings_eq unprintable_zip puts_wrote solution_json_def
      bound_def Let_def binding_events_def [abs_def] comp_def)

definition row_events :: "'l literal_api \<Rightarrow> string list \<Rightarrow> 'l node list list \<Rightarrow> json_event list" where
  "row_events api vars keys = concat (map (\<lambda>key. json_events (solution_json api vars key)) keys)"

definition row_bindings :: "string list \<Rightarrow> 'l node list list \<Rightarrow> nat" where
  "row_bindings vars keys = sum_list (map (\<lambda>key. length (bound vars key)) keys)"

lemma row_append [simp]:
  "row_events api vars (ks @ ls) = row_events api vars ks @ row_events api vars ls"
  "row_bindings vars (ks @ ls) = row_bindings vars ks + row_bindings vars ls"
  by (simp_all add: row_events_def row_bindings_def)

lemma row_single [simp]:
  "row_events api vars [] = []" "row_bindings vars [] = 0"
  "row_events api vars [key] = json_events (solution_json api vars key)"
  "row_bindings vars [key] = length (bound vars key)"
  by (simp_all add: row_events_def row_bindings_def)

lemma write_copies_eq:
  "mfold (\<lambda>i. write_solution emit api key) [i..<i + n] w =
     (if 0 < n \<and> unprintable (var_names w) key then Inl bad_node
      else (let ks = replicate n key
            in Inr (wrote emit (row_events api (var_names w) ks) (row_bindings (var_names w) ks) 0 w)))"
proof (induction n arbitrary: i w)
  case 0
  show ?case by simp
next
  case (Suc n)
  have "[i..<i + Suc n] = i # [Suc i..<Suc i + n]"
    by (simp add: upt_conv_Cons del: upt_Suc)
  moreover have "row_events api vs (replicate (Suc n) key)
      = json_events (solution_json api vs key) @ row_events api vs (replicate n key)"
    "row_bindings vs (replicate (Suc n) key) = length (bound vs key) + row_bindings vs (replicate n key)"
    for vs
    by (simp_all add: row_events_def row_bindings_def)
  ultimately show ?case
    using Suc.IH [of "Suc i"]
    by (simp add: write_solution_eq [of emit api key w] Let_def del: replicate.simps upt_Suc)
qed

lemma json_add_eq:
  "json_add emit api (key, value) w =
     (if 0 < unat value \<and> unprintable (var_names w) key then Inl bad_node
      else (let ks = replicate (unat value) key
            in Inr (wrote emit (row_events api (var_names w) ks) (row_bindings (var_names w) ks) value w)))"
  using write_copies_eq [of emit api key 0 "unat value" w]
  by (auto simp: json_add_def Let_def wrote_def puts_eq)

lemma rows_simps [simp]:
  "rows [] = []" "rows ((key, value) # es) = replicate (unat value) key @ rows es"
  by (simp_all add: rows_def)

lemma json_adds_eq:
  "mfold (json_add emit api) es w =
     (if \<exists>key \<in> set (rows es). unprintable (var_names w) key then Inl bad_node
      else Inr (wrote emit (row_events api (var_names w) (rows es)) (row_bindings (var_names w) (rows es))
                  (sum_list (map snd es)) w))"
proof (induction es arbitrary: w)
  case Nil
  show ?case by simp
next
  case (Cons e es)
  obtain key m where e: "e = (key, m)" by (cases e)
  show ?case
    by (cases "0 < unat m \<and> unprintable (var_names w) key")
       (auto simp: e json_add_eq Let_def Cons.IH)
qed

definition prologue_events :: "string list \<Rightarrow> json_event list" where
  "prologue_events vars =
     [StartObject, Key ''head'', StartObject, Key ''vars'', StartArray] @ map StringEvent vars @
     [EndArray, EndObject, Key ''results'', StartObject, Key ''bindings'', StartArray]"

lemma json_writer_new_eq:
  "json_writer_new emit vs n =
     \<lparr>number_of_solutions = 0, number_of_bindings = 0, buffer_size = n,
      buffer = render_from emit [] (prologue_events (map var_name vs)),
      events = prologue_events (map var_name vs), var_names = map var_name vs\<rparr>"
  by (simp add: json_writer_new_def Let_def puts_eq prologue_events_def render_from_append)

lemma results_json_events:
  "json_events (results_json api vars keys) =
     prologue_events vars @ row_events api vars keys @ [EndArray, EndObject, EndObject]"
  by (simp add: results_json_def prologue_events_def row_events_def comp_def)

text \<open>
  C15. Writing a result: constructing the writer, adding every entry and closing it writes exactly the
  events of the SPARQL JSON result document of the solutions, an entry repeated as often as its
  multiplicity says and unbound variables left out; the buffer holds the text of that document and the
  counters count rows and bindings, modulo 2 ^ 64. It fails, with one error, exactly if some row binds a
  variable to a variable.
\<close>

theorem writer_writes_document:
  "map_res (json_close emit) (mfold (json_add emit api) es (json_writer_new emit vs n)) =
     (if \<exists>key \<in> set (rows es). unprintable (map var_name vs) key
      then Inl (RuntimeError ''Node with incorrect type (none of Literal, BNode, URI) detected.'')
      else (let doc = json_events (results_json api (map var_name vs) (rows es)) in
            Inr \<lparr>number_of_solutions = of_nat (length (rows es)),
                 number_of_bindings = of_nat (sum_list (map (\<lambda>key. length (bound (map var_name vs) key)) (rows es))),
                 buffer_size = n, buffer = render_from emit [] doc, events = doc,
                 var_names = map var_name vs\<rparr>))"
proof -
  have "(of_nat (length (rows es)) :: size_t) = sum_list (map snd es)"
    by (induction es) auto
  then show ?thesis
    by (simp add: json_adds_eq json_writer_new_eq json_close_def results_json_events Let_def wrote_def
        puts_eq render_from_append row_bindings_def bad_node_def)
qed

subsection \<open>The document determines the solutions\<close>

lemma json_events_nonempty:
  "\<exists>ev evs. json_events t = ev # evs \<and> ev \<noteq> EndArray \<and> ev \<noteq> EndObject \<and> (\<forall>k. ev \<noteq> Key k)"
  by (cases t) auto

lemma json_events_first:
  "json_events t @ r \<noteq> EndArray # r'" "json_events t @ r \<noteq> EndObject # r'"
  using json_events_nonempty [of t] by auto

lemma json_array_prefix:
  assumes "\<And>x y r r'. x \<in> set xs \<Longrightarrow> json_events x @ r = json_events y @ r' \<Longrightarrow> x = y \<and> r = r'"
    and "concat (map json_events xs) @ EndArray # r = concat (map json_events ys) @ EndArray # r'"
  shows "xs = ys \<and> r = r'"
  using assms
proof (induction xs arbitrary: ys)
  case Nil
  then show ?case using json_events_first(1) by (cases ys) (auto, metis)
next
  case (Cons x xs)
  show ?case
  proof (cases ys)
    case Nil
    with Cons.prems(2) show ?thesis using json_events_first(1) by auto
  next
    case (Cons y ys')
    have "x = y \<and> concat (map json_events xs) @ EndArray # r = concat (map json_events ys') @ EndArray # r'"
      using Cons.prems(2) local.Cons by (intro Cons.prems(1)) simp_all
    with Cons.IH [of ys'] Cons.prems(1) local.Cons show ?thesis by auto
  qed
qed

lemma json_object_prefix:
  assumes "\<And>k x y r r'. (k, x) \<in> set ms \<Longrightarrow> json_events x @ r = json_events y @ r' \<Longrightarrow> x = y \<and> r = r'"
    and "concat (map (\<lambda>m. Key (fst m) # json_events (snd m)) ms) @ EndObject # r =
         concat (map (\<lambda>m. Key (fst m) # json_events (snd m)) ns) @ EndObject # r'"
  shows "ms = ns \<and> r = r'"
  using assms
proof (induction ms arbitrary: ns)
  case Nil
  then show ?case by (cases ns) auto
next
  case (Cons m ms)
  obtain k x where m: "m = (k, x)" by (cases m)
  show ?case
  proof (cases ns)
    case Nil
    with Cons.prems(2) m show ?thesis by simp
  next
    case (Cons n ns')
    obtain l y where n: "n = (l, y)" by (cases n)
    have "k = l" using Cons.prems(2) local.Cons m n by simp
    moreover have "x = y \<and> concat (map (\<lambda>m. Key (fst m) # json_events (snd m)) ms) @ EndObject # r =
        concat (map (\<lambda>m. Key (fst m) # json_events (snd m)) ns') @ EndObject # r'"
      using Cons.prems(2) local.Cons m n by (intro Cons.prems(1) [of k]) simp_all
    moreover have "ms = ns' \<and> r = r'" if "concat (map (\<lambda>m. Key (fst m) # json_events (snd m)) ms) @ EndObject # r =
        concat (map (\<lambda>m. Key (fst m) # json_events (snd m)) ns') @ EndObject # r'"
    proof (rule Cons.IH [OF _ that], goal_cases)
      case (1 k x r y r')
      then show ?case using Cons.prems(1) [of k x r y r'] by simp
    qed
    ultimately show ?thesis
      using local.Cons m n by simp
  qed
qed

lemma json_events_prefix: "json_events s @ r = json_events t @ r' \<Longrightarrow> s = t \<and> r = r'"
proof (induction s arbitrary: t r r')
  case (JString x)
  then show ?case by (cases t) auto
next
  case (JArray xs)
  then show ?case using json_array_prefix [of xs r _ r'] by (cases t) auto
next
  case (JObject ms)
  have step: "x = y \<and> q = q'" if "(k, x) \<in> set ms" "json_events x @ q = json_events y @ q'" for k x y q q'
    using JObject.IH [OF that(1)] that(2) by simp
  show ?case using JObject.prems json_object_prefix [of ms r _ r'] step by (cases t) auto
qed

lemma json_events_inject [simp]: "json_events s = json_events t \<longleftrightarrow> s = t"
  using json_events_prefix [of s "[]" t "[]"] by auto

text \<open>
  RDF literals are determined by datatype, language tag and lexical form, and only those of datatype
  \<open>rdf:langString\<close> have a language tag.
\<close>

definition literal_contract :: "'l literal_api \<Rightarrow> bool" where
  "literal_contract api \<longleftrightarrow>
     (\<forall>l. (language_tag api l \<noteq> [] \<longleftrightarrow>
            datatype_iri api l = ''http://www.w3.org/1999/02/22-rdf-syntax-ns#langString'')) \<and>
     (\<forall>l m. datatype_iri api l = datatype_iri api m \<and> language_tag api l = language_tag api m \<and>
            lexical_form api l = lexical_form api m \<longrightarrow> l = m)"

lemma lang_not_string: "''http://www.w3.org/1999/02/22-rdf-syntax-ns#langString'' \<noteq> xsd_string"
  by (simp add: xsd_string_def)

lemma term_json_inject:
  assumes "literal_contract api" and "term_json api s = term_json api t"
    and "\<not> is_variable s" "s \<noteq> NullNode" "\<not> is_variable t" "t \<noteq> NullNode"
  shows "s = t"
proof (cases "\<exists>l m. s = Lit l \<and> t = Lit m")
  case True
  then obtain l m where st: "s = Lit l" "t = Lit m" by blast
  have "language_tag api x = [] \<longleftrightarrow>
      datatype_iri api x \<noteq> ''http://www.w3.org/1999/02/22-rdf-syntax-ns#langString''" for x
    using assms(1) unfolding literal_contract_def by blast
  note tags = this [of l] this [of m]
  have "datatype_iri api l = datatype_iri api m \<and> language_tag api l = language_tag api m \<and>
        lexical_form api l = lexical_form api m"
    using assms(2) tags lang_not_string unfolding st by (auto split: if_splits)
  with assms(1) st show ?thesis by (auto simp: literal_contract_def)
next
  case False
  with assms(2-) show ?thesis by (cases s; cases t) auto
qed

lemma bound_not_variable: "\<not> unprintable vars key \<Longrightarrow> b \<in> set (bound vars key) \<Longrightarrow> \<not> is_variable (fst b)"
  by (auto simp: unprintable_def)

lemma bound_inject:
  "distinct vars \<Longrightarrow> length k = length vars \<Longrightarrow> length l = length vars \<Longrightarrow>
   bound vars k = bound vars l \<Longrightarrow> k = l"
proof (induction vars arbitrary: k l)
  case Nil
  then show ?case by simp
next
  case (Cons v vars)
  then obtain s k' t l' where kl: "k = s # k'" "l = t # l'"
    by (metis length_Suc_conv)
  have tail: "(a, v) \<notin> set (bound vars m)" for a and m :: "'a node list"
    using Cons.prems(1) by (auto simp: bound_def dest: set_zip_rightD)
  have bc: "bound (v # vars) (a # m) = (if a = NullNode then [] else [(a, v)]) @ bound vars m"
    for a and m :: "'a node list"
    by (simp add: bound_def)
  have "s = t \<and> bound vars k' = bound vars l'"
    using Cons.prems(4) tail [of s l'] tail [of t k'] unfolding kl bc
    by (cases "s = NullNode"; cases "t = NullNode") (auto, metis list.set_intros(1))
  with Cons.IH [of k' l'] Cons.prems(1-3) kl show ?case by simp
qed

lemma map_bound_inject:
  assumes "literal_contract api"
    and "map (\<lambda>b. (snd b, term_json api (fst b))) xs = map (\<lambda>b. (snd b, term_json api (fst b))) ys"
    and "\<And>b. b \<in> set xs \<union> set ys \<Longrightarrow> fst b \<noteq> NullNode \<and> \<not> is_variable (fst b)"
  shows "xs = ys"
  using assms(2,3)
proof (induction xs arbitrary: ys)
  case Nil
  then show ?case by simp
next
  case (Cons x xs)
  then obtain y ys' where ys: "ys = y # ys'" by (cases ys) auto
  have "fst x = fst y"
    using Cons.prems ys by (intro term_json_inject [OF assms(1)]) simp_all
  moreover have "xs = ys'"
    using Cons.prems ys by (intro Cons.IH) auto
  ultimately show ?case using Cons.prems(1) ys by (simp add: prod_eq_iff)
qed

lemma solution_json_inject:
  assumes "literal_contract api" "distinct vars" "solution_json api vars k = solution_json api vars l"
    and "length k = length vars" "length l = length vars" "\<not> unprintable vars k" "\<not> unprintable vars l"
  shows "k = l"
proof (rule bound_inject [OF assms(2,4,5)], rule map_bound_inject [OF assms(1)])
  show "map (\<lambda>b. (snd b, term_json api (fst b))) (bound vars k) =
        map (\<lambda>b. (snd b, term_json api (fst b))) (bound vars l)"
    using assms(3) by (simp add: solution_json_def)
  show "fst b \<noteq> NullNode \<and> \<not> is_variable (fst b)" if "b \<in> set (bound vars k) \<union> set (bound vars l)" for b
    using that bound_not_variable [OF assms(6), of b] bound_not_variable [OF assms(7), of b]
    by (auto simp: bound_def)
qed

lemma results_json_inject:
  assumes "literal_contract api" "distinct vars" "results_json api vars ks = results_json api vars ls"
    and "\<And>k. k \<in> set ks \<union> set ls \<Longrightarrow> length k = length vars \<and> \<not> unprintable vars k"
  shows "ks = ls"
proof -
  have eq: "map (solution_json api vars) ks = map (solution_json api vars) ls"
    using assms(3) by (simp add: results_json_def)
  show ?thesis
  proof (rule map_inj_on [OF eq], rule inj_onI)
    fix k l
    assume "k \<in> set ks \<union> set ls" "l \<in> set ks \<union> set ls" "solution_json api vars k = solution_json api vars l"
    then show "k = l" using assms(4) by (intro solution_json_inject [OF assms(1,2)]) auto
  qed
qed

text \<open>
  C26. The document says it all: two results over the same distinct variables that are written with the
  same events have the same solutions, with the same multiplicities and in the same order. IRIs, blank
  nodes and literals of different type or language are never confused, and an unbound variable is not
  mistaken for a bound one.
\<close>

theorem document_determines_rows:
  assumes "literal_contract api" and "distinct (map var_name vs)"
    and "\<And>k. k \<in> set (rows es) \<union> set (rows es') \<Longrightarrow> length k = length vs"
    and "map_res (json_close emit) (mfold (json_add emit api) es (json_writer_new emit vs n)) = Inr w"
    and "map_res (json_close emit) (mfold (json_add emit api) es' (json_writer_new emit vs n)) = Inr w'"
    and "events w = events w'"
  shows "rows es = rows es'"
proof (rule results_json_inject [OF assms(1,2)])
  show "results_json api (map var_name vs) (rows es) = results_json api (map var_name vs) (rows es')"
    using assms(4-6) by (auto simp: json_adds_eq json_writer_new_eq json_close_def puts_eq
        results_json_events simp flip: json_events_inject split: if_splits)
  show "length k = length (map var_name vs) \<and> \<not> unprintable (map var_name vs) k"
    if "k \<in> set (rows es) \<union> set (rows es')" for k
    using that assms(3-5) by (auto simp: json_adds_eq json_writer_new_eq split: if_splits)
qed

text \<open>An instance: strings as literals, and one solution occurring twice.\<close>

definition string_literals :: "string literal_api" where
  "string_literals = \<lparr>datatype_iri = (\<lambda>_. xsd_string), language_tag = (\<lambda>_. []), lexical_form = (\<lambda>l. l)\<rparr>"

lemma string_literals_contract: "literal_contract string_literals"
  using lang_not_string by (auto simp: literal_contract_def string_literals_def)

definition sample_entries :: "(string node list \<times> size_t) list" where
  "sample_entries = [([IRI ''i'', NullNode], 2), ([Lit ''l'', BNode ''b''], 1)]"

definition sample_split :: "(string node list \<times> size_t) list" where
  "sample_split =
     [([IRI ''i'', NullNode], 1), ([IRI ''i'', NullNode], 1), ([Lit ''l'', BNode ''b''], 1)]"

lemma sample_rows:
  "rows sample_entries = [[IRI ''i'', NullNode], [IRI ''i'', NullNode], [Lit ''l'', BNode ''b'']]"
  "rows sample_split = [[IRI ''i'', NullNode], [IRI ''i'', NullNode], [Lit ''l'', BNode ''b'']]"
proof -
  have "replicate (2::nat) k = [k, k]" for k :: "string node list" by (simp add: numeral_2_eq_2)
  then show "rows sample_entries = [[IRI ''i'', NullNode], [IRI ''i'', NullNode], [Lit ''l'', BNode ''b'']]"
    by (simp add: sample_entries_def)
qed (simp add: sample_split_def)

lemma sample_sums: "sum_list (map snd sample_entries) = 3" "sum_list (map snd sample_split) = 3"
  by (simp_all add: sample_entries_def sample_split_def)

lemma sample_printable:
  "\<not> unprintable [''x'', ''y''] [IRI ''i'', NullNode]"
  "\<not> unprintable [''x'', ''y''] [Lit ''l'', BNode ''b'']"
  by (auto simp: unprintable_def bound_def)

lemma sample_runs:
  "\<exists>w. map_res (json_close (\<lambda>_ _. ''#'')) (mfold (json_add (\<lambda>_ _. ''#'') string_literals) sample_entries
         (json_writer_new (\<lambda>_ _. ''#'') [Variable ''x'' False, Variable ''y'' False] 10)) = Inr w \<and>
       map_res (json_close (\<lambda>_ _. ''#'')) (mfold (json_add (\<lambda>_ _. ''#'') string_literals) sample_split
         (json_writer_new (\<lambda>_ _. ''#'') [Variable ''x'' False, Variable ''y'' False] 10)) = Inr w"
  unfolding json_adds_eq json_writer_new_eq
  by (simp add: sample_rows sample_sums sample_printable)

theorem document_determines_rows_witness: "rows sample_entries = rows sample_split"
proof -
  obtain w where
    "map_res (json_close (\<lambda>_ _. ''#'')) (mfold (json_add (\<lambda>_ _. ''#'') string_literals) sample_entries
         (json_writer_new (\<lambda>_ _. ''#'') [Variable ''x'' False, Variable ''y'' False] 10)) = Inr w"
    "map_res (json_close (\<lambda>_ _. ''#'')) (mfold (json_add (\<lambda>_ _. ''#'') string_literals) sample_split
         (json_writer_new (\<lambda>_ _. ''#'') [Variable ''x'' False, Variable ''y'' False] 10)) = Inr w"
    using sample_runs by blast
  then show ?thesis
    by (intro document_determines_rows [OF string_literals_contract,
          of "[Variable ''x'' False, Variable ''y'' False]" _ _ "\<lambda>_ _. ''#''" 10 w w])
       (auto simp: sample_rows)
qed

end
