(* ===== verification/Operand_Graph.thy ===== *)
theory Operand_Graph
  imports Sparql_Syntax
begin

text \<open>
  The calls \<open>SelectAskQueryVisitor\<close> makes on the operand dependency graph: the loops of \<open>add_tp\<close>,
  \<open>group_dependencies\<close> and \<open>group_connections\<close>, as functions on the sequence of calls made so far.

  \<open>odg_contract\<close> names what the code relies on from the graph object, which is not part of the
  repository: operands get consecutive ids from 0 (the evaluator receives the tensor operands as a
  vector in the order of the triple patterns, so ids must be positions), and \<open>operand_var_ids\<close>
  returns the labels an operand was added with. Both are only claimed for at most 256 operands,
  since the visitor keeps ids as \<open>uint8_t\<close>.
\<close>

subsection \<open>Observations on a sequence of calls\<close>

fun operands :: "odg_call list \<Rightarrow> uint8 list list" where
  "operands [] = []"
| "operands (AddOperand vs # cs) = vs # operands cs"
| "operands (_ # cs) = operands cs"

lemma operands_append [simp]: "operands (xs @ ys) = operands xs @ operands ys"
  by (induction xs rule: operands.induct) auto

definition odg_contract :: "'l sparql_api \<Rightarrow> bool" where
  "odg_contract api \<longleftrightarrow>
     (\<forall>cs. length (operands cs) < 256 \<longrightarrow> odg_add_operand api cs = of_nat (length (operands cs))) \<and>
     (\<forall>cs k. k < length (operands cs) \<longrightarrow> length (operands cs) \<le> 256 \<longrightarrow>
        odg_operand_var_ids api cs (of_nat k) = operands cs ! k)"

subsection \<open>The loops of \<open>add_tp\<close>\<close>

fun tp_var_loop ::
  "uint8 \<Rightarrow> uint8 \<Rightarrow> uint8 \<Rightarrow> uint8 list \<Rightarrow> bool \<times> uint8 set \<times> odg_call list \<Rightarrow>
   bool \<times> uint8 set \<times> odg_call list" where
  "tp_var_loop it v_id var [] st = st"
| "tp_var_loop it v_id var (tp_var # tp_vars) (cart, seen, cs) =
     tp_var_loop it v_id var tp_vars
       (if var = tp_var
        then if var \<in> seen then (False, seen, cs)
             else (False, insert var seen,
                   cs @ [AddDependency it v_id (Some var), AddDependency v_id it (Some var)])
        else (cart, seen, cs))"

fun var_loop ::
  "uint8 \<Rightarrow> uint8 \<Rightarrow> uint8 list \<Rightarrow> uint8 list \<Rightarrow> bool \<times> uint8 set \<times> odg_call list \<Rightarrow>
   bool \<times> uint8 set \<times> odg_call list" where
  "var_loop it v_id tp_vars [] st = st"
| "var_loop it v_id tp_vars (var # var_ids) st =
     var_loop it v_id tp_vars var_ids (tp_var_loop it v_id var tp_vars st)"

definition link_operands :: "'l sparql_api \<Rightarrow> uint8 list \<Rightarrow> uint8 \<Rightarrow> uint8 \<Rightarrow> odg_call list \<Rightarrow> odg_call list" where
  "link_operands api var_ids v_id it cs =
     (case var_loop it v_id (odg_operand_var_ids api cs it) var_ids (True, {}, cs) of
        (cart, seen, cs') \<Rightarrow>
          if cart then cs' @ [AddDependency it v_id None, AddDependency v_id it None] else cs')"

definition link_group :: "'l sparql_api \<Rightarrow> uint8 list \<Rightarrow> uint8 \<Rightarrow> uint8 list \<Rightarrow> odg_call list \<Rightarrow> odg_call list" where
  "link_group api var_ids v_id gp cs = fold (link_operands api var_ids v_id) (rev gp) cs"

subsection \<open>The loops of \<open>group_dependencies\<close> and \<open>group_connections\<close>\<close>

fun label_loop ::
  "bool \<Rightarrow> uint8 \<Rightarrow> uint8 \<Rightarrow> uint8 list \<Rightarrow> uint8 list \<Rightarrow> bool \<times> odg_call list \<Rightarrow> bool \<times> odg_call list" where
  "label_loop bidir prev_tp cur_tp cur_labels [] st = st"
| "label_loop bidir prev_tp cur_tp cur_labels (prev_label # ls) (found, cs) =
     label_loop bidir prev_tp cur_tp cur_labels ls
       (if prev_label \<in> set cur_labels
        then (True, cs @ AddDependency prev_tp cur_tp (Some prev_label) #
                (if bidir then [AddDependency cur_tp prev_tp (Some prev_label)] else []))
        else (found, cs))"

definition depend :: "'l sparql_api \<Rightarrow> bool \<Rightarrow> uint8 \<Rightarrow> uint8 list \<Rightarrow> uint8 \<Rightarrow> odg_call list \<Rightarrow> odg_call list" where
  "depend api bidir prev_tp prev_labels cur_tp cs =
     (case label_loop bidir prev_tp cur_tp (odg_operand_var_ids api cs cur_tp) prev_labels (False, cs) of
        (found, cs') \<Rightarrow>
          if found then cs'
          else cs' @ AddDependency prev_tp cur_tp None #
                 (if bidir then [AddDependency cur_tp prev_tp None] else []))"

definition group_dependencies ::
  "'l sparql_api \<Rightarrow> uint8 list \<Rightarrow> uint8 list \<Rightarrow> bool \<Rightarrow> odg_call list \<Rightarrow> odg_call list" where
  "group_dependencies api prev_group cur_group bidir cs =
     fold (\<lambda>prev_tp cs.
             fold (depend api bidir prev_tp (odg_operand_var_ids api cs prev_tp)) cur_group cs)
       prev_group cs"

definition group_connections :: "uint8 list \<Rightarrow> uint8 list \<Rightarrow> odg_call list \<Rightarrow> odg_call list" where
  "group_connections prev_group cur_group cs =
     fold (\<lambda>prev_tp cs.
             fold (\<lambda>cur_tp cs. cs @ [AddConnection prev_tp cur_tp, AddConnection cur_tp prev_tp])
               cur_group cs)
       prev_group cs"

subsection \<open>What the loops add, in closed form\<close>

definition edge_pair :: "uint8 \<Rightarrow> uint8 \<Rightarrow> uint8 option \<Rightarrow> odg_call list" where
  "edge_pair a b l = [AddDependency a b l, AddDependency b a l]"

text \<open>
  The labels that join an operand with labels \<open>vs\<close> to one with labels \<open>ws\<close>, each once, or no label
  when they share none (a cartesian join).
\<close>

definition join_labels :: "uint8 list \<Rightarrow> uint8 list \<Rightarrow> uint8 option list" where
  "join_labels vs ws =
     (if set vs \<inter> set ws = {} then [None] else map Some (nub_acc {} (filter (\<lambda>v. v \<in> set ws) vs)))"

lemma tp_var_loop_eq:
  "tp_var_loop it v_id var ws (cart, seen, cs) =
     (if var \<in> set ws
      then (False, insert var seen, cs @ (if var \<in> seen then [] else edge_pair it v_id (Some var)))
      else (cart, seen, cs))"
  by (induction ws arbitrary: cart seen cs) (auto simp: edge_pair_def insert_absorb)

lemma var_loop_eq:
  "var_loop it v_id ws vs (cart, seen, cs) =
     (cart \<and> set vs \<inter> set ws = {}, seen \<union> (set vs \<inter> set ws),
      cs @ concat (map (\<lambda>v. edge_pair it v_id (Some v)) (nub_acc seen (filter (\<lambda>v. v \<in> set ws) vs))))"
  by (induction vs arbitrary: cart seen cs) (auto simp: tp_var_loop_eq insert_absorb)

lemma link_operands_eq:
  "link_operands api vs v_id it cs =
     cs @ concat (map (edge_pair it v_id) (join_labels vs (odg_operand_var_ids api cs it)))"
  by (auto simp: link_operands_def var_loop_eq join_labels_def edge_pair_def comp_def)

lemma label_loop_eq:
  "label_loop bidir a b ws vs (found, cs) =
     (found \<or> set vs \<inter> set ws \<noteq> {},
      cs @ concat (map (\<lambda>v. AddDependency a b (Some v) # (if bidir then [AddDependency b a (Some v)] else []))
                     (filter (\<lambda>v. v \<in> set ws) vs)))"
  by (induction vs arbitrary: found cs) auto

text \<open>
  \<open>group_dependencies\<close> does not remember which labels it has used: a label the earlier operand carries
  twice yields the edge twice.
\<close>

definition group_labels :: "uint8 list \<Rightarrow> uint8 list \<Rightarrow> uint8 option list" where
  "group_labels vs ws =
     (if set vs \<inter> set ws = {} then [None] else map Some (filter (\<lambda>v. v \<in> set ws) vs))"

definition group_edge :: "bool \<Rightarrow> uint8 \<Rightarrow> uint8 \<Rightarrow> uint8 option \<Rightarrow> odg_call list" where
  "group_edge bidir a b l = AddDependency a b l # (if bidir then [AddDependency b a l] else [])"

lemma depend_eq:
  "depend api bidir a vs b cs =
     cs @ concat (map (group_edge bidir a b) (group_labels vs (odg_operand_var_ids api cs b)))"
  by (auto simp: depend_def label_loop_eq group_labels_def group_edge_def comp_def)

lemma operands_edges [simp]:
  "operands (concat (map (edge_pair a b) ls)) = []"
  "operands (concat (map (group_edge bidir a b) ls)) = []"
  by (induction ls) (simp_all add: edge_pair_def group_edge_def)

lemma operands_link_operands [simp]: "operands (link_operands api vs v_id it cs) = operands cs"
  by (simp add: link_operands_eq)

lemma operands_link_group [simp]: "operands (link_group api vs v_id gp cs) = operands cs"
proof -
  have "operands (fold (link_operands api vs v_id) its cs) = operands cs" for its
    by (induction its arbitrary: cs) simp_all
  then show ?thesis by (simp add: link_group_def)
qed

lemma operands_depend [simp]: "operands (depend api bidir a vs b cs) = operands cs"
  by (simp add: depend_eq)

lemma operands_fold_depend [simp]: "operands (fold (depend api bidir a vs) bs cs) = operands cs"
  by (induction bs arbitrary: cs) simp_all

lemma operands_group_dependencies [simp]:
  "operands (group_dependencies api prev cur bidir cs) = operands cs"
  unfolding group_dependencies_def by (induction prev arbitrary: cs) simp_all

end
