(* ===== verification/Query_Visitor.thy ===== *)
theory Query_Visitor
  imports Term_Visitor Operand_Graph
begin

text \<open>
  \<open>SelectAskQueryVisitor\<close>: the state of the visitor and every \<open>visit\<close> operation that changes it.

  The members that are stacks of vectors are lists whose last element is \<open>back()\<close>. Reading or popping
  an empty stack is an \<open>EmptyVector\<close> failure, a null context a \<open>NullDeref\<close> failure, so that safety of
  the visitor is the statement that these results do not occur. \<open>visitWellDesignedPattern\<close> recurses
  over contexts it has stored in its own stacks; its recursion is bounded by a fuel argument, and
  \<open>visitGroupGraphPatternSub\<close> supplies the weight of the pattern.
\<close>

subsection \<open>State\<close>

record 'l visitor =
  query :: "'l sparql_query"
  active_subject :: "'l node"
  active_predicate :: "'l node"
  var_id :: uint8
  group_patterns :: "uint8 list list"
  opt_operands :: "uint8 list list"
  union_operands :: "uint8 list list"
  triples_blocks :: "triples_block_ctx list list"
  optional_blocks :: "group_graph_pattern_ctx list list"

text \<open>The visitor starts on a query, with the variable id \<open>'a'\<close> (97) next.\<close>

definition new_visitor :: "'l sparql_query \<Rightarrow> 'l visitor" where
  "new_visitor q = \<lparr>query = q, active_subject = NullNode, active_predicate = NullNode, var_id = 97,
     group_patterns = [], opt_operands = [], union_operands = [], triples_blocks = [], optional_blocks = []\<rparr>"

definition set_odg :: "odg_call list \<Rightarrow> 'l visitor \<Rightarrow> 'l visitor" where
  "set_odg cs s = s\<lparr>query := (query s)\<lparr>odg := cs\<rparr>\<rparr>"

subsection \<open>Variables and triple patterns\<close>

definition register_var :: "variable \<Rightarrow> 'l visitor \<Rightarrow> 'l visitor" where
  "register_var v s =
     (if var_to_id (query s) v \<noteq> None then s
      else s\<lparr>query := (query s)\<lparr>var_to_id := (var_to_id (query s))(v \<mapsto> var_id s)\<rparr>,
             var_id := var_id s + 1\<rparr>)"

definition register_node :: "'l node \<Rightarrow> 'l visitor \<Rightarrow> 'l visitor" where
  "register_node n s = (case n of VarNode v \<Rightarrow> register_var v s | _ \<Rightarrow> s)"

text \<open>\<open>operator[]\<close> of the map inserts a zero id for a variable it does not know.\<close>

fun tp_var_ids :: "variable list \<Rightarrow> (variable \<rightharpoonup> uint8) \<Rightarrow> uint8 list \<times> (variable \<rightharpoonup> uint8)" where
  "tp_var_ids [] m = ([], m)"
| "tp_var_ids (v # vs) m =
     (let m' = (if m v \<noteq> None then m else m(v \<mapsto> 0));
          (ids, m'') = tp_var_ids vs m'
      in (the (m' v) # ids, m''))"

definition add_tp :: "'l sparql_api \<Rightarrow> 'l triple_pattern \<Rightarrow> 'l visitor \<Rightarrow> exn + 'l visitor" where
  "add_tp api tp s =
     (let q = query s;
          (var_ids, m) = tp_var_ids (pattern_vars tp) (var_to_id q);
          v_id = odg_add_operand api (odg q);
          cs = odg q @ [AddOperand var_ids]
      in bind_res (back_of (group_patterns s)) (\<lambda>gp.
         bind_res (modify_back (\<lambda>g. g @ [v_id]) (group_patterns s)) (\<lambda>gps.
         Inr (s\<lparr>query := q\<lparr>var_to_id := m, odg := link_group api var_ids v_id gp cs\<rparr>,
                group_patterns := gps\<rparr>))))"

definition visitObject :: "'l sparql_api \<Rightarrow> var_or_term_ctx option \<Rightarrow> 'l visitor \<Rightarrow> exn + 'l visitor" where
  "visitObject api ctx s =
     (case ctx of
        None \<Rightarrow> Inl (RuntimeError ''not supported'')
      | Some c \<Rightarrow>
          bind_res (visitVarOrTerm api (prefixes (query s)) c) (\<lambda>obj.
            (let s1 = register_node obj s;
                 tp = (active_subject s1, active_predicate s1, obj)
             in add_tp api tp
                  (s1\<lparr>query := (query s1)\<lparr>triple_patterns := triple_patterns (query s1) @ [tp]\<rparr>\<rparr>))))"

definition visitObjectList :: "'l sparql_api \<Rightarrow> object_list_ctx \<Rightarrow> 'l visitor \<Rightarrow> exn + 'l visitor" where
  "visitObjectList api ctx s = mfold (visitObject api) ctx s"

definition visitVerb :: "'l sparql_api \<Rightarrow> verb_ctx \<Rightarrow> 'l visitor \<Rightarrow> exn + 'l visitor" where
  "visitVerb api ctx s =
     (case verbPath ctx of
        Some p \<Rightarrow>
          bind_res (visitPath api (prefixes (query s)) p) (\<lambda>n. Inr (s\<lparr>active_predicate := n\<rparr>))
      | None \<Rightarrow>
          (case verbSimple ctx of
             None \<Rightarrow> Inl NullDeref
           | Some v \<Rightarrow>
               bind_res (visitVar v) (\<lambda>v. Inr ((register_var v s)\<lparr>active_predicate := VarNode v\<rparr>))))"

definition visitProperty ::
  "'l sparql_api \<Rightarrow> verb_ctx \<times> object_list_ctx option \<Rightarrow> 'l visitor \<Rightarrow> exn + 'l visitor" where
  "visitProperty api vo s =
     bind_res (visitVerb api (fst vo) s) (\<lambda>s.
       (case snd vo of
          None \<Rightarrow> Inl (RuntimeError ''Triple requires at least one object'')
        | Some os \<Rightarrow> visitObjectList api os s))"

definition visitPropertyListPathNotEmpty ::
  "'l sparql_api \<Rightarrow> property_list_ctx \<Rightarrow> 'l visitor \<Rightarrow> exn + 'l visitor" where
  "visitPropertyListPathNotEmpty api ctx s =
     bind_res (visitProperty api (first_verb ctx, objectListPath ctx) s)
       (mfold (visitProperty api) (propertyListPathNotEmptyList ctx))"

definition visitTriplesSameSubjectPath ::
  "'l sparql_api \<Rightarrow> triples_same_subject_path_ctx \<Rightarrow> 'l visitor \<Rightarrow> exn + 'l visitor" where
  "visitTriplesSameSubjectPath api ctx s =
     (case (subject_varOrTerm ctx, propertyListPathNotEmpty ctx) of
        (Some vt, Some pl) \<Rightarrow>
          bind_res (visitVarOrTerm api (prefixes (query s)) vt) (\<lambda>n.
            visitPropertyListPathNotEmpty api pl (register_node n (s\<lparr>active_subject := n\<rparr>)))
      | _ \<Rightarrow> Inr s)"

definition visitTriplesBlock :: "'l sparql_api \<Rightarrow> triples_block_ctx \<Rightarrow> 'l visitor \<Rightarrow> exn + 'l visitor" where
  "visitTriplesBlock api ctx s = mfold (visitTriplesSameSubjectPath api) ctx s"

subsection \<open>Graph patterns\<close>

text \<open>Storing contexts for later: the loop of lines 94 to 110.\<close>

definition push_triples :: "triples_block_ctx \<Rightarrow> 'l visitor \<Rightarrow> exn + 'l visitor" where
  "push_triples tb s =
     bind_res (modify_back (\<lambda>l. l @ [tb]) (triples_blocks s)) (\<lambda>x. Inr (s\<lparr>triples_blocks := x\<rparr>))"

definition push_optional :: "group_graph_pattern_ctx \<Rightarrow> 'l visitor \<Rightarrow> exn + 'l visitor" where
  "push_optional opt s =
     bind_res (modify_back (\<lambda>l. l @ [opt]) (optional_blocks s)) (\<lambda>x. Inr (s\<lparr>optional_blocks := x\<rparr>))"

definition collect_item ::
  "group_graph_pattern_sub_list_ctx \<Rightarrow> group_or_union_ctx list \<times> 'l visitor \<Rightarrow>
   exn + group_or_union_ctx list \<times> 'l visitor" where
  "collect_item ctx gs =
     bind_res
       (case graphPatternNotTriples ctx of
          None \<Rightarrow> Inr gs
        | Some nt \<Rightarrow>
            (case groupOrUnionGraphPattern nt of
               Some gou \<Rightarrow> Inr (fst gs @ [gou], snd gs)
             | None \<Rightarrow>
                 (case optionalGraphPattern nt of
                    Some opt \<Rightarrow> bind_res (push_optional opt (snd gs)) (\<lambda>s. Inr (fst gs, s))
                  | None \<Rightarrow> Inr gs)))
       (\<lambda>gs. case list_triplesBlock ctx of
               None \<Rightarrow> Inr gs
             | Some tb \<Rightarrow> bind_res (push_triples tb (snd gs)) (\<lambda>s. Inr (fst gs, s)))"

definition collect ::
  "group_graph_pattern_sub_ctx \<Rightarrow> group_or_union_ctx list \<Rightarrow> 'l visitor \<Rightarrow>
   exn + group_or_union_ctx list \<times> 'l visitor" where
  "collect ctx gous s =
     bind_res (case triplesBlock ctx of None \<Rightarrow> Inr s | Some tb \<Rightarrow> push_triples tb s)
       (\<lambda>s. mfold collect_item (groupGraphPatternSubList ctx) (gous, s))"

text \<open>
  The dependencies of an optional pattern: those on its parent group, then connections to the
  operands of sibling optional patterns that are not of the same union (lines 118 to 135).
\<close>

definition connect_sibling :: "uint8 \<Rightarrow> uint8 \<Rightarrow> 'l visitor \<Rightarrow> exn + 'l visitor" where
  "connect_sibling cur_op opt_op s =
     bind_res (back_of (union_operands s)) (\<lambda>us.
       if opt_op \<in> set us then Inr s
       else Inr (set_odg (odg (query s) @ [AddConnection cur_op opt_op, AddConnection opt_op cur_op]) s))"

definition store_operand :: "uint8 \<Rightarrow> 'l visitor \<Rightarrow> exn + 'l visitor" where
  "store_operand cur_op s =
     bind_res (modify_back (\<lambda>l. l @ [cur_op]) (union_operands s)) (\<lambda>us.
     bind_res (modify_back (\<lambda>l. l @ [cur_op]) (opt_operands s)) (\<lambda>os.
     Inr (s\<lparr>union_operands := us, opt_operands := os\<rparr>)))"

definition parent_group :: "'a list list \<Rightarrow> exn + 'a list" where
  "parent_group gps = (if length gps < 2 then Inl EmptyVector else Inr (gps ! (length gps - 2)))"

definition connect_optional :: "'l sparql_api \<Rightarrow> 'l visitor \<Rightarrow> exn + 'l visitor" where
  "connect_optional api s =
     bind_res (parent_group (group_patterns s)) (\<lambda>prev.
     bind_res (back_of (group_patterns s)) (\<lambda>cur.
     bind_res (mfold (\<lambda>cur_op s.
                 bind_res (back_of (opt_operands s)) (\<lambda>os. mfold (connect_sibling cur_op) os s))
               cur (set_odg (group_dependencies api prev cur False (odg (query s))) s))
       (mfold store_operand cur)))"

definition visit_group :: "'l sparql_api \<Rightarrow> triples_block_ctx list \<Rightarrow> 'l visitor \<Rightarrow> exn + 'l visitor" where
  "visit_group api tbs s =
     bind_res (mfold (visitTriplesBlock api) tbs s)
       (\<lambda>s. if opt_operands s = [] then Inr s else connect_optional api s)"

text \<open>Entering and leaving an optional pattern (lines 141 to 151).\<close>

definition enter_pattern :: "'l visitor \<Rightarrow> 'l visitor" where
  "enter_pattern s =
     s\<lparr>group_patterns := group_patterns s @ [ [] ], triples_blocks := triples_blocks s @ [ [] ],
       optional_blocks := optional_blocks s @ [ [] ]\<rparr>"

definition leave_pattern :: "'l visitor \<Rightarrow> exn + 'l visitor" where
  "leave_pattern s =
     bind_res (pop_back (optional_blocks s)) (\<lambda>ob.
     bind_res (pop_back (triples_blocks s)) (\<lambda>tb.
     bind_res (pop_back (group_patterns s)) (\<lambda>gp.
     Inr (s\<lparr>optional_blocks := ob, triples_blocks := tb, group_patterns := gp\<rparr>))))"

definition leave_optional :: "'l visitor \<Rightarrow> exn + 'l visitor" where
  "leave_optional s =
     bind_res (modify_back (\<lambda>_. []) (union_operands s)) (\<lambda>us.
     leave_pattern (s\<lparr>union_operands := us\<rparr>))"

definition open_optionals :: "'l visitor \<Rightarrow> 'l visitor" where
  "open_optionals s =
     s\<lparr>opt_operands := opt_operands s @ [ [] ], union_operands := union_operands s @ [ [] ]\<rparr>"

definition close_optionals :: "'l visitor \<Rightarrow> exn + 'l visitor" where
  "close_optionals s =
     bind_res (pop_back (union_operands s)) (\<lambda>us.
     bind_res (pop_back (opt_operands s)) (\<lambda>os.
     bind_res (modify_back (\<lambda>_. []) (group_patterns s)) (\<lambda>gps.
     Inr (s\<lparr>union_operands := us, opt_operands := os, group_patterns := gps\<rparr>))))"

text \<open>
  \<open>std::vector::resize\<close> on the top of the two context stacks. Growing a vector would fill it with
  null contexts.
\<close>

definition resize_back :: "nat \<Rightarrow> 'a list list \<Rightarrow> exn + 'a list list" where
  "resize_back n xs =
     bind_res (back_of xs) (\<lambda>l. if length l < n then Inl NullDeref else modify_back (take n) xs)"

definition restore_blocks :: "nat \<Rightarrow> nat \<Rightarrow> 'l visitor \<Rightarrow> exn + 'l visitor" where
  "restore_blocks current_tbs current_opts s =
     bind_res (resize_back current_tbs (triples_blocks s)) (\<lambda>tb.
     bind_res (resize_back current_opts (optional_blocks s)) (\<lambda>ob.
     Inr (s\<lparr>triples_blocks := tb, optional_blocks := ob\<rparr>)))"

fun visitWellDesignedPattern ::
  "nat \<Rightarrow> 'l sparql_api \<Rightarrow> group_graph_pattern_sub_ctx option \<Rightarrow> group_or_union_ctx list \<Rightarrow>
   'l visitor \<Rightarrow> exn + 'l visitor" where
  "visitWellDesignedPattern 0 api ctx gous s = Inl OutOfFuel"
| "visitWellDesignedPattern (Suc n) api None gous s = Inl NullDeref"
| "visitWellDesignedPattern (Suc n) api (Some ctx) gous s =
     bind_res (collect ctx gous s) (\<lambda>(gous, s).
       if gous = []
       then
         bind_res (back_of (triples_blocks s)) (\<lambda>tbs.
         bind_res (visit_group api tbs s) (\<lambda>s.
         bind_res (back_of (optional_blocks s)) (\<lambda>opts.
         bind_res
           (mfold (\<lambda>opt s.
                bind_res (visitWellDesignedPattern n api (groupGraphPatternSub opt) [] (enter_pattern s))
                  leave_optional)
              opts (open_optionals s))
           close_optionals)))
       else
         bind_res (back_of (triples_blocks s)) (\<lambda>tbs.
         bind_res (back_of (optional_blocks s)) (\<lambda>opts.
         mfold (\<lambda>grp s.
              bind_res (visitWellDesignedPattern n api (groupGraphPatternSub grp) (butlast gous) s)
                (restore_blocks (length tbs) (length opts)))
           (last gous) s)))"

definition visitGroupGraphPatternSub ::
  "'l sparql_api \<Rightarrow> group_graph_pattern_sub_ctx \<Rightarrow> 'l visitor \<Rightarrow> exn + 'l visitor" where
  "visitGroupGraphPatternSub api ctx s = visitWellDesignedPattern (sub_weight ctx) api (Some ctx) [] s"

definition visitGroupGraphPattern ::
  "'l sparql_api \<Rightarrow> group_graph_pattern_ctx \<Rightarrow> 'l visitor \<Rightarrow> exn + 'l visitor" where
  "visitGroupGraphPattern api ctx s =
     (if subSelect ctx then Inl (RuntimeError ''Subqueries are not supported yet'')
      else case groupGraphPatternSub ctx of
             Some c \<Rightarrow> visitGroupGraphPatternSub api c s
           | None \<Rightarrow> Inl (RuntimeError ''Malformed query''))"

definition visitWhereClause ::
  "'l sparql_api \<Rightarrow> group_graph_pattern_ctx \<Rightarrow> 'l visitor \<Rightarrow> exn + 'l visitor" where
  "visitWhereClause api ctx s = bind_res (visitGroupGraphPattern api ctx (enter_pattern s)) leave_pattern"

subsection \<open>Queries\<close>

text \<open>\<open>SELECT *\<close>: the non-anonymous variables of the triple patterns, each when first seen.\<close>

fun project_star :: "'l node list \<Rightarrow> variable set \<Rightarrow> variable list \<Rightarrow> variable list" where
  "project_star [] seen_vars proj = proj"
| "project_star (VarNode v # ns) seen_vars proj =
     (if is_anonymous v \<or> v \<in> seen_vars then project_star ns seen_vars proj
      else project_star ns (insert v seen_vars) (proj @ [v]))"
| "project_star (_ # ns) seen_vars proj = project_star ns seen_vars proj"

definition select_variable :: "var_ctx option \<Rightarrow> 'l visitor \<Rightarrow> exn + 'l visitor" where
  "select_variable sel s =
     (case sel of
        None \<Rightarrow> Inl (RuntimeError ''Expressions in SELECT clause are not supported yet.'')
      | Some c \<Rightarrow>
          bind_res (visitVar c) (\<lambda>v.
            let s1 = register_var v s
            in Inr (s1\<lparr>query := (query s1)\<lparr>projected_variables := projected_variables (query s1) @ [v]\<rparr>\<rparr>)))"

definition visitSelectClause :: "'l sparql_api \<Rightarrow> select_clause_ctx \<Rightarrow> 'l visitor \<Rightarrow> exn + 'l visitor" where
  "visitSelectClause api ctx s =
     (let s1 = (if selectModifier_DISTINCT ctx = Some True
                then s\<lparr>query := (query s)\<lparr>distinct_flag := True\<rparr>\<rparr> else s)
      in bind_res
           (if ASTERISK ctx
            then Inr (s1\<lparr>query := (query s1)\<lparr>project_all_variables := True,
                   projected_variables :=
                     project_star (concat (map nodes_of (triple_patterns (query s1)))) {}
                       (projected_variables (query s1))\<rparr>\<rparr>)
            else mfold select_variable (selectVariables ctx) s1)
           (\<lambda>s2. if projected_variables (query s2) = []
                 then Inl (RuntimeError ''At least one variable should be projected.'') else Inr s2))"

definition visitSelectQuery :: "'l sparql_api \<Rightarrow> select_query_ctx \<Rightarrow> 'l visitor \<Rightarrow> exn + 'l visitor" where
  "visitSelectQuery api ctx s =
     (case select_whereClause ctx of
        None \<Rightarrow> Inl (RuntimeError ''Query does not contain a WHERE clause'')
      | Some w \<Rightarrow> bind_res (visitWhereClause api w s) (visitSelectClause api (selectClause ctx)))"

definition visitAskQuery :: "'l sparql_api \<Rightarrow> ask_query_ctx \<Rightarrow> 'l visitor \<Rightarrow> exn + 'l visitor" where
  "visitAskQuery api ctx s =
     (case ask_whereClause ctx of
        None \<Rightarrow> Inl (RuntimeError ''Query does not contain a WHERE clause'')
      | Some w \<Rightarrow> visitWhereClause api w s)"

text \<open>
  \<open>SPARQLQuery::parse\<close> after the ANTLR parser has produced its tree; \<open>parse_string\<close> composes it with
  that parser, a function from strings to trees.
\<close>

definition sparql_parse :: "'l sparql_api \<Rightarrow> query_ctx \<Rightarrow> exn + 'l sparql_query" where
  "sparql_parse api ctx =
     (if selectQuery ctx = None \<and> askQuery ctx = None
      then Inl (RuntimeError ''Only SELECT & ASK queries are supported currently.'')
      else
        bind_res (case prologue ctx of None \<Rightarrow> Inr new_query | Some p \<Rightarrow> visitPrologue p new_query) (\<lambda>q.
        bind_res
          (case selectQuery ctx of
             Some c \<Rightarrow> visitSelectQuery api c (new_visitor q)
           | None \<Rightarrow>
               (case askQuery ctx of
                  Some c \<Rightarrow> visitAskQuery api c (new_visitor q)
                | None \<Rightarrow> Inr (new_visitor q)))
          (\<lambda>s. Inr (query s))))"

definition parse_string :: "'l sparql_api \<Rightarrow> (string \<Rightarrow> query_ctx) \<Rightarrow> string \<Rightarrow> exn + 'l sparql_query" where
  "parse_string api antlr str = sparql_parse api (antlr str)"

end
