(* ===== verification/Query_Script.thy ===== *)
theory Query_Script
  imports Query_Visitor
begin

text \<open>
  What \<open>visitWellDesignedPattern\<close> does, without its context stacks.

  The visitor stores parse-tree contexts in two stacks of its own and recurses over what it has
  stored. The refinement lemma of this theory shows that, with enough fuel, the whole recursion is the
  execution of a linear \<^emph>\<open>script\<close>, a list of events computed from the pattern alone, and that the
  stacks are restored; the failures agree too. Everything about the visitor that does not concern
  single triples is then proved on scripts: that they are well bracketed (so no stack is popped or read
  when empty), which groups they visit, and, through the locale \<open>visitor_invariant\<close>, invariants of the
  visitor's state.
\<close>

subsection \<open>Events and scripts\<close>

datatype event =
    EvGroup "triples_block_ctx list"
  | EvOpen
  | EvEnter
  | EvLeave
  | EvClose
  | EvNull

fun run_event :: "'l sparql_api \<Rightarrow> event \<Rightarrow> 'l visitor \<Rightarrow> exn + 'l visitor" where
  "run_event api (EvGroup tbs) s = visit_group api tbs s"
| "run_event api EvOpen s = Inr (open_optionals s)"
| "run_event api EvEnter s = Inr (s\<lparr>group_patterns := group_patterns s @ [ [] ]\<rparr>)"
| "run_event api EvLeave s =
     bind_res (modify_back (\<lambda>_. []) (union_operands s)) (\<lambda>us.
     bind_res (pop_back (group_patterns s)) (\<lambda>gp. Inr (s\<lparr>union_operands := us, group_patterns := gp\<rparr>)))"
| "run_event api EvClose s = close_optionals s"
| "run_event api EvNull s = Inl NullDeref"

text \<open>The three kinds of contexts a pattern contributes.\<close>

definition option_list :: "'a option \<Rightarrow> 'a list" where
  "option_list x = (case x of None \<Rightarrow> [] | Some y \<Rightarrow> [y])"

lemma option_list_simps [simp]: "option_list None = []" "option_list (Some x) = [x]"
  by (simp_all add: option_list_def)

definition item_gous :: "group_graph_pattern_sub_list_ctx \<Rightarrow> group_or_union_ctx list" where
  "item_gous ctx = option_list (Option.bind (graphPatternNotTriples ctx) groupOrUnionGraphPattern)"

definition item_opts :: "group_graph_pattern_sub_list_ctx \<Rightarrow> group_graph_pattern_ctx list" where
  "item_opts ctx =
     option_list (Option.bind (graphPatternNotTriples ctx)
       (\<lambda>nt. if groupOrUnionGraphPattern nt = None then optionalGraphPattern nt else None))"

definition ctx_gous :: "group_graph_pattern_sub_ctx \<Rightarrow> group_or_union_ctx list" where
  "ctx_gous ctx = concat (map item_gous (groupGraphPatternSubList ctx))"

definition ctx_opts :: "group_graph_pattern_sub_ctx \<Rightarrow> group_graph_pattern_ctx list" where
  "ctx_opts ctx = concat (map item_opts (groupGraphPatternSubList ctx))"

definition ctx_tbs :: "group_graph_pattern_sub_ctx \<Rightarrow> triples_block_ctx list" where
  "ctx_tbs ctx =
     option_list (triplesBlock ctx) @
     concat (map (\<lambda>i. option_list (list_triplesBlock i)) (groupGraphPatternSubList ctx))"

definition gous_weight :: "group_or_union_ctx list \<Rightarrow> nat" where
  "gous_weight gous = sum_list (map (\<lambda>g. sum_list (map ggp_weight g)) gous)"

definition opts_weight :: "group_graph_pattern_ctx list \<Rightarrow> nat" where
  "opts_weight opts = sum_list (map ggp_weight opts)"

lemma weight_simps [simp]:
  "gous_weight [] = 0" "gous_weight (g # gs) = sum_list (map ggp_weight g) + gous_weight gs"
  "gous_weight (gs @ gs') = gous_weight gs + gous_weight gs'"
  "opts_weight [] = 0" "opts_weight (p # ps) = ggp_weight p + opts_weight ps"
  "opts_weight (ps @ ps') = opts_weight ps + opts_weight ps'"
  by (simp_all add: gous_weight_def opts_weight_def)

lemma item_weight_split: "item_weight i = gous_weight (item_gous i) + opts_weight (item_opts i)"
proof (cases "graphPatternNotTriples i")
  case None
  then show ?thesis by (cases i) (simp add: item_gous_def item_opts_def)
next
  case (Some nt)
  then show ?thesis
    by (cases i; cases nt rule: not_triples_weight.cases) (simp_all add: item_gous_def item_opts_def)
qed

lemma sub_weight_split: "sub_weight ctx = Suc (gous_weight (ctx_gous ctx) + opts_weight (ctx_opts ctx))"
proof -
  have "sum_list (map item_weight is) =
      gous_weight (concat (map item_gous is)) + opts_weight (concat (map item_opts is))" for "is"
    by (induction "is") (simp_all add: item_weight_split)
  then show ?thesis by (cases ctx) (simp add: ctx_gous_def ctx_opts_def)
qed

lemma ggp_weight_pos: "0 < ggp_weight g"
  by (cases g rule: ggp_weight.cases) (auto simp: sub_weight_split)

lemma opt_weight_le: "p \<in> set ps \<Longrightarrow> ggp_weight p \<le> opts_weight ps"
  unfolding opts_weight_def by (rule member_le_sum_list) simp_all

lemma alt_weight_le:
  assumes "gous \<noteq> []" and "a \<in> set (last gous)"
  shows "ggp_weight a + gous_weight (butlast gous) \<le> gous_weight gous"
proof -
  have "ggp_weight a \<le> sum_list (map ggp_weight (last gous))"
    using assms(2) by (intro member_le_sum_list) simp_all
  moreover have "gous_weight gous = gous_weight (butlast gous @ [last gous])"
    using assms(1) by simp
  ultimately show ?thesis by simp
qed

function script ::
  "group_graph_pattern_sub_ctx option \<Rightarrow> group_or_union_ctx list \<Rightarrow> triples_block_ctx list \<Rightarrow>
   group_graph_pattern_ctx list \<Rightarrow> event list" where
  "script None gous tbs opts = [EvNull]"
| "script (Some ctx) gous tbs opts =
     (if gous @ ctx_gous ctx = []
      then EvGroup (tbs @ ctx_tbs ctx) # EvOpen #
             concat (map (\<lambda>p. EvEnter # script (groupGraphPatternSub p) [] [] [] @ [EvLeave])
                       (opts @ ctx_opts ctx)) @ [EvClose]
      else concat (map (\<lambda>a. script (groupGraphPatternSub a) (butlast (gous @ ctx_gous ctx))
                              (tbs @ ctx_tbs ctx) (opts @ ctx_opts ctx))
                     (last (gous @ ctx_gous ctx))))"
  by pat_completeness auto

lemma opt_sub_weight_Some [simp]: "opt_sub_weight (Some ctx) = sub_weight ctx"
  by (simp add: opt_sub_weight_def)

definition pattern_weight ::
  "group_graph_pattern_sub_ctx option \<Rightarrow> group_or_union_ctx list \<Rightarrow> group_graph_pattern_ctx list \<Rightarrow> nat" where
  "pattern_weight ctx gous opts = opt_sub_weight ctx + gous_weight gous + opts_weight opts"

lemma pattern_weight_opt:
  assumes "p \<in> set (opts @ ctx_opts ctx)"
  shows "pattern_weight (groupGraphPatternSub p) [] [] < pattern_weight (Some ctx) gous opts"
  using opt_weight_le [OF assms] by (simp add: pattern_weight_def sub_weight_split)

lemma pattern_weight_alt:
  assumes "gous @ ctx_gous ctx \<noteq> []" and "a \<in> set (last (gous @ ctx_gous ctx))"
  shows "pattern_weight (groupGraphPatternSub a) (butlast (gous @ ctx_gous ctx)) (opts @ ctx_opts ctx)
         < pattern_weight (Some ctx) gous opts"
  using alt_weight_le [OF assms] by (simp add: pattern_weight_def sub_weight_split)

termination script
proof (relation "measure (\<lambda>(ctx, gous, tbs, opts). pattern_weight ctx gous opts)", goal_cases)
  case 1
  show ?case by simp
next
  case (2 ctx gous tbs opts p)
  then show ?case using pattern_weight_opt [of p opts ctx gous] by simp
next
  case (3 ctx gous tbs opts a)
  then show ?case using pattern_weight_alt [of gous ctx a opts] by simp
qed

declare script.simps(2) [simp del]

subsection \<open>The visitor's stacks of contexts do not matter to events\<close>

definition with_blocks ::
  "triples_block_ctx list list \<Rightarrow> group_graph_pattern_ctx list list \<Rightarrow> 'l visitor \<Rightarrow> 'l visitor" where
  "with_blocks T B s = s\<lparr>triples_blocks := T, optional_blocks := B\<rparr>"

lemma with_blocks_simps [simp]:
  "query (with_blocks T B s) = query s"
  "active_subject (with_blocks T B s) = active_subject s"
  "active_predicate (with_blocks T B s) = active_predicate s"
  "var_id (with_blocks T B s) = var_id s"
  "group_patterns (with_blocks T B s) = group_patterns s"
  "opt_operands (with_blocks T B s) = opt_operands s"
  "union_operands (with_blocks T B s) = union_operands s"
  "triples_blocks (with_blocks T B s) = T"
  "optional_blocks (with_blocks T B s) = B"
  "with_blocks T B (with_blocks T' B' s) = with_blocks T B s"
  by (simp_all add: with_blocks_def)

lemma with_blocks_updates:
  "(with_blocks T B s)\<lparr>query := q\<rparr> = with_blocks T B (s\<lparr>query := q\<rparr>)"
  "(with_blocks T B s)\<lparr>active_subject := n\<rparr> = with_blocks T B (s\<lparr>active_subject := n\<rparr>)"
  "(with_blocks T B s)\<lparr>active_predicate := n\<rparr> = with_blocks T B (s\<lparr>active_predicate := n\<rparr>)"
  "(with_blocks T B s)\<lparr>var_id := i\<rparr> = with_blocks T B (s\<lparr>var_id := i\<rparr>)"
  "(with_blocks T B s)\<lparr>group_patterns := gp\<rparr> = with_blocks T B (s\<lparr>group_patterns := gp\<rparr>)"
  "(with_blocks T B s)\<lparr>opt_operands := os\<rparr> = with_blocks T B (s\<lparr>opt_operands := os\<rparr>)"
  "(with_blocks T B s)\<lparr>union_operands := us\<rparr> = with_blocks T B (s\<lparr>union_operands := us\<rparr>)"
  "(with_blocks T B s)\<lparr>triples_blocks := T'\<rparr> = with_blocks T' B s"
  "(with_blocks T B s)\<lparr>optional_blocks := B'\<rparr> = with_blocks T B' s"
  by (simp_all add: with_blocks_def)

lemma with_blocks_self: "triples_blocks s = T \<Longrightarrow> optional_blocks s = B \<Longrightarrow> with_blocks T B s = s"
  by (simp add: with_blocks_def)

text \<open>Each operation on triples, and each event, commutes with exchanging the two stacks.\<close>

named_theorems blocks_commute

lemma register_blocks [blocks_commute]:
  "register_var v (with_blocks T B s) = with_blocks T B (register_var v s)"
  by (simp add: register_var_def with_blocks_updates)

lemma register_node_blocks [blocks_commute]:
  "register_node n (with_blocks T B s) = with_blocks T B (register_node n s)"
  by (simp add: register_node_def blocks_commute split: node.split)

lemma set_odg_blocks [blocks_commute]: "set_odg cs (with_blocks T B s) = with_blocks T B (set_odg cs s)"
  by (simp add: set_odg_def with_blocks_updates)

lemma add_tp_blocks [blocks_commute]:
  "add_tp api tp (with_blocks T B s) = map_res (with_blocks T B) (add_tp api tp s)"
  by (simp add: add_tp_def Let_def map_res_bind with_blocks_updates split: prod.split)

lemma visitObject_blocks [blocks_commute]:
  "visitObject api c (with_blocks T B s) = map_res (with_blocks T B) (visitObject api c s)"
  by (simp add: visitObject_def Let_def map_res_bind blocks_commute with_blocks_updates split: option.split)

lemma visitObjectList_blocks [blocks_commute]:
  "visitObjectList api c (with_blocks T B s) = map_res (with_blocks T B) (visitObjectList api c s)"
  unfolding visitObjectList_def by (rule mfold_commute) (simp add: blocks_commute)

lemma visitVerb_blocks [blocks_commute]:
  "visitVerb api c (with_blocks T B s) = map_res (with_blocks T B) (visitVerb api c s)"
  by (simp add: visitVerb_def map_res_bind blocks_commute with_blocks_updates split: option.split)

lemma visitProperty_blocks [blocks_commute]:
  "visitProperty api c (with_blocks T B s) = map_res (with_blocks T B) (visitProperty api c s)"
  by (cases "snd c") (simp_all add: visitProperty_def map_res_bind bind_map_res blocks_commute)

lemma visitPropertyList_blocks [blocks_commute]:
  "visitPropertyListPathNotEmpty api c (with_blocks T B s) =
     map_res (with_blocks T B) (visitPropertyListPathNotEmpty api c s)"
  by (simp add: visitPropertyListPathNotEmpty_def map_res_bind bind_map_res blocks_commute
      mfold_commute [of "visitProperty api", OF visitProperty_blocks])

lemma visitTriplesSameSubjectPath_blocks [blocks_commute]:
  "visitTriplesSameSubjectPath api c (with_blocks T B s) =
     map_res (with_blocks T B) (visitTriplesSameSubjectPath api c s)"
  by (simp add: visitTriplesSameSubjectPath_def map_res_bind blocks_commute with_blocks_updates
      split: option.split)

lemma visitTriplesBlock_blocks [blocks_commute]:
  "visitTriplesBlock api c (with_blocks T B s) = map_res (with_blocks T B) (visitTriplesBlock api c s)"
  unfolding visitTriplesBlock_def by (rule mfold_commute) (simp add: blocks_commute)

lemma connect_sibling_blocks [blocks_commute]:
  "connect_sibling c p (with_blocks T B s) = map_res (with_blocks T B) (connect_sibling c p s)"
  by (simp add: connect_sibling_def map_res_bind blocks_commute)
     (cases "back_of (union_operands s)", simp_all add: blocks_commute)

lemma store_operand_blocks [blocks_commute]:
  "store_operand c (with_blocks T B s) = map_res (with_blocks T B) (store_operand c s)"
  by (simp add: store_operand_def map_res_bind with_blocks_updates)

lemma connect_optional_blocks [blocks_commute]:
  "connect_optional api (with_blocks T B s) = map_res (with_blocks T B) (connect_optional api s)"
proof -
  let ?f = "\<lambda>cur_op s. bind_res (back_of (opt_operands s)) (\<lambda>os. mfold (connect_sibling cur_op) os s)"
  have "?f c (with_blocks T B t) = map_res (with_blocks T B) (?f c t)" for c t
    by (simp add: map_res_bind mfold_commute [of "connect_sibling c", OF connect_sibling_blocks])
  note loop1 = mfold_commute [of ?f "with_blocks T B", OF this]
    and loop2 = mfold_commute [of store_operand "with_blocks T B", OF store_operand_blocks]
  show ?thesis
    by (simp add: connect_optional_def map_res_bind bind_map_res blocks_commute loop1 loop2)
qed

lemma visit_group_blocks [blocks_commute]:
  "visit_group api tbs (with_blocks T B s) = map_res (with_blocks T B) (visit_group api tbs s)"
proof -
  have "bind_res (map_res (with_blocks T B) m) (\<lambda>s. if opt_operands s = [] then Inr s else connect_optional api s) =
      map_res (with_blocks T B) (bind_res m (\<lambda>s. if opt_operands s = [] then Inr s else connect_optional api s))" for m
    by (cases m) (simp_all add: blocks_commute)
  then show ?thesis
    by (simp add: visit_group_def mfold_commute [of "visitTriplesBlock api", OF visitTriplesBlock_blocks])
qed

lemma run_event_blocks:
  "run_event api ev (with_blocks T B s) = map_res (with_blocks T B) (run_event api ev s)"
  by (cases ev)
     (simp_all add: blocks_commute open_optionals_def close_optionals_def map_res_bind with_blocks_updates)

lemma run_script_blocks:
  "mfold (run_event api) evs (with_blocks T B s) = map_res (with_blocks T B) (mfold (run_event api) evs s)"
  by (rule mfold_commute) (rule run_event_blocks)

subsection \<open>Refinement: the recursion over stored contexts executes the script\<close>

lemma collect_item_eq:
  "collect_item i (gous, with_blocks (T @ [tb]) (B @ [ob]) s) =
     Inr (gous @ item_gous i,
          with_blocks (T @ [tb @ option_list (list_triplesBlock i)]) (B @ [ob @ item_opts i]) s)"
  by (simp add: collect_item_def item_gous_def item_opts_def push_triples_def push_optional_def
      with_blocks_updates split: option.split)

lemma collect_items_eq:
  "mfold collect_item is (gous, with_blocks (T @ [tb]) (B @ [ob]) s) =
     Inr (gous @ concat (map item_gous is),
          with_blocks (T @ [tb @ concat (map (\<lambda>i. option_list (list_triplesBlock i)) is)])
            (B @ [ob @ concat (map item_opts is)]) s)"
  by (induction "is" arbitrary: gous tb ob) (simp_all add: collect_item_eq)

lemma collect_eq:
  "collect ctx gous (with_blocks (T @ [tb]) (B @ [ob]) s) =
     Inr (gous @ ctx_gous ctx, with_blocks (T @ [tb @ ctx_tbs ctx]) (B @ [ob @ ctx_opts ctx]) s)"
  by (cases "triplesBlock ctx")
     (simp_all add: collect_def push_triples_def collect_items_eq ctx_gous_def ctx_tbs_def ctx_opts_def
       with_blocks_updates)

lemma leave_optional_eq:
  "leave_optional (with_blocks (T @ [x]) (B @ [y]) s) = map_res (with_blocks T B) (run_event api EvLeave s)"
  by (simp add: leave_optional_def leave_pattern_def map_res_bind with_blocks_updates)

lemma restore_blocks_eq:
  "restore_blocks (length tb) (length ob) (with_blocks (T @ [tb @ x]) (B @ [ob @ y]) s) =
     Inr (with_blocks (T @ [tb]) (B @ [ob]) s)"
  by (simp add: restore_blocks_def resize_back_def with_blocks_updates)

definition sub_tbs :: "group_graph_pattern_sub_ctx option \<Rightarrow> triples_block_ctx list" where
  "sub_tbs ctx = (case ctx of None \<Rightarrow> [] | Some c \<Rightarrow> ctx_tbs c)"

definition sub_opts :: "group_graph_pattern_sub_ctx option \<Rightarrow> group_graph_pattern_ctx list" where
  "sub_opts ctx = (case ctx of None \<Rightarrow> [] | Some c \<Rightarrow> ctx_opts c)"

lemma pattern_weight_pos: "0 < pattern_weight ctx gous opts"
  by (cases ctx) (simp_all add: pattern_weight_def opt_sub_weight_def sub_weight_split)

lemma visitWellDesignedPattern_runs_script:
  assumes "pattern_weight ctx gous ob \<le> fuel"
  shows "visitWellDesignedPattern fuel api ctx gous (with_blocks (T @ [tb]) (B @ [ob]) s) =
           map_res (with_blocks (T @ [tb @ sub_tbs ctx]) (B @ [ob @ sub_opts ctx]))
             (mfold (run_event api) (script ctx gous tb ob) s)"
  using assms
proof (induction fuel arbitrary: ctx gous T tb B ob s)
  case 0
  then show ?case using pattern_weight_pos [of ctx gous ob] by simp
next
  case (Suc n)
  show ?case
  proof (cases ctx)
    case None
    then show ?thesis by simp
  next
    case (Some c)
    define gous' tb' ob' where defs: "gous' = gous @ ctx_gous c" "tb' = tb @ ctx_tbs c" "ob' = ob @ ctx_opts c"
    note collect = collect_eq [of c gous T tb B ob s, folded defs]
      and script = script.simps(2) [of c gous tb ob, folded defs]
    let ?restore = "with_blocks (T @ [tb']) (B @ [ob'])"
    show ?thesis
    proof (cases "gous' = []")
      case True
      let ?body = "\<lambda>opt s. bind_res (visitWellDesignedPattern n api (groupGraphPatternSub opt) [] (enter_pattern s)) leave_optional"
      let ?piece = "\<lambda>p. EvEnter # script (groupGraphPatternSub p) [] [] [] @ [EvLeave]"
      have body: "?body p (?restore t) = map_res ?restore (mfold (run_event api) (?piece p) t)"
        if "p \<in> set ob'" for p t
      proof -
        let ?t = "t\<lparr>group_patterns := group_patterns t @ [ [] ]\<rparr>"
        have enter: "enter_pattern (?restore t) = with_blocks ((T @ [tb']) @ [ [] ]) ((B @ [ob']) @ [ [] ]) ?t"
          by (simp add: enter_pattern_def with_blocks_updates)
        have "pattern_weight (groupGraphPatternSub p) [] [] \<le> n"
          using pattern_weight_opt [of p ob c gous] that Suc.prems Some by (simp add: defs)
        note IH = Suc.IH [OF this]
        show ?thesis
          unfolding enter IH bind_map_res leave_optional_eq [where api = api]
          by (simp add: mfold_append map_res_bind map_res_def bind_res_assoc)
      qed
      have loop: "mfold ?body ob' (?restore t) =
          map_res ?restore (mfold (run_event api) (concat (map ?piece ob')) t)" for t
        by (rule mfold_simulates) (rule body)
      have "open_optionals (?restore t) = ?restore (open_optionals t)"
          "close_optionals (?restore t) = map_res ?restore (close_optionals t)" for t :: "'a visitor"
        using run_event_blocks [of api EvOpen "T @ [tb']" "B @ [ob']" t]
          run_event_blocks [of api EvClose "T @ [tb']" "B @ [ob']" t] by simp_all
      then show ?thesis
        using True Some
        by (simp add: collect script visit_group_blocks bind_map_res map_res_bind loop mfold_append
            sub_tbs_def sub_opts_def flip: defs) (simp add: map_res_def)
    next
      case False
      have body: "bind_res (visitWellDesignedPattern n api (groupGraphPatternSub a) (butlast gous') (?restore t))
            (restore_blocks (length tb') (length ob')) =
          map_res ?restore (mfold (run_event api) (script (groupGraphPatternSub a) (butlast gous') tb' ob') t)"
        if "a \<in> set (last gous')" for a t
      proof -
        have "pattern_weight (groupGraphPatternSub a) (butlast gous') ob' \<le> n"
          using pattern_weight_alt [of gous c a ob] False that Suc.prems Some by (simp add: defs)
        note IH = Suc.IH [OF this]
        show ?thesis
          unfolding IH bind_map_res by (simp only: restore_blocks_eq map_res_def)
      qed
      show ?thesis
        using False Some mfold_simulates [OF body]
        by (simp add: collect script sub_tbs_def sub_opts_def flip: defs)
    qed
  qed
qed

text \<open>
  The where clause as a whole: on the stacks it was called with, it enters a group, runs the script of
  the pattern and pops the group. The fuel, the weight of the pattern, is enough for every pattern.
\<close>

definition pop_group :: "'l visitor \<Rightarrow> exn + 'l visitor" where
  "pop_group s = bind_res (pop_back (group_patterns s)) (\<lambda>gp. Inr (s\<lparr>group_patterns := gp\<rparr>))"

definition where_script :: "group_graph_pattern_ctx \<Rightarrow> event list" where
  "where_script ctx = EvEnter # script (groupGraphPatternSub ctx) [] [] []"

lemma visitWhereClause_runs_script:
  assumes "\<not> subSelect ctx" and "groupGraphPatternSub ctx = Some c"
  shows "visitWhereClause api ctx s = bind_res (mfold (run_event api) (where_script ctx) s) pop_group"
proof -
  define T B s1 where defs: "T = triples_blocks s" "B = optional_blocks s"
    "s1 = s\<lparr>group_patterns := group_patterns s @ [ [] ]\<rparr>"
  have enter: "enter_pattern s = with_blocks (T @ [ [] ]) (B @ [ [] ]) s1"
    by (simp add: enter_pattern_def with_blocks_def defs)
  have leave: "leave_pattern (with_blocks (T @ [x]) (B @ [y]) t) = map_res (with_blocks T B) (pop_group t)" for x y t
    by (simp add: leave_pattern_def pop_group_def map_res_bind with_blocks_updates)
  have "pattern_weight (Some c) [] [] \<le> sub_weight c"
    by (simp add: pattern_weight_def)
  note run = visitWellDesignedPattern_runs_script [OF this]
  have "visitWhereClause api ctx s =
      map_res (with_blocks T B) (bind_res (mfold (run_event api) (script (Some c) [] [] []) s1) pop_group)"
    using assms
    by (simp add: visitWhereClause_def visitGroupGraphPattern_def visitGroupGraphPatternSub_def enter run
        bind_map_res leave map_res_bind)
  also have "\<dots> = bind_res (mfold (run_event api) (script (Some c) [] [] []) (with_blocks T B s1))
      (\<lambda>t. pop_group t)"
    by (simp add: run_script_blocks bind_map_res map_res_bind pop_group_def with_blocks_updates)
  also have "with_blocks T B s1 = s1"
    by (simp add: with_blocks_self defs)
  finally show ?thesis
    using assms(2) by (simp add: where_script_def defs)
qed

end
