(* ===== verification/Query_Safety.thy ===== *)
theory Query_Safety
  imports Query_Script
begin

text \<open>
  Safety of the visitor's stacks, and the interface through which invariants of its state are proved.

  \<^item> \<open>next_shape\<close> tracks the heights of \<open>group_patterns\<close> and of the two operand stacks through a
    script; \<open>script_shape\<close> shows that every script is well bracketed, so no stack is popped or read
    when it is empty.
  \<^item> The locale \<open>visitor_invariant\<close> lists what an invariant has to satisfy, one law per operation that
    changes the state, each under the heights the script guarantees; its lemmas carry the invariant
    through \<open>visitTriplesBlock\<close>, every event, every script and the where clause.
\<close>

subsection \<open>Heights of the stacks\<close>

text \<open>
  A shape is the height of \<open>group_patterns\<close> and the common height of \<open>opt_operands\<close> and
  \<open>union_operands\<close>. A group is visited with the first one larger by one; between \<open>EvOpen\<close> and
  \<open>EvClose\<close> they are equal.
\<close>

fun next_shape :: "event \<Rightarrow> nat \<times> nat \<Rightarrow> (nat \<times> nat) option" where
  "next_shape (EvGroup tbs) (g, d) = (if g = Suc d then Some (g, d) else None)"
| "next_shape EvOpen (g, d) = (if g = Suc d then Some (g, Suc d) else None)"
| "next_shape EvEnter (g, d) = (if g = d then Some (Suc g, d) else None)"
| "next_shape EvLeave (g, d) = (if g = Suc d \<and> 0 < d then Some (d, d) else None)"
| "next_shape EvClose (g, d) = (if g = d \<and> 0 < d then Some (g, d - 1) else None)"
| "next_shape EvNull sh = Some sh"

fun run_shape :: "event list \<Rightarrow> nat \<times> nat \<Rightarrow> (nat \<times> nat) option" where
  "run_shape [] sh = Some sh"
| "run_shape (ev # evs) sh = Option.bind (next_shape ev sh) (run_shape evs)"

lemma run_shape_append: "run_shape (xs @ ys) sh = Option.bind (run_shape xs sh) (run_shape ys)"
  by (induction xs arbitrary: sh) (auto split: bind_split)

lemma run_shape_concat:
  "(\<And>x. x \<in> set xs \<Longrightarrow> run_shape (f x) sh = Some sh) \<Longrightarrow> run_shape (concat (map f xs)) sh = Some sh"
  by (induction xs) (auto simp: run_shape_append)

lemma script_shape: "run_shape (script ctx gous tbs opts) (Suc d, d) = Some (Suc d, d)"
proof (induction ctx gous tbs opts arbitrary: d rule: script.induct)
  case (1 gous tbs opts)
  show ?case by simp
next
  case (2 ctx gous tbs opts)
  show ?case
  proof (cases "gous @ ctx_gous ctx = []")
    case True
    let ?piece = "\<lambda>p. EvEnter # script (groupGraphPatternSub p) [] [] [] @ [EvLeave]"
    have "run_shape (?piece p) (Suc d, Suc d) = Some (Suc d, Suc d)" if "p \<in> set (opts @ ctx_opts ctx)" for p
      using 2(1) [OF True that, of "Suc d"] by (simp add: run_shape_append)
    then have "run_shape (concat (map ?piece (opts @ ctx_opts ctx))) (Suc d, Suc d) = Some (Suc d, Suc d)"
      by (rule run_shape_concat)
    then show ?thesis
      unfolding script.simps(2) [of ctx gous] if_P [OF True] by (simp add: run_shape_append del: map_append concat_append)
  next
    case False
    show ?thesis
      unfolding script.simps(2) [of ctx gous] if_not_P [OF False]
      by (rule run_shape_concat) (rule 2(2) [OF False])
  qed
qed

definition shape :: "nat \<times> nat \<Rightarrow> 'l visitor \<Rightarrow> bool" where
  "shape sh s \<longleftrightarrow>
     length (group_patterns s) = fst sh \<and> length (opt_operands s) = snd sh \<and> length (union_operands s) = snd sh"

text \<open>Two visitor states with stacks of the same heights.\<close>

definition same_shape :: "'l visitor \<Rightarrow> 'l visitor \<Rightarrow> bool" where
  "same_shape s s' \<longleftrightarrow>
     length (group_patterns s') = length (group_patterns s) \<and>
     length (opt_operands s') = length (opt_operands s) \<and>
     length (union_operands s') = length (union_operands s)"

lemma shape_group: "shape (Suc d, d) s \<Longrightarrow> \<exists>gps g. group_patterns s = gps @ [g]"
  by (cases "group_patterns s" rule: rev_cases) (auto simp: shape_def)

text \<open>The errors that are legitimate: an exception of the code or of a library, or a null context.\<close>

fun soft :: "exn \<Rightarrow> bool" where
  "soft EmptyVector = False"
| "soft OutOfFuel = False"
| "soft Dangling = False"
| "soft _ = True"

lemma outcome_soft_substr [simp]: "outcome soft (\<lambda>_. True) (substr s p n)"
  by (simp add: substr_def)

lemma outcome_soft_lib [simp]: "outcome soft (\<lambda>_. True) (lib m)"
  by (cases m) simp_all

text \<open>A \<open>bind\<close> whose first part only reads.\<close>

lemma outcome_soft_bind:
  "outcome E (\<lambda>_. True) m \<Longrightarrow> (\<And>x. m = Inr x \<Longrightarrow> outcome E P (f x)) \<Longrightarrow> outcome E P (bind_res m f)"
  by (cases m) auto

lemmas term_visitor_defs = visitVar_def visitIri_def visitBlankNode_def visitString_def visitRdfLiteral_def
  visitNumericLiteral_def visitBooleanLiteral_def

lemma soft_visitVar [simp]: "outcome soft (\<lambda>_. True) (visitVar c)"
  unfolding visitVar_def by (rule outcome_soft_bind) simp_all

lemma soft_visitIri [simp]: "outcome soft (\<lambda>_. True) (visitIri api prefs c)"
  by (auto simp: visitIri_def Let_def split: option.split intro!: outcome_soft_bind)

lemma soft_visitBlankNode [simp]: "outcome soft (\<lambda>_. True) (visitBlankNode c)"
  by (auto simp: visitBlankNode_def split: option.split intro!: outcome_soft_bind)

lemma soft_visitString [simp]: "outcome soft (\<lambda>_. True) (visitString c)"
  by (simp add: visitString_def Let_def)

lemma soft_visitRdfLiteral [simp]: "outcome soft (\<lambda>_. True) (visitRdfLiteral api prefs c)"
  by (auto simp: visitRdfLiteral_def split: option.split intro!: outcome_soft_bind)

lemma soft_visitNumericLiteral [simp]: "outcome soft (\<lambda>_. True) (visitNumericLiteral api c)"
  by (auto simp: visitNumericLiteral_def Let_def split: option.split intro!: outcome_soft_bind)

lemma soft_visitVarOrTerm [simp]: "outcome soft (\<lambda>_. True) (visitVarOrTerm api prefs c)"
  by (auto simp: visitVarOrTerm_def visitBooleanLiteral_def split: option.split intro!: outcome_soft_bind)

lemma soft_visitPath [simp]:
  "outcome soft (\<lambda>_. True) (visitPath api prefs p)"
  "outcome soft (\<lambda>_. True) (visitPathEltOrInverse api prefs e)"
  "outcome soft (\<lambda>_. True) (visitPathElt api prefs q)"
  by (induction p and e and q rule: visitPath_visitPathEltOrInverse_visitPathElt.induct)
     (auto intro!: outcome_soft_bind)

subsection \<open>Invariants of the visitor\<close>

text \<open>The end of \<open>visitObject\<close>: the object is registered and the triple pattern added.\<close>

definition add_object :: "'l sparql_api \<Rightarrow> 'l node \<Rightarrow> 'l visitor \<Rightarrow> exn + 'l visitor" where
  "add_object api obj s =
     (let s1 = register_node obj s;
          tp = (active_subject s1, active_predicate s1, obj)
      in add_tp api tp (s1\<lparr>query := (query s1)\<lparr>triple_patterns := triple_patterns (query s1) @ [tp]\<rparr>\<rparr>))"

lemma visitObject_add_object:
  "visitObject api (Some c) s =
     bind_res (visitVarOrTerm api (prefixes (query s)) c) (\<lambda>obj. add_object api obj s)"
  by (simp add: visitObject_def add_object_def)

lemma register_node_stacks [simp]:
  "group_patterns (register_node n s) = group_patterns s"
  "opt_operands (register_node n s) = opt_operands s"
  "union_operands (register_node n s) = union_operands s"
  "active_subject (register_node n s) = active_subject s"
  "active_predicate (register_node n s) = active_predicate s"
  "triple_patterns (query (register_node n s)) = triple_patterns (query s)"
  "odg (query (register_node n s)) = odg (query s)"
  "prefixes (query (register_node n s)) = prefixes (query s)"
  by (simp_all add: register_node_def register_var_def split: node.split)

lemma register_var_stacks [simp]:
  "group_patterns (register_var v s) = group_patterns s"
  "opt_operands (register_var v s) = opt_operands s"
  "union_operands (register_var v s) = union_operands s"
  "active_subject (register_var v s) = active_subject s"
  "active_predicate (register_var v s) = active_predicate s"
  "triple_patterns (query (register_var v s)) = triple_patterns (query s)"
  "odg (query (register_var v s)) = odg (query s)"
  "prefixes (query (register_var v s)) = prefixes (query s)"
  by (simp_all add: register_var_def)

text \<open>
  The laws of an invariant: one per operation on the state, with the heights at which it is used.
  \<open>triples_invariant\<close> has those that visiting triples needs, \<open>visitor_invariant\<close> adds the events of
  graph patterns; \<open>connect_optional\<close> is only reached inside an optional pattern.
\<close>

locale triples_invariant =
  fixes api :: "'l sparql_api"
    and I :: "'l visitor \<Rightarrow> bool"
  assumes subject: "I s \<Longrightarrow> I (register_node n (s\<lparr>active_subject := n\<rparr>))"
    and predicate_iri: "I s \<Longrightarrow> I (s\<lparr>active_predicate := IRI i\<rparr>)"
    and predicate_var: "I s \<Longrightarrow> I ((register_var v s)\<lparr>active_predicate := VarNode v\<rparr>)"
    and object: "I s \<Longrightarrow> shape (Suc d, d) s \<Longrightarrow> add_object api obj s = Inr s' \<Longrightarrow> I s'"

locale visitor_invariant = triples_invariant api I
  for api :: "'l sparql_api" and I :: "'l visitor \<Rightarrow> bool" +
  assumes optional: "I s \<Longrightarrow> shape (Suc (Suc d), Suc d) s \<Longrightarrow> connect_optional api s = Inr s' \<Longrightarrow> I s'"
    and open_law: "I s \<Longrightarrow> shape (Suc d, d) s \<Longrightarrow> I (open_optionals s)"
    and enter_law: "I s \<Longrightarrow> shape (d, d) s \<Longrightarrow> I (s\<lparr>group_patterns := group_patterns s @ [ [] ]\<rparr>)"
    and leave_law: "I s \<Longrightarrow> shape (Suc (Suc d), Suc d) s \<Longrightarrow> run_event api EvLeave s = Inr s' \<Longrightarrow> I s'"
    and close_law: "I s \<Longrightarrow> shape (Suc d, Suc d) s \<Longrightarrow> close_optionals s = Inr s' \<Longrightarrow> I s'"

subsection \<open>Every operation keeps the heights\<close>

lemma add_tp_shape:
  "shape (Suc d, d) s \<Longrightarrow> outcome E (shape (Suc d, d)) (add_tp api tp s)"
  using shape_group [of d s] by (auto simp: add_tp_def shape_def Let_def split: prod.split)

lemma add_object_shape: "shape (Suc d, d) s \<Longrightarrow> outcome E (shape (Suc d, d)) (add_object api obj s)"
  unfolding add_object_def Let_def by (rule add_tp_shape) (simp add: shape_def)

lemma set_odg_stacks [simp]:
  "group_patterns (set_odg cs s) = group_patterns s"
  "opt_operands (set_odg cs s) = opt_operands s"
  "union_operands (set_odg cs s) = union_operands s"
  "odg (query (set_odg cs s)) = cs"
  "triple_patterns (query (set_odg cs s)) = triple_patterns (query s)"
  by (simp_all add: set_odg_def)

lemma connect_sibling_shape:
  "shape (g, Suc d) s \<Longrightarrow> outcome E (\<lambda>s'. shape (g, Suc d) s' \<and> group_patterns s' = group_patterns s \<and>
       opt_operands s' = opt_operands s \<and> union_operands s' = union_operands s) (connect_sibling c p s)"
  by (cases "union_operands s" rule: rev_cases) (auto simp: connect_sibling_def shape_def)

lemma store_operand_shape:
  "shape (g, Suc d) s \<Longrightarrow> outcome E (\<lambda>s'. shape (g, Suc d) s') (store_operand c s)"
  by (cases "union_operands s" rule: rev_cases; cases "opt_operands s" rule: rev_cases)
     (auto simp: store_operand_def shape_def)

lemma connect_optional_shape:
  assumes "shape (Suc (Suc d), Suc d) s"
  shows "outcome E (shape (Suc (Suc d), Suc d)) (connect_optional api s)"
proof -
  let ?sh = "\<lambda>s. shape (Suc (Suc d), Suc d) s"
  obtain gps prev cur where gp: "group_patterns s = gps @ [prev, cur]"
  proof -
    obtain gps0 cur where 0: "group_patterns s = gps0 @ [cur]" using shape_group [OF assms] by blast
    with assms obtain gps prev where "gps0 = gps @ [prev]"
      by (cases gps0 rule: rev_cases) (auto simp: shape_def)
    with 0 that show ?thesis by simp
  qed
  have siblings: "outcome E ?sh (bind_res (back_of (opt_operands t)) (\<lambda>os. mfold (connect_sibling c) os t))"
    if sh: "?sh t" for c t
  proof -
    obtain oss os where "opt_operands t = oss @ [os]"
      using sh by (cases "opt_operands t" rule: rev_cases) (auto simp: shape_def)
    moreover have "outcome E ?sh (mfold (connect_sibling c) os t)"
      by (rule outcome_mfold [where P = ?sh, OF sh]) (rule outcome_mono [OF connect_sibling_shape], auto)
    ultimately show ?thesis by simp
  qed
  have parent: "parent_group (group_patterns s) = Inr prev" "back_of (group_patterns s) = Inr cur"
    by (simp_all add: gp parent_group_def nth_append back_of_def)
  have start: "?sh (set_odg (group_dependencies api prev cur False (odg (query s))) s)"
    using assms by (simp add: shape_def)
  show ?thesis
    unfolding connect_optional_def parent bind_res_simps
    by (rule outcome_bind [OF outcome_mfold [OF start siblings]], assumption)
       (rule outcome_mfold, assumption, rule store_operand_shape)
qed

text \<open>What \<open>connect_optional\<close> leaves alone: everything but the graph's edges and the operand stacks.\<close>

definition odg_frame :: "'l visitor \<Rightarrow> 'l visitor \<Rightarrow> bool" where
  "odg_frame s s' \<longleftrightarrow>
     (query s')\<lparr>odg := []\<rparr> = (query s)\<lparr>odg := []\<rparr> \<and> operands (odg (query s')) = operands (odg (query s)) \<and>
     group_patterns s' = group_patterns s \<and> active_subject s' = active_subject s \<and>
     active_predicate s' = active_predicate s \<and> var_id s' = var_id s"

lemma odg_frame_query:
  assumes "odg_frame s s'"
  shows "triple_patterns (query s') = triple_patterns (query s)" "var_to_id (query s') = var_to_id (query s)"
    "prefixes (query s') = prefixes (query s)" "ask_flag (query s') = ask_flag (query s)"
    "projected_variables (query s') = projected_variables (query s)"
proof -
  from assms have "(query s')\<lparr>odg := []\<rparr> = (query s)\<lparr>odg := []\<rparr>" by (simp add: odg_frame_def)
  note eq = arg_cong [where f = triple_patterns, OF this] arg_cong [where f = var_to_id, OF this]
    arg_cong [where f = prefixes, OF this] arg_cong [where f = ask_flag, OF this]
    arg_cong [where f = projected_variables, OF this]
  show "triple_patterns (query s') = triple_patterns (query s)" "var_to_id (query s') = var_to_id (query s)"
    "prefixes (query s') = prefixes (query s)" "ask_flag (query s') = ask_flag (query s)"
    "projected_variables (query s') = projected_variables (query s)"
    using eq by simp_all
qed

text \<open>Induction over the steps of \<open>connect_optional\<close>.\<close>

lemma connect_optional_induct:
  assumes run: "connect_optional api s = Inr s'"
    and start: "\<And>prev cur. parent_group (group_patterns s) = Inr prev \<Longrightarrow> back_of (group_patterns s) = Inr cur \<Longrightarrow>
           P (set_odg (group_dependencies api prev cur False (odg (query s))) s)"
    and sibling: "\<And>cur c p u v. back_of (group_patterns s) = Inr cur \<Longrightarrow> c \<in> set cur \<Longrightarrow>
           p \<in> set (concat (opt_operands s)) \<Longrightarrow> P u \<Longrightarrow> connect_sibling c p u = Inr v \<Longrightarrow> P v"
    and store: "\<And>cur c u v. back_of (group_patterns s) = Inr cur \<Longrightarrow> c \<in> set cur \<Longrightarrow> P u \<Longrightarrow>
           store_operand c u = Inr v \<Longrightarrow> P v"
  shows "P s'"
proof -
  obtain prev cur t where groups: "parent_group (group_patterns s) = Inr prev" "back_of (group_patterns s) = Inr cur"
    and steps: "mfold (\<lambda>c s. bind_res (back_of (opt_operands s)) (\<lambda>os. mfold (connect_sibling c) os s)) cur
       (set_odg (group_dependencies api prev cur False (odg (query s))) s) = Inr t"
    "mfold store_operand cur t = Inr s'"
    using run by (auto simp: connect_optional_def)
  let ?P = "\<lambda>u. P u \<and> opt_operands u = opt_operands s"
  have inner: "?P v"
    if c: "c \<in> set cur" and u: "?P u" and run: "bind_res (back_of (opt_operands u)) (\<lambda>os. mfold (connect_sibling c) os u) = Inr v"
    for c u v
  proof -
    from run obtain os where os: "back_of (opt_operands u) = Inr os" "mfold (connect_sibling c) os u = Inr v" by auto
    have mem: "p \<in> set (concat (opt_operands s))" if "p \<in> set os" for p
      using os(1) u that by (auto simp: back_of_def split: if_splits intro!: bexI [OF _ last_in_set])
    have same: "opt_operands w' = opt_operands w" if "connect_sibling c p w = Inr w'" for p and w w' :: "'a visitor"
      using that by (auto simp: connect_sibling_def split: if_splits)
    show ?thesis
    proof (rule mfold_invariant [OF os(2), where P = ?P, OF u])
      fix p w w'
      assume p: "p \<in> set os" and w: "?P w" and run: "connect_sibling c p w = Inr w'"
      have "P w'" by (rule sibling [OF groups(2) c mem [OF p] conjunct1 [OF w] run])
      then show "?P w'" using w same [OF run] by simp
    qed
  qed
  have start': "?P (set_odg (group_dependencies api prev cur False (odg (query s))) s)"
    using start [OF groups] by (rule conjI) simp
  have "?P t"
    by (rule mfold_invariant [OF steps(1), where P = ?P, OF start']) (rule inner)
  then have "P t" ..
  then show ?thesis
    by (rule mfold_invariant [OF steps(2)]) (rule store [OF groups(2)])
qed

lemma connect_optional_frame: "connect_optional api s = Inr s' \<Longrightarrow> odg_frame s s'"
  by (erule connect_optional_induct)
     (auto simp: odg_frame_def set_odg_def connect_sibling_def store_operand_def split: if_splits)

lemma event_shape:
  assumes "shape sh s" and "next_shape ev sh = Some sh'" and "\<And>tbs. ev \<noteq> EvGroup tbs"
  shows "outcome soft (shape sh') (run_event api ev s)"
proof (cases ev)
  case EvLeave
  with assms show ?thesis
    by (cases sh; cases "union_operands s" rule: rev_cases; cases "group_patterns s" rule: rev_cases)
       (auto simp: shape_def split: if_splits)
next
  case EvClose
  with assms show ?thesis
    by (cases sh; cases "union_operands s" rule: rev_cases; cases "group_patterns s" rule: rev_cases;
        cases "opt_operands s" rule: rev_cases)
       (auto simp: shape_def close_optionals_def split: if_splits)
qed (use assms in \<open>auto simp: shape_def open_optionals_def elim: next_shape.elims split: if_splits\<close>)

subsection \<open>What the laws give\<close>

context triples_invariant
begin

abbreviation good :: "nat \<times> nat \<Rightarrow> 'l visitor \<Rightarrow> bool" where
  "good sh s \<equiv> shape sh s \<and> I s"

lemma object_good: "good (Suc d, d) s \<Longrightarrow> outcome soft (good (Suc d, d)) (add_object api obj s)"
  using object [of s d obj] add_object_shape [of d s soft api obj] by (cases "add_object api obj s") auto

lemma visitObject_good: "good (Suc d, d) s \<Longrightarrow> outcome soft (good (Suc d, d)) (visitObject api c s)"
proof (cases c)
  case (Some vt)
  assume "good (Suc d, d) s"
  then show ?thesis
    unfolding Some visitObject_add_object by (intro outcome_soft_bind object_good) simp_all
qed (simp add: visitObject_def)

lemma visitVerb_good: "good (Suc d, d) s \<Longrightarrow> outcome soft (good (Suc d, d)) (visitVerb api c s)"
proof -
  assume g: "good (Suc d, d) s"
  have "good (Suc d, d) (s\<lparr>active_predicate := n\<rparr>)" if "visitPath api (prefixes (query s)) p = Inr n" for p n
    using visitPath_iri(1) [OF that] g predicate_iri by (auto simp: shape_def)
  moreover have "good (Suc d, d) ((register_var v s)\<lparr>active_predicate := VarNode v\<rparr>)" for v
    using g predicate_var by (auto simp: shape_def)
  ultimately show ?thesis
    unfolding visitVerb_def by (auto split: option.split intro!: outcome_soft_bind)
qed

lemma visitProperty_good: "good (Suc d, d) s \<Longrightarrow> outcome soft (good (Suc d, d)) (visitProperty api vo s)"
  unfolding visitProperty_def
  by (rule outcome_bind [OF visitVerb_good])
     (auto simp: visitObjectList_def split: option.split intro!: outcome_mfold visitObject_good)

lemma visitTriplesSameSubjectPath_good:
  assumes "good (Suc d, d) s"
  shows "outcome soft (good (Suc d, d)) (visitTriplesSameSubjectPath api c s)"
proof -
  have start: "good (Suc d, d) (register_node n (s\<lparr>active_subject := n\<rparr>))" for n
    using assms subject by (simp add: shape_def)
  have props: "outcome soft (good (Suc d, d)) (visitPropertyListPathNotEmpty api pl t)" if "good (Suc d, d) t" for pl t
    unfolding visitPropertyListPathNotEmpty_def
    by (rule outcome_bind [OF visitProperty_good [OF that]]) (rule outcome_mfold, simp, rule visitProperty_good)
  show ?thesis
    unfolding visitTriplesSameSubjectPath_def
    using assms by (auto split: option.split intro!: outcome_soft_bind props start [simplified])
qed

lemma visitTriplesBlock_good:
  "good (Suc d, d) s \<Longrightarrow> outcome soft (good (Suc d, d)) (visitTriplesBlock api tb s)"
  unfolding visitTriplesBlock_def
  by (rule outcome_mfold [where P = "good (Suc d, d)"], assumption) (rule visitTriplesSameSubjectPath_good)

end

context visitor_invariant
begin

lemma visit_group_good: "good (Suc d, d) s \<Longrightarrow> outcome soft (good (Suc d, d)) (visit_group api tbs s)"
proof -
  assume g: "good (Suc d, d) s"
  have "outcome soft (good (Suc d, d)) (if opt_operands t = [] then Inr t else connect_optional api t)"
    if t: "good (Suc d, d) t" for t
  proof (cases d)
    case 0
    with t show ?thesis by (simp add: shape_def)
  next
    case (Suc e)
    with t have "opt_operands t \<noteq> []" by (auto simp: shape_def)
    moreover have "outcome soft (good (Suc (Suc e), Suc e)) (connect_optional api t)"
      using t Suc optional [of t e] connect_optional_shape [of e t soft api]
      by (cases "connect_optional api t") auto
    ultimately show ?thesis by (simp add: Suc)
  qed
  note rest = this
  have "outcome soft (good (Suc d, d)) (mfold (visitTriplesBlock api) tbs s)"
    by (rule outcome_mfold [where P = "good (Suc d, d)", OF g visitTriplesBlock_good])
  then show ?thesis
    unfolding visit_group_def by (rule outcome_bind) (rule rest)
qed

lemma event_good:
  assumes "good sh s" and "next_shape ev sh = Some sh'"
  shows "outcome soft (good sh') (run_event api ev s)"
proof (cases "\<exists>tbs. ev = EvGroup tbs")
  case True
  with assms show ?thesis
    by (cases sh) (auto split: if_splits intro: visit_group_good)
next
  case False
  then have "outcome soft (shape sh') (run_event api ev s)"
    using event_shape assms by blast
  moreover have "I s'" if "run_event api ev s = Inr s'" for s'
    using assms that False
    by (cases sh; cases ev)
       (auto split: if_splits simp: gr0_conv_Suc simp del: run_event.simps(4)
         intro: open_law enter_law leave_law close_law)
  ultimately show ?thesis by (cases "run_event api ev s") auto
qed

lemma script_good:
  "good sh s \<Longrightarrow> run_shape evs sh = Some sh' \<Longrightarrow> outcome soft (good sh') (mfold (run_event api) evs s)"
proof (induction evs arbitrary: sh s)
  case Nil
  then show ?case by simp
next
  case (Cons ev evs)
  from Cons.prems(2) obtain sh1 where sh1: "next_shape ev sh = Some sh1" "run_shape evs sh1 = Some sh'"
    by (auto split: bind_splits)
  show ?case
    using event_good [OF Cons.prems(1) sh1(1)] Cons.IH [OF _ sh1(2)]
    by (auto intro!: outcome_bind)
qed

text \<open>The whole where clause, from a visitor that has not visited anything.\<close>

lemma where_script_good:
  assumes "shape (0, 0) s" and "I s"
  shows "outcome soft (good (1, 0)) (mfold (run_event api) (where_script ctx) s)"
  using script_good [of "(0, 0)" s "where_script ctx" "(1, 0)"] assms
    script_shape [of "groupGraphPatternSub ctx" "[]" "[]" "[]" 0]
  by (simp add: where_script_def)

lemma where_clause_good:
  assumes "visitWhereClause api w s = Inr s'" and "shape (0, 0) s" and "I s"
  obtains t where "good (1, 0) t" and "pop_group t = Inr s'"
proof -
  obtain c where c: "\<not> subSelect w" "groupGraphPatternSub w = Some c"
    using assms(1) by (auto simp: visitWhereClause_def visitGroupGraphPattern_def split: if_splits option.splits)
  with assms(1) obtain t where t: "mfold (run_event api) (where_script w) s = Inr t" "pop_group t = Inr s'"
    by (auto simp: visitWhereClause_runs_script)
  show thesis
    using that [OF _ t(2)] where_script_good [OF assms(2,3), of w] t(1) by simp
qed

end

text \<open>With nothing but the heights as invariant: the stacks are safe.\<close>

interpretation heights: visitor_invariant api "\<lambda>_. True" for api
  by unfold_locales simp_all

text \<open>
  C4. Parsing a query never reads or pops an empty stack, and the recursion over stored contexts always
  ends: whatever the query, the visitor returns, throws, or dereferences a null context.
\<close>

theorem where_clause_safe: "outcome soft (\<lambda>_. True) (visitWhereClause api ctx (new_visitor q))"
proof (cases "subSelect ctx \<or> groupGraphPatternSub ctx = None")
  case True
  then show ?thesis by (auto simp: visitWhereClause_def visitGroupGraphPattern_def)
next
  case False
  then obtain c where "groupGraphPatternSub ctx = Some c" by auto
  note run = visitWhereClause_runs_script [OF _ this, of api "new_visitor q"]
  have "outcome soft (\<lambda>_. True) (pop_group s)" if "shape (1, 0) s" for s :: "'a visitor"
    using shape_group [of 0 s] that by (auto simp: pop_group_def)
  moreover have "shape (0, 0) (new_visitor q)" by (simp add: shape_def new_visitor_def)
  ultimately show ?thesis
    using False heights.where_script_good [of "new_visitor q" api ctx] run
    by (auto intro!: outcome_bind)
qed

end
