(* ===== verification/Query_Dnf.thy ===== *)
theory Query_Dnf
  imports Query_Safety
begin

text \<open>
  What a graph pattern means to the visitor, stated without stacks.

  \<^item> Joins are distributed over unions: \<open>den\<close> expands a pattern into its conjunctive leaves, each the
    triples blocks and the optional patterns of one choice of alternatives; \<open>script_den\<close> shows the
    visitor's script visits exactly these leaves, in this order.
  \<^item> \<open>block_patterns\<close> translates a triples block to triple patterns, with no state, and
    \<open>where_patterns\<close> puts both together: \<open>where_clause_patterns\<close> shows that the visitor appends exactly
    these patterns, and fails with exactly these errors.
\<close>

subsection \<open>Distribution of joins over unions\<close>

text \<open>A leaf is \<open>None\<close> where an alternative has no \<open>groupGraphPatternSub\<close> (a subselect).\<close>

type_synonym leaf = "(triples_block_ctx list \<times> group_graph_pattern_ctx list) option"

definition extend :: "triples_block_ctx list \<Rightarrow> group_graph_pattern_ctx list \<Rightarrow> leaf list \<Rightarrow> leaf list" where
  "extend t p ls = map (map_option (\<lambda>(t', p'). (t @ t', p @ p'))) ls"

definition product :: "leaf list \<Rightarrow> leaf list \<Rightarrow> leaf list" where
  "product xs ys = concat (map (\<lambda>x. case x of None \<Rightarrow> [None] | Some (t, p) \<Rightarrow> extend t p ys) xs)"

lemma extend_simps [simp]:
  "extend t p [] = []"
  "extend t p (None # ls) = None # extend t p ls"
  "extend t p (Some (t', p') # ls) = Some (t @ t', p @ p') # extend t p ls"
  "extend t p (xs @ ys) = extend t p xs @ extend t p ys"
  by (simp_all add: extend_def)

lemma extend_extend [simp]: "extend t p (extend t' p' ls) = extend (t @ t') (p @ p') ls"
  by (auto simp: extend_def option.map_comp comp_def split_def intro!: option.map_cong)

lemma extend_none [simp]: "extend [] [] ls = ls"
  by (simp add: extend_def option.map_id0 flip: id_def)

lemma extend_concat: "extend t p (concat xss) = concat (map (extend t p) xss)"
  by (induction xss) simp_all

lemma product_simps [simp]:
  "product [] ys = []"
  "product (None # xs) ys = None # product xs ys"
  "product (Some (t, p) # xs) ys = extend t p ys @ product xs ys"
  "product (xs @ xs') ys = product xs ys @ product xs' ys"
  by (simp_all add: product_def)

lemma concat_concat: "concat (concat xss) = concat (map concat xss)"
  by (induction xss) simp_all

lemma product_concat: "product (concat xss) ys = concat (map (\<lambda>xs. product xs ys) xss)"
  by (induction xss) simp_all

lemma product_unit [simp]: "product xs [Some ([], [])] = xs"
  by (induction xs) (auto simp: product_def split: option.split)

lemma product_extend: "product (extend t p xs) ys = extend t p (product xs ys)"
proof (induction xs)
  case Nil
  show ?case by simp
next
  case (Cons x xs)
  then show ?case by (cases x) auto
qed

lemma product_assoc: "product (product xs ys) zs = product xs (product ys zs)"
proof (induction xs)
  case Nil
  show ?case by simp
next
  case (Cons x xs)
  then show ?case by (cases x) (auto simp: product_extend)
qed

text \<open>
  The unions of a pattern are taken from the last one to the first, and the unions inside a chosen
  alternative before the remaining ones.
\<close>

function den :: "group_graph_pattern_sub_ctx option \<Rightarrow> leaf list"
  and den_unions :: "group_or_union_ctx list \<Rightarrow> leaf list" where
  "den None = [None]"
| "den (Some c) = extend (ctx_tbs c) (ctx_opts c) (den_unions (ctx_gous c))"
| "den_unions gous =
     (if gous = [] then [Some ([], [])]
      else product (concat (map (\<lambda>a. den (groupGraphPatternSub a)) (last gous))) (den_unions (butlast gous)))"
  by pat_completeness auto

definition den_measure :: "group_graph_pattern_sub_ctx option + group_or_union_ctx list \<Rightarrow> nat \<times> nat" where
  "den_measure x =
     (case x of Inl c \<Rightarrow> (opt_sub_weight c, 0) | Inr gous \<Rightarrow> (gous_weight gous, Suc (length gous)))"

termination den
proof (relation "inv_image (less_than <*lex*> less_than) den_measure", goal_cases)
  case 1
  show ?case by (simp add: wf_inv_image wf_lex_prod)
next
  case (2 c)
  show ?case by (simp add: den_measure_def sub_weight_split)
next
  case (3 gous a)
  then show ?case using alt_weight_le [of gous a] by (auto simp: den_measure_def)
next
  case (4 gous)
  have "gous_weight gous = gous_weight (butlast gous @ [last gous])" using 4 by simp
  then have "gous_weight (butlast gous) \<le> gous_weight gous" by simp
  then show ?case using 4 by (auto simp: den_measure_def)
qed

declare den_unions.simps [simp del]

lemma den_unions_Nil [simp]: "den_unions [] = [Some ([], [])]"
  by (simp add: den_unions.simps)

lemma den_unions_snoc [simp]:
  "den_unions (gous @ [g]) = product (concat (map (\<lambda>a. den (groupGraphPatternSub a)) g)) (den_unions gous)"
  by (simp add: den_unions.simps [of "gous @ [g]"])

lemma den_unions_append: "den_unions (gous @ gous') = product (den_unions gous') (den_unions gous)"
  by (induction gous' rule: rev_induct) (simp_all add: product_assoc flip: append_assoc)

definition optional_script :: "group_graph_pattern_ctx \<Rightarrow> event list" where
  "optional_script p = EvEnter # script (groupGraphPatternSub p) [] [] [] @ [EvLeave]"

definition leaf_script :: "leaf \<Rightarrow> event list" where
  "leaf_script l =
     (case l of
        None \<Rightarrow> [EvNull]
      | Some (t, p) \<Rightarrow> EvGroup t # EvOpen # concat (map optional_script p) @ [EvClose])"

lemma script_den:
  "script ctx gous tb ob = concat (map leaf_script (extend tb ob (product (den ctx) (den_unions gous))))"
proof (induction ctx gous tb ob rule: script.induct)
  case (1 gous tbs opts)
  show ?case by (simp add: leaf_script_def)
next
  case (2 ctx gous tbs opts)
  have all: "product (den (Some ctx)) (den_unions gous) =
      extend (ctx_tbs ctx) (ctx_opts ctx) (den_unions (gous @ ctx_gous ctx))"
    by (simp add: product_extend den_unions_append)
  show ?case
  proof (cases "gous @ ctx_gous ctx = []")
    case True
    then show ?thesis
      unfolding script.simps(2) [of ctx gous] all if_P [OF True]
      by (simp add: leaf_script_def optional_script_def [abs_def])
  next
    case False
    define gous' tb' ob' where defs: "gous' = gous @ ctx_gous ctx" "tb' = tbs @ ctx_tbs ctx"
      "ob' = opts @ ctx_opts ctx"
    have ne: "gous' \<noteq> []" using False by (simp add: defs(1))
    have "script (Some ctx) gous tbs opts =
        concat (map (\<lambda>a. concat (map leaf_script (extend tb' ob' (product (den (groupGraphPatternSub a))
          (den_unions (butlast gous')))))) (last gous'))"
      unfolding script.simps(2) [of ctx gous] if_not_P [OF False] defs
      using 2(2) [OF False] by (intro arg_cong [where f = concat] map_cong refl)
    also have "\<dots> = concat (map leaf_script (extend tb' ob'
        (product (concat (map (\<lambda>a. den (groupGraphPatternSub a)) (last gous'))) (den_unions (butlast gous')))))"
      by (simp add: product_concat extend_concat map_concat concat_concat comp_def)
    also have "\<dots> = concat (map leaf_script (extend tb' ob' (den_unions gous')))"
      using ne by (simp only: den_unions.simps [of gous'] if_False)
    finally show ?thesis
      unfolding all defs by (simp only: extend_extend)
  qed
qed

lemma length_product: "None \<notin> set xs \<Longrightarrow> length (product xs ys) = length xs * length ys"
proof (induction xs)
  case Nil
  show ?case by simp
next
  case (Cons x xs)
  then show ?case by (cases x) (auto simp: extend_def)
qed

lemma None_product: "None \<in> set (product xs ys) \<longleftrightarrow> None \<in> set xs \<or> xs \<noteq> [] \<and> None \<in> set ys"
proof (induction xs)
  case Nil
  show ?case by simp
next
  case (Cons x xs)
  then show ?case by (cases x) (auto simp: extend_def)
qed

lemma length_den_unions:
  "None \<notin> set (den_unions gous) \<Longrightarrow>
   length (den_unions gous) = prod_list (map (\<lambda>g. sum_list (map (\<lambda>a. length (den (groupGraphPatternSub a))) g)) gous)"
proof (induction gous rule: rev_induct)
  case Nil
  show ?case by simp
next
  case (snoc g gous)
  define alts where "alts = concat (map (\<lambda>a. den (groupGraphPatternSub a)) g)"
  have len: "sum_list (map (\<lambda>a. length (den (groupGraphPatternSub a))) g) = length alts"
    by (simp add: alts_def length_concat comp_def)
  have "None \<notin> set alts" "alts \<noteq> [] \<longrightarrow> None \<notin> set (den_unions gous)"
    using snoc.prems by (auto simp: None_product simp flip: alts_def)
  then show ?case
    using snoc.IH length_product [of alts "den_unions gous"]
    by (cases "alts = []") (simp_all add: len flip: alts_def)
qed

subsection \<open>Triples blocks as lists of triple patterns\<close>

fun concat_res :: "('a \<Rightarrow> exn + 'b list) \<Rightarrow> 'a list \<Rightarrow> exn + 'b list" where
  "concat_res f [] = Inr []"
| "concat_res f (x # xs) = bind_res (f x) (\<lambda>ys. map_res ((@) ys) (concat_res f xs))"

lemma concat_res_cong [fundef_cong]:
  "xs = ys \<Longrightarrow> (\<And>x. x \<in> set ys \<Longrightarrow> f x = g x) \<Longrightarrow> concat_res f xs = concat_res g ys"
  by (induction xs arbitrary: ys) (auto intro!: bind_res_cong)

definition object_pattern ::
  "'l sparql_api \<Rightarrow> (string \<times> string) list \<Rightarrow> 'l node \<Rightarrow> 'l node \<Rightarrow> var_or_term_ctx option \<Rightarrow>
   exn + 'l triple_pattern list" where
  "object_pattern api prefs subj pred ctx =
     (case ctx of
        None \<Rightarrow> Inl (RuntimeError ''not supported'')
      | Some c \<Rightarrow> bind_res (visitVarOrTerm api prefs c) (\<lambda>obj. Inr [(subj, pred, obj)]))"

definition verb_node :: "'l sparql_api \<Rightarrow> (string \<times> string) list \<Rightarrow> verb_ctx \<Rightarrow> exn + 'l node" where
  "verb_node api prefs ctx =
     (case verbPath ctx of
        Some p \<Rightarrow> visitPath api prefs p
      | None \<Rightarrow>
          (case verbSimple ctx of None \<Rightarrow> Inl NullDeref | Some v \<Rightarrow> map_res VarNode (visitVar v)))"

definition property_patterns ::
  "'l sparql_api \<Rightarrow> (string \<times> string) list \<Rightarrow> 'l node \<Rightarrow> verb_ctx \<times> object_list_ctx option \<Rightarrow>
   exn + 'l triple_pattern list" where
  "property_patterns api prefs subj vo =
     bind_res (verb_node api prefs (fst vo)) (\<lambda>pred.
       (case snd vo of
          None \<Rightarrow> Inl (RuntimeError ''Triple requires at least one object'')
        | Some os \<Rightarrow> concat_res (object_pattern api prefs subj pred) os))"

definition subject_patterns ::
  "'l sparql_api \<Rightarrow> (string \<times> string) list \<Rightarrow> triples_same_subject_path_ctx \<Rightarrow> exn + 'l triple_pattern list" where
  "subject_patterns api prefs ctx =
     (case (subject_varOrTerm ctx, propertyListPathNotEmpty ctx) of
        (Some vt, Some pl) \<Rightarrow>
          bind_res (visitVarOrTerm api prefs vt) (\<lambda>subj.
            concat_res (property_patterns api prefs subj)
              ((first_verb pl, objectListPath pl) # propertyListPathNotEmptyList pl))
      | _ \<Rightarrow> Inr [])"

definition block_patterns ::
  "'l sparql_api \<Rightarrow> (string \<times> string) list \<Rightarrow> triples_block_ctx \<Rightarrow> exn + 'l triple_pattern list" where
  "block_patterns api prefs tb = concat_res (subject_patterns api prefs) tb"

text \<open>
  \<open>emits prefs P Q f g\<close>: from a state with those prefixes and property \<open>P\<close>, the step \<open>f\<close> appends
  exactly the patterns \<open>g\<close>, or fails with the error of \<open>g\<close>, and establishes \<open>Q\<close>.
\<close>

definition emits ::
  "(string \<times> string) list \<Rightarrow> ('l visitor \<Rightarrow> bool) \<Rightarrow> ('l visitor \<Rightarrow> bool) \<Rightarrow> ('l visitor \<Rightarrow> exn + 'l visitor) \<Rightarrow>
   exn + 'l triple_pattern list \<Rightarrow> bool" where
  "emits prefs P Q f g \<longleftrightarrow>
     (\<forall>s. P s \<longrightarrow> prefixes (query s) = prefs \<longrightarrow>
        (case g of
           Inl e \<Rightarrow> f s = Inl e
         | Inr ps \<Rightarrow> \<exists>s'. f s = Inr s' \<and> Q s' \<and> prefixes (query s') = prefs \<and>
                      triple_patterns (query s') = triple_patterns (query s) @ ps))"

lemma emits_bind:
  assumes "emits prefs P Q f g" and "emits prefs Q R f' g'"
  shows "emits prefs P R (\<lambda>s. bind_res (f s) f') (bind_res g (\<lambda>ps. map_res ((@) ps) g'))"
proof (cases g)
  case (Inl e)
  with assms(1) show ?thesis by (simp add: emits_def)
next
  case (Inr ps)
  with assms show ?thesis
    by (cases g') (fastforce simp: emits_def)+
qed

lemma emits_mfold:
  assumes "\<And>x. x \<in> set xs \<Longrightarrow> emits prefs P P (f x) (g x)"
  shows "emits prefs P P (mfold f xs) (concat_res g xs)"
  using assms
proof (induction xs)
  case Nil
  show ?case by (simp add: emits_def)
next
  case (Cons x xs)
  then show ?case
    using emits_bind [of prefs P P "f x" "g x" P "mfold f xs" "concat_res g xs"] by (simp add: emits_def)
qed

lemma emits_cong:
  assumes "emits prefs P Q f g" and "\<And>s. prefixes (query s) = prefs \<Longrightarrow> f' s = f s"
  shows "emits prefs P Q f' g"
  using assms by (cases g) (simp_all add: emits_def)

lemma emits_quiet:
  assumes "\<And>s. P s \<Longrightarrow> \<exists>s'. f s = Inr s' \<and> Q s' \<and> prefixes (query s') = prefixes (query s) \<and>
      triple_patterns (query s') = triple_patterns (query s)"
  shows "emits prefs P Q f (Inr [])"
  using assms by (auto simp: emits_def)

lemma emits_start:
  assumes "emits prefs Q R f g"
    and "\<And>s. P s \<Longrightarrow> Q (h s) \<and> prefixes (query (h s)) = prefixes (query s) \<and>
           triple_patterns (query (h s)) = triple_patterns (query s)"
  shows "emits prefs P R (\<lambda>s. f (h s)) g"
  using emits_bind [OF emits_quiet [of P "\<lambda>s. Inr (h s)" Q prefs] assms(1)] assms(2)
  by (cases g) simp_all

lemma emits_end:
  assumes "emits prefs P Q f g" and "emits prefs Q R f' (Inr [])"
  shows "emits prefs P R (\<lambda>s. bind_res (f s) f') g"
  using emits_bind [OF assms] by (cases g) simp_all

lemma emits_weaken: "emits prefs P Q f g \<Longrightarrow> (\<And>s. Q s \<Longrightarrow> R s) \<Longrightarrow> emits prefs P R f g"
  by (cases g) (force simp: emits_def)+

text \<open>
  While a subject or a predicate is active it is part of what a step keeps.
\<close>

definition in_group :: "'l visitor \<Rightarrow> bool" where
  "in_group s \<longleftrightarrow> group_patterns s \<noteq> []"

definition at_subject :: "'l node \<Rightarrow> 'l visitor \<Rightarrow> bool" where
  "at_subject n s \<longleftrightarrow> in_group s \<and> active_subject s = n"

definition at_predicate :: "'l node \<Rightarrow> 'l node \<Rightarrow> 'l visitor \<Rightarrow> bool" where
  "at_predicate n p s \<longleftrightarrow> at_subject n s \<and> active_predicate s = p"

lemmas at_defs = in_group_def at_subject_def at_predicate_def

lemma add_tp_total:
  assumes "group_patterns s \<noteq> []"
  shows "\<exists>s'. add_tp api tp s = Inr s' \<and> group_patterns s' \<noteq> [] \<and> active_subject s' = active_subject s \<and>
           active_predicate s' = active_predicate s \<and> prefixes (query s') = prefixes (query s) \<and>
           triple_patterns (query s') = triple_patterns (query s)"
proof -
  obtain gps g where "group_patterns s = gps @ [g]"
    using assms by (cases "group_patterns s" rule: rev_cases) auto
  then show ?thesis by (simp add: add_tp_def Let_def split: prod.split)
qed

lemma emits_object: "emits prefs (at_predicate n p) (at_predicate n p) (visitObject api c) (object_pattern api prefs n p c)"
proof (cases c)
  case None
  then show ?thesis by (simp add: emits_def object_pattern_def visitObject_def)
next
  case (Some vt)
  show ?thesis
  proof (cases "visitVarOrTerm api prefs vt")
    case (Inl e)
    then show ?thesis by (simp add: Some emits_def object_pattern_def visitObject_def)
  next
    case (Inr obj)
    have "\<exists>s'. add_object api obj s = Inr s' \<and> at_predicate n p s' \<and> prefixes (query s') = prefixes (query s) \<and>
        triple_patterns (query s') = triple_patterns (query s) @ [(n, p, obj)]"
      if "at_predicate n p s" for s
    proof -
      let ?s1 = "register_node obj s"
      let ?s2 = "?s1\<lparr>query := (query ?s1)\<lparr>triple_patterns := triple_patterns (query ?s1) @ [(n, p, obj)]\<rparr>\<rparr>"
      show ?thesis
        using add_tp_total [of ?s2 api "(n, p, obj)"] that by (auto simp: add_object_def at_defs)
    qed
    then show ?thesis
      unfolding emits_def by (auto simp: Some Inr object_pattern_def visitObject_add_object)
  qed
qed

lemma emits_objects:
  "emits prefs (at_predicate n p) (at_predicate n p) (visitObjectList api os) (concat_res (object_pattern api prefs n p) os)"
  unfolding visitObjectList_def [abs_def] by (rule emits_mfold) (rule emits_object)

lemma visitVerb_eq:
  "at_subject n s \<Longrightarrow> prefixes (query s) = prefs \<Longrightarrow>
     (case verb_node api prefs v of
        Inl e \<Rightarrow> visitVerb api v s = Inl e
      | Inr p \<Rightarrow> \<exists>s'. visitVerb api v s = Inr s' \<and> at_predicate n p s' \<and> prefixes (query s') = prefs \<and>
                  triple_patterns (query s') = triple_patterns (query s))"
  by (cases "visitVar (the (verbSimple v))")
     (auto simp: verb_node_def visitVerb_def at_defs split: option.splits sum.splits)

lemma emits_property:
  "emits prefs (at_subject n) (at_subject n) (visitProperty api vo) (property_patterns api prefs n vo)"
proof (cases "verb_node api prefs (fst vo)")
  case (Inl e)
  then show ?thesis
    using visitVerb_eq [of n _ prefs api "fst vo"] by (simp add: emits_def visitProperty_def property_patterns_def)
next
  case (Inr p)
  note verb = visitVerb_eq [of n _ prefs api "fst vo", unfolded Inr sum.case]
  show ?thesis
  proof (cases "snd vo")
    case None
    then show ?thesis
      using verb Inr by (fastforce simp: emits_def visitProperty_def property_patterns_def)
  next
    case (Some os)
    have "at_predicate n p s \<Longrightarrow> at_subject n s" for s by (simp add: at_predicate_def)
    then show ?thesis
      using verb Inr Some emits_objects [of prefs n p api os]
      by (fastforce simp: emits_def visitProperty_def property_patterns_def split: sum.splits)
  qed
qed

lemma emits_subject: "emits prefs in_group in_group (visitTriplesSameSubjectPath api c) (subject_patterns api prefs c)"
proof (cases "subject_varOrTerm c = None \<or> propertyListPathNotEmpty c = None")
  case True
  then show ?thesis
    by (auto simp: emits_def visitTriplesSameSubjectPath_def subject_patterns_def split: option.split)
next
  case False
  then obtain vt pl where c: "subject_varOrTerm c = Some vt" "propertyListPathNotEmpty c = Some pl" by auto
  show ?thesis
  proof (cases "visitVarOrTerm api prefs vt")
    case (Inl e)
    then show ?thesis by (simp add: c emits_def visitTriplesSameSubjectPath_def subject_patterns_def)
  next
    case (Inr n)
    let ?start = "\<lambda>s. register_node n (s\<lparr>active_subject := n\<rparr>)"
    let ?vos = "(first_verb pl, objectListPath pl) # propertyListPathNotEmptyList pl"
    have "visitPropertyListPathNotEmpty api pl = mfold (visitProperty api) ?vos"
      by (simp add: fun_eq_iff visitPropertyListPathNotEmpty_def)
    then have props: "emits prefs (at_subject n) (at_subject n) (visitPropertyListPathNotEmpty api pl)
        (concat_res (property_patterns api prefs n) ?vos)"
      using emits_mfold [of ?vos prefs "at_subject n" "visitProperty api" "property_patterns api prefs n"]
        emits_property by metis
    have "emits prefs in_group in_group (\<lambda>s. visitPropertyListPathNotEmpty api pl (?start s))
        (concat_res (property_patterns api prefs n) ?vos)"
      by (rule emits_start [OF emits_weaken [OF props]]) (simp_all add: at_defs)
    then show ?thesis
      unfolding c Inr subject_patterns_def prod.case option.case bind_res_simps
      by (rule emits_cong) (simp add: c Inr visitTriplesSameSubjectPath_def)
  qed
qed

lemma emits_block: "emits prefs in_group in_group (visitTriplesBlock api tb) (block_patterns api prefs tb)"
  unfolding visitTriplesBlock_def [abs_def] block_patterns_def by (rule emits_mfold) (rule emits_subject)

subsection \<open>The where clause\<close>

lemma leaf_weight:
  "Some (t, p) \<in> set (den c) \<Longrightarrow> opts_weight p < opt_sub_weight c"
  "Some (t, p) \<in> set (den_unions gous) \<Longrightarrow> opts_weight p \<le> gous_weight gous"
proof (induction c and gous arbitrary: t p and t p rule: den_den_unions.induct)
  case 1
  then show ?case by simp
next
  case (2 c)
  then obtain t' p' where "Some (t', p') \<in> set (den_unions (ctx_gous c))" "p = ctx_opts c @ p'"
    by (auto simp: extend_def map_option_case split: option.splits)
  with 2(1) [of t' p'] show ?case by (simp add: sub_weight_split)
next
  case (3 gous)
  show ?case
  proof (cases "gous = []")
    case True
    with 3 show ?thesis by simp
  next
    case False
    with 3(3) obtain a t1 p1 t2 p2 where a: "a \<in> set (last gous)" "Some (t1, p1) \<in> set (den (groupGraphPatternSub a))"
      "Some (t2, p2) \<in> set (den_unions (butlast gous))" "p = p1 @ p2"
      unfolding den_unions.simps [of gous] by (auto simp: product_def extend_def map_option_case split: option.splits)
    have "opts_weight p1 < ggp_weight a" using 3(1) [OF False a(1,2)] by simp
    moreover have "opts_weight p2 \<le> gous_weight (butlast gous)" by (rule 3(2) [OF False a(3)])
    ultimately show ?thesis using alt_weight_le [OF False a(1)] a(4) by simp
  qed
qed

function where_patterns ::
  "'l sparql_api \<Rightarrow> (string \<times> string) list \<Rightarrow> group_graph_pattern_sub_ctx option \<Rightarrow>
   exn + 'l triple_pattern list" where
  "where_patterns api prefs c =
     concat_res
       (\<lambda>l. case l of
              None \<Rightarrow> Inl NullDeref
            | Some (t, p) \<Rightarrow>
                bind_res (concat_res (block_patterns api prefs) t) (\<lambda>ps.
                  map_res ((@) ps) (concat_res (\<lambda>opt. where_patterns api prefs (groupGraphPatternSub opt)) p)))
       (den c)"
  by pat_completeness auto

termination where_patterns
proof (relation "measure (\<lambda>(api, prefs, c). opt_sub_weight c)", goal_cases)
  case 1
  show ?case by simp
next
  case (2 api prefs c l lp t p x ps)
  then show ?case using leaf_weight(1) [of t p c] opt_weight_le [of ps p] by auto
qed

declare where_patterns.simps [simp del]

abbreviation total_outcome :: "('a \<Rightarrow> bool) \<Rightarrow> exn + 'a \<Rightarrow> bool" where
  "total_outcome P r \<equiv> outcome (\<lambda>_. False) P r"

lemma total_outcome_iff: "total_outcome P r \<longleftrightarrow> (\<exists>x. r = Inr x \<and> P x)"
  by (cases r) auto

lemma mfold_concat: "mfold f (concat xss) s = mfold (mfold f) xss s"
  by (induction xss arbitrary: s) (simp_all add: mfold_append cong: bind_res_cong)

lemma mfold_map: "mfold f (map g xs) s = mfold (\<lambda>x. f (g x)) xs s"
  by (induction xs arbitrary: s) (simp_all cong: bind_res_cong)

lemma mfold_single [simp]: "mfold f [x] = f x"
proof
  show "mfold f [x] s = f x s" for s by (cases "f x s") simp_all
qed

lemma concat_res_append_nil [simp]: "map_res ((@) []) m = m"
  by (cases m) simp_all

lemma emits_group:
  "emits prefs (shape (Suc d, d)) (shape (Suc d, d)) (visit_group api tbs) (concat_res (block_patterns api prefs) tbs)"
proof -
  have block: "emits prefs (shape (Suc d, d)) (shape (Suc d, d)) (visitTriplesBlock api tb) (block_patterns api prefs tb)" for tb
  proof (cases "block_patterns api prefs tb")
    case (Inl e)
    have "in_group s" if "shape (Suc d, d) s" for s :: "'a visitor"
      using that by (auto simp: shape_def in_group_def)
    then show ?thesis
      using emits_block [of prefs api tb] unfolding Inl emits_def sum.case by blast
  next
    case (Inr ps)
    show ?thesis
      unfolding Inr emits_def sum.case
    proof (intro allI impI)
      fix s :: "'a visitor" assume s: "shape (Suc d, d) s" "prefixes (query s) = prefs"
      then have "in_group s" by (auto simp: shape_def in_group_def)
      then obtain s' where s': "visitTriplesBlock api tb s = Inr s'" "prefixes (query s') = prefs"
        "triple_patterns (query s') = triple_patterns (query s) @ ps"
        using emits_block [of prefs api tb] s(2) unfolding Inr emits_def sum.case by blast
      moreover have "shape (Suc d, d) s'"
        using heights.visitTriplesBlock_good [of d s api tb] s(1) s'(1) by simp
      ultimately show "\<exists>s'. visitTriplesBlock api tb s = Inr s' \<and> shape (Suc d, d) s' \<and>
          prefixes (query s') = prefs \<and> triple_patterns (query s') = triple_patterns (query s) @ ps" by blast
    qed
  qed
  have "emits prefs (shape (Suc d, d)) (shape (Suc d, d))
      (\<lambda>s. if opt_operands s = [] then Inr s else connect_optional api s) (Inr [])"
  proof (rule emits_quiet)
    fix s :: "'a visitor" assume s: "shape (Suc d, d) s"
    show "\<exists>s'. (if opt_operands s = [] then Inr s else connect_optional api s) = Inr s' \<and> shape (Suc d, d) s' \<and>
        prefixes (query s') = prefixes (query s) \<and> triple_patterns (query s') = triple_patterns (query s)"
    proof (cases d)
      case 0
      with s show ?thesis by (simp add: shape_def)
    next
      case (Suc e)
      with s have "opt_operands s \<noteq> []" by (auto simp: shape_def)
      moreover have "total_outcome (shape (Suc d, d)) (connect_optional api s)"
        using connect_optional_shape s Suc by blast
      ultimately show ?thesis
        using odg_frame_query [OF connect_optional_frame] by (auto simp: total_outcome_iff)
    qed
  qed
  note emits_end [OF emits_mfold [OF block] this]
  then show ?thesis unfolding visit_group_def [abs_def] .
qed

lemma emits_optional:
  assumes "emits prefs (shape (Suc d, d)) (shape (Suc d, d)) (mfold (run_event api) evs) g" and "0 < d"
  shows "emits prefs (shape (d, d)) (shape (d, d)) (mfold (run_event api) (EvEnter # evs @ [EvLeave])) g"
proof -
  have leave: "emits prefs (shape (Suc d, d)) (shape (d, d)) (run_event api EvLeave) (Inr [])"
  proof (rule emits_quiet)
    fix s :: "'a visitor" assume "shape (Suc d, d) s"
    with assms(2) obtain gps g uss us where "group_patterns s = gps @ [g]" "union_operands s = uss @ [us]"
      "length gps = d" "length (opt_operands s) = d" "Suc (length uss) = d"
      by (cases "group_patterns s" rule: rev_cases; cases "union_operands s" rule: rev_cases) (auto simp: shape_def)
    then show "\<exists>s'. run_event api EvLeave s = Inr s' \<and> shape (d, d) s' \<and> prefixes (query s') = prefixes (query s) \<and>
        triple_patterns (query s') = triple_patterns (query s)"
      by (simp add: shape_def)
  qed
  have "emits prefs (shape (d, d)) (shape (d, d))
      (\<lambda>s. bind_res (mfold (run_event api) evs (s\<lparr>group_patterns := group_patterns s @ [ [] ]\<rparr>)) (run_event api EvLeave)) g"
    by (rule emits_start [OF emits_end [OF assms(1) leave]]) (simp_all add: shape_def)
  then show ?thesis
    by (rule emits_cong) (simp add: mfold_append del: run_event.simps(4))
qed

lemma emits_script:
  "emits prefs (shape (Suc d, d)) (shape (Suc d, d)) (mfold (run_event api) (script c [] [] []))
     (where_patterns api prefs c)"
proof (induction api prefs c arbitrary: d rule: where_patterns.induct)
  case (1 api prefs c)
  have leaf: "emits prefs (shape (Suc d, d)) (shape (Suc d, d)) (mfold (run_event api) (leaf_script l))
      (case l of
         None \<Rightarrow> Inl NullDeref
       | Some (t, p) \<Rightarrow>
           bind_res (concat_res (block_patterns api prefs) t) (\<lambda>ps.
             map_res ((@) ps) (concat_res (\<lambda>opt. where_patterns api prefs (groupGraphPatternSub opt)) p)))"
    if l: "l \<in> set (den c)" for l
  proof (cases l)
    case None
    then show ?thesis by (simp add: leaf_script_def emits_def)
  next
    case (Some tp)
    obtain t p where tp: "tp = (t, p)" by (cases tp)
    let ?opts = "concat_res (\<lambda>opt. where_patterns api prefs (groupGraphPatternSub opt)) p"
    show ?thesis
    proof (cases "concat_res (block_patterns api prefs) t")
      case (Inl e)
      then show ?thesis
        using emits_group [of prefs d api t]
        by (simp add: Some tp leaf_script_def emits_def)
    next
      case (Inr ps)
      have opt: "emits prefs (shape (Suc d, Suc d)) (shape (Suc d, Suc d)) (mfold (run_event api) (optional_script opt))
          (where_patterns api prefs (groupGraphPatternSub opt))" if "opt \<in> set p" for opt
        unfolding optional_script_def
        by (rule emits_optional [OF 1 [OF l Some tp [symmetric] Inr that]]) simp
      have "mfold (run_event api) (concat (map optional_script p)) s =
          mfold (\<lambda>opt. mfold (run_event api) (optional_script opt)) p s" for s
        by (simp add: mfold_concat mfold_map)
      note opts = emits_cong [OF emits_mfold [where P = "shape (Suc d, Suc d)", OF opt] this]
      have close: "emits prefs (shape (Suc d, Suc d)) (shape (Suc d, d)) (close_optionals :: 'a visitor \<Rightarrow> _) (Inr [])"
      proof (rule emits_quiet)
        fix s :: "'a visitor" assume "shape (Suc d, Suc d) s"
        then show "\<exists>s'. close_optionals s = Inr s' \<and> shape (Suc d, d) s' \<and> prefixes (query s') = prefixes (query s) \<and>
            triple_patterns (query s') = triple_patterns (query s)"
          by (cases "group_patterns s" rule: rev_cases; cases "union_operands s" rule: rev_cases;
              cases "opt_operands s" rule: rev_cases) (auto simp: shape_def close_optionals_def)
      qed
      have "emits prefs (shape (Suc d, d)) (shape (Suc d, d))
          (\<lambda>s. bind_res (mfold (run_event api) (concat (map optional_script p)) (open_optionals s)) close_optionals) ?opts"
        by (rule emits_start [OF emits_end [OF opts close]]) (simp_all add: shape_def open_optionals_def)
      note whole = emits_bind [OF emits_group this]
      show ?thesis
        unfolding Some tp option.case prod.case
        by (rule emits_cong [OF whole]) (auto simp: leaf_script_def mfold_append intro!: bind_res_cong)
    qed
  qed
  show ?case
    unfolding where_patterns.simps [of api prefs c]
    by (rule emits_cong [OF emits_mfold [OF leaf]]) (simp_all add: script_den mfold_concat mfold_map)
qed

lemma where_clause_patterns:
  assumes "\<not> subSelect ctx" and "groupGraphPatternSub ctx = Some c"
  shows "map_res (\<lambda>s. triple_patterns (query s)) (visitWhereClause api ctx (new_visitor q)) =
           map_res ((@) (triple_patterns q)) (where_patterns api (prefixes q) (Some c))"
proof -
  let ?s = "(new_visitor q)\<lparr>group_patterns := [ [] ]\<rparr>"
  have "shape (Suc 0, 0) ?s" "prefixes (query ?s) = prefixes q" by (simp_all add: new_visitor_def shape_def)
  then have run: "case where_patterns api (prefixes q) (Some c) of
      Inl e \<Rightarrow> mfold (run_event api) (script (Some c) [] [] []) ?s = Inl e
    | Inr ps \<Rightarrow> \<exists>s'. mfold (run_event api) (script (Some c) [] [] []) ?s = Inr s' \<and> shape (Suc 0, 0) s' \<and>
        triple_patterns (query s') = triple_patterns q @ ps"
    using emits_script [of "prefixes q" 0 api "Some c"]
    unfolding emits_def by (cases "where_patterns api (prefixes q) (Some c)") (auto simp: new_visitor_def)
  have pop: "\<exists>s'. pop_group s = Inr s' \<and> query s' = query s" if sh: "shape (Suc 0, 0) s" for s :: "'a visitor"
    using shape_group [OF sh] by (auto simp: pop_group_def)
  have "visitWhereClause api ctx (new_visitor q) =
      bind_res (mfold (run_event api) (script (Some c) [] [] []) ?s) pop_group"
    using visitWhereClause_runs_script [OF assms, of api "new_visitor q"] assms(2)
    by (simp add: where_script_def new_visitor_def)
  then show ?thesis
    using run by (cases "where_patterns api (prefixes q) (Some c)") (auto dest!: pop simp: map_res_def)
qed

text \<open>
  C3. The visitor of a where clause appends to the query exactly the triple patterns of the
  distributed form of the pattern, in its order, and fails exactly when its translation does and with
  the same error: the stacks the visitor is programmed with never show.
\<close>

theorem where_clause_refines:
  "map_res (\<lambda>s. triple_patterns (query s)) (visitWhereClause api ctx (new_visitor q)) =
     (if subSelect ctx then Inl (RuntimeError ''Subqueries are not supported yet'')
      else case groupGraphPatternSub ctx of
             None \<Rightarrow> Inl (RuntimeError ''Malformed query'')
           | Some c \<Rightarrow> map_res ((@) (triple_patterns q)) (where_patterns api (prefixes q) (Some c)))"
  using where_clause_patterns [of ctx _ api q]
  by (auto simp: visitWhereClause_def visitGroupGraphPattern_def split: option.split)

end
