(* ===== verification/Query_Result.thy ===== *)
theory Query_Result
  imports Query_Dnf
begin

text \<open>
  What \<open>SPARQLQuery::parse\<close> guarantees of the query it returns: variables are numbered from \<open>'a'\<close> in
  order of registration, every variable of a triple pattern and every projected variable has an id, and
  the operand dependency graph has one operand per triple pattern, labelled with the ids of its
  variables. The invariant \<open>covered\<close> carries this through the visitor; it is an instance of
  \<open>visitor_invariant\<close>.
\<close>

subsection \<open>The invariant\<close>

definition labels :: "(variable \<rightharpoonup> uint8) \<Rightarrow> 'l triple_pattern \<Rightarrow> uint8 list" where
  "labels m tp = map (\<lambda>v. the (m v)) (pattern_vars tp)"

definition id_supply :: "variable list \<Rightarrow> (variable \<rightharpoonup> uint8) \<Rightarrow> uint8 \<Rightarrow> bool" where
  "id_supply vs m next \<longleftrightarrow>
     distinct vs \<and> dom m = set vs \<and> next = 97 + of_nat (length vs) \<and>
     (\<forall>i < length vs. m (vs ! i) = Some (97 + of_nat i))"

definition query_covered :: "'l sparql_query \<Rightarrow> uint8 \<Rightarrow> bool" where
  "query_covered q next \<longleftrightarrow>
     (\<exists>vs. id_supply vs (var_to_id q) next) \<and>
     (\<forall>tp \<in> set (triple_patterns q). set (pattern_vars tp) \<subseteq> dom (var_to_id q)) \<and>
     operands (odg q) = map (labels (var_to_id q)) (triple_patterns q) \<and>
     set (projected_variables q) \<subseteq> dom (var_to_id q) \<and> \<not> ask_flag q"

definition covered :: "'l visitor \<Rightarrow> bool" where
  "covered s \<longleftrightarrow>
     query_covered (query s) (var_id s) \<and>
     set (node_vars [active_subject s, active_predicate s]) \<subseteq> dom (var_to_id (query s))"

lemma id_supply_snoc:
  "id_supply vs m next \<Longrightarrow> m v = None \<Longrightarrow> id_supply (vs @ [v]) (m(v \<mapsto> next)) (next + 1)"
  by (auto simp: id_supply_def nth_append less_Suc_eq domIff add.assoc)

lemma labels_update: "set (pattern_vars tp) \<subseteq> dom m \<Longrightarrow> m v = None \<Longrightarrow> labels (m(v \<mapsto> i)) tp = labels m tp"
  by (auto simp: labels_def)

lemma register_var_covers:
  assumes "query_covered (query s) (var_id s)"
  shows "query_covered (query (register_var v s)) (var_id (register_var v s))"
    and "dom (var_to_id (query (register_var v s))) = insert v (dom (var_to_id (query s)))"
proof -
  show "query_covered (query (register_var v s)) (var_id (register_var v s))"
  proof (cases "var_to_id (query s) v")
    case None
    from assms obtain vs where "id_supply vs (var_to_id (query s)) (var_id s)"
      by (auto simp: query_covered_def)
    note id_supply_snoc [OF this None]
    with assms None show ?thesis
      by (auto simp: register_var_def query_covered_def labels_update)
  next
    case (Some i)
    with assms show ?thesis by (simp add: register_var_def)
  qed
  show "dom (var_to_id (query (register_var v s))) = insert v (dom (var_to_id (query s)))"
    by (auto simp: register_var_def)
qed

lemma register_node_covers:
  assumes "query_covered (query s) (var_id s)"
  shows "query_covered (query (register_node n s)) (var_id (register_node n s))"
    and "dom (var_to_id (query (register_node n s))) = set (node_vars [n]) \<union> dom (var_to_id (query s))"
  using register_var_covers [OF assms] assms by (auto simp: register_node_def split: node.split)

text \<open>On registered variables \<open>operator[]\<close> never inserts.\<close>

lemma tp_var_ids_registered: "set vs \<subseteq> dom m \<Longrightarrow> tp_var_ids vs m = (map (\<lambda>v. the (m v)) vs, m)"
  by (induction vs) (auto simp: Let_def)

lemma query_covered_cong:
  "query_covered q next \<Longrightarrow> odg_frame s s' \<Longrightarrow> query s = q \<Longrightarrow> query_covered (query s') next"
  using odg_frame_query [of s s'] by (simp add: query_covered_def odg_frame_def)

lemma covered_register:
  assumes "covered s"
  shows "covered (register_node obj s)"
    and "set (pattern_vars (active_subject s, active_predicate s, obj)) \<subseteq> dom (var_to_id (query (register_node obj s)))"
  using assms register_node_covers [of s obj] by (auto simp: covered_def pattern_vars_def set_node_vars subset_iff)

text \<open>What adding a triple pattern does to a covered state, in one equation.\<close>

definition with_pattern ::
  "'l sparql_api \<Rightarrow> 'l triple_pattern \<Rightarrow> uint8 list list \<Rightarrow> uint8 list \<Rightarrow> 'l visitor \<Rightarrow> 'l visitor" where
  "with_pattern api tp gps g s =
     (let q = query s; ids = labels (var_to_id q) tp; v = odg_add_operand api (odg q)
      in s\<lparr>query := q\<lparr>triple_patterns := triple_patterns q @ [tp],
             odg := link_group api ids v g (odg q @ [AddOperand ids])\<rparr>,
           group_patterns := gps @ [g @ [v]]\<rparr>)"

lemma add_object_effect:
  assumes "covered s" and "add_object api obj s = Inr s'"
  shows "\<exists>gps g. group_patterns s = gps @ [g] \<and>
           s' = with_pattern api (active_subject s, active_predicate s, obj) gps g (register_node obj s)"
proof -
  define s1 where "s1 = register_node obj s"
  have eqs: "active_subject s1 = active_subject s" "active_predicate s1 = active_predicate s"
    "group_patterns s1 = group_patterns s"
    by (simp_all add: s1_def)
  note ids = tp_var_ids_registered [OF covered_register(2) [OF assms(1), of obj], folded s1_def]
  show ?thesis
    using assms(2) unfolding add_object_def add_tp_def Let_def s1_def [symmetric]
    by (auto simp: eqs ids back_of_Inr with_pattern_def Let_def labels_def)
qed

lemma add_object_covered:
  assumes "covered s" and "add_object api obj s = Inr s'"
  shows "covered s'"
proof -
  define s1 where "s1 = register_node obj s"
  have eqs: "active_subject s1 = active_subject s" "active_predicate s1 = active_predicate s"
    by (simp_all add: s1_def)
  from add_object_effect [OF assms] obtain gps g where
    "s' = with_pattern api (active_subject s, active_predicate s, obj) gps g s1"
    unfolding s1_def by blast
  then show ?thesis
    using covered_register [OF assms(1), of obj, folded s1_def]
    by (simp add: covered_def query_covered_def with_pattern_def Let_def)
qed

lemma event_covered:
  assumes "covered s" and "run_event api ev s = Inr s'" and "\<And>tbs. ev \<noteq> EvGroup tbs"
  shows "covered s'"
  using assms by (cases ev) (auto simp: covered_def open_optionals_def close_optionals_def)

interpretation coverage: visitor_invariant api covered for api
proof (unfold_locales, goal_cases)
  case (1 s n)
  then show ?case
    using register_node_covers [of "s\<lparr>active_subject := n\<rparr>" n] by (auto simp: covered_def set_node_vars)
next
  case (2 s i)
  then show ?case by (auto simp: covered_def set_node_vars)
next
  case (3 s v)
  then show ?case
    using register_var_covers [of s v] by (auto simp: covered_def set_node_vars)
next
  case (4 s d obj s')
  then show ?case using add_object_covered by blast
next
  case (5 s d s')
  then show ?case
    using connect_optional_frame [OF 5(3)] query_covered_cong [of "query s" "var_id s" s s']
      odg_frame_query [of s s']
    by (simp add: covered_def odg_frame_def)
next
  case (6 s d)
  then show ?case by (simp add: covered_def open_optionals_def)
next
  case (7 s d)
  then show ?case by (simp add: covered_def)
next
  case (8 s d s')
  then show ?case using event_covered by blast
next
  case (9 s d s')
  then show ?case using event_covered [of s _ EvClose] by simp
qed

subsection \<open>From the where clause to the query\<close>

lemma visitPrologue_new:
  assumes "visitPrologue p q = Inr q'"
  shows "q' = q\<lparr>prefixes := prefixes q'\<rparr>"
proof -
  from assms obtain t where t: "mfold visitPrefixDecl (prefixDecl p) q = Inr t"
    "mfold (\<lambda>_ _. Inl (RuntimeError ''Base Declarations not supported yet.'')) (baseDecl p) t = Inr q'"
    by (auto simp: visitPrologue_def)
  have "\<exists>ps. t = q\<lparr>prefixes := ps\<rparr>"
    by (rule mfold_invariant [OF t(1)])
       (auto simp: visitPrefixDecl_def Let_def intro: exI [where x = "prefixes q"])
  moreover have "q' = t" using t(2) by (cases "baseDecl p") simp_all
  ultimately show ?thesis by auto
qed

lemma where_covered:
  assumes "visitWhereClause api w s = Inr s'" and "covered s" and "shape (0, 0) s"
  shows "covered s'"
proof -
  obtain t where "shape (1, 0) t \<and> covered t" "pop_group t = Inr s'"
    by (rule coverage.where_clause_good [OF assms(1,3,2)])
  then show ?thesis by (auto simp: pop_group_def covered_def)
qed

text \<open>The where clause does not touch the head of the query.\<close>

definition query_head :: "'l sparql_query \<Rightarrow> variable list \<times> (string \<times> string) list \<times> bool \<times> bool \<times> bool" where
  "query_head q = (projected_variables q, prefixes q, distinct_flag q, ask_flag q, project_all_variables q)"

lemma register_head [simp]:
  "query_head (query (register_var v s)) = query_head (query s)"
  "query_head (query (register_node n s)) = query_head (query s)"
  by (simp_all add: query_head_def register_var_def register_node_def split: node.split)

interpretation head: visitor_invariant api "\<lambda>s. query_head (query s) = h" for api h
proof (unfold_locales, goal_cases)
  case (4 s d obj s')
  then show ?case
    using register_head(2) [of obj s]
    by (auto simp: add_object_def add_tp_def Let_def query_head_def split: prod.splits)
next
  case (5 s d s')
  have "query_head ((query s')\<lparr>odg := []\<rparr>) = query_head ((query s)\<lparr>odg := []\<rparr>)"
    using connect_optional_frame [OF 5(3)] by (simp add: odg_frame_def)
  then show ?case using 5(1) by (simp add: query_head_def)
qed (auto simp: open_optionals_def close_optionals_def)

lemma where_head:
  assumes "visitWhereClause api w s = Inr s'" and "shape (0, 0) s"
  shows "query_head (query s') = query_head (query s)"
proof -
  obtain t where "shape (1, 0) t \<and> query_head (query t) = query_head (query s)" "pop_group t = Inr s'"
    by (rule head.where_clause_good [OF assms refl])
  then show ?thesis by (auto simp: pop_group_def)
qed

lemma project_star_eq:
  "project_star ns seen proj = proj @ nub_acc seen (filter (\<lambda>v. \<not> is_anonymous v) (node_vars ns))"
  by (induction ns seen proj rule: project_star.induct) auto

lemma node_vars_concat: "node_vars (concat nss) = concat (map node_vars nss)"
  by (induction nss) simp_all

lemma select_variable_covers:
  assumes "select_variable c s = Inr s'" and "query_covered (query s) (var_id s)"
  shows "query_covered (query s') (var_id s') \<and> triple_patterns (query s') = triple_patterns (query s) \<and>
         odg (query s') = odg (query s)"
proof -
  obtain v where "query s' = (query (register_var v s))\<lparr>projected_variables :=
      projected_variables (query (register_var v s)) @ [v]\<rparr>" "var_id s' = var_id (register_var v s)"
    using assms(1) by (auto simp: select_variable_def Let_def split: option.splits)
  then show ?thesis
    using register_var_covers [OF assms(2), of v] by (auto simp: query_covered_def)
qed

lemma query_covered_flags [simp]:
  "query_covered (q\<lparr>distinct_flag := b\<rparr>) i = query_covered q i"
  "query_covered (q\<lparr>project_all_variables := b\<rparr>) i = query_covered q i"
  by (simp_all add: query_covered_def)

lemma query_covered_star:
  assumes "query_covered q i"
  shows "query_covered (q\<lparr>project_all_variables := True, projected_variables :=
      project_star (concat (map nodes_of (triple_patterns q))) {} (projected_variables q)\<rparr>) i"
proof -
  have "set (node_vars (concat (map nodes_of (triple_patterns q)))) \<subseteq> dom (var_to_id q)"
    using assms by (auto simp: query_covered_def node_vars_concat pattern_vars_def)
  then show ?thesis using assms by (auto simp: query_covered_def project_star_eq)
qed

lemma select_covered:
  assumes "visitSelectClause api sc s = Inr s'" and "query_covered (query s) (var_id s)"
  shows "query_covered (query s') (var_id s') \<and> triple_patterns (query s') = triple_patterns (query s) \<and>
         odg (query s') = odg (query s)"
proof -
  define s1 where
    "s1 = (if selectModifier_DISTINCT sc = Some True then s\<lparr>query := (query s)\<lparr>distinct_flag := True\<rparr>\<rparr> else s)"
  have s1: "query_covered (query s1) (var_id s1)" "triple_patterns (query s1) = triple_patterns (query s)"
    "odg (query s1) = odg (query s)"
    using assms(2) by (simp_all add: s1_def)
  show ?thesis
  proof (cases "ASTERISK sc")
    case True
    then show ?thesis
      using assms(1) query_covered_star [OF s1(1)] s1(2,3)
      unfolding visitSelectClause_def s1_def [symmetric] Let_def by (auto split: if_splits)
  next
    case False
    then have run: "mfold select_variable (selectVariables sc) s1 = Inr s'"
      using assms(1) unfolding visitSelectClause_def s1_def [symmetric] Let_def by (auto split: if_splits)
    show ?thesis
      by (rule mfold_invariant [OF run]) (use s1 select_variable_covers in auto)
  qed
qed

lemma new_visitor_covered: "q = new_query\<lparr>prefixes := ps\<rparr> \<Longrightarrow> covered (new_visitor q)"
  by (simp add: covered_def query_covered_def new_visitor_def new_query_def id_supply_def)

text \<open>A successful parse, taken apart: the where clause it ran and the state it left.\<close>

lemma sparql_parse_cases:
  assumes "sparql_parse api ctx = Inr q"
  obtains (select) c w ps s s' where "selectQuery ctx = Some c" "select_whereClause c = Some w"
      "visitWhereClause api w (new_visitor (new_query\<lparr>prefixes := ps\<rparr>)) = Inr s"
      "visitSelectClause api (selectClause c) s = Inr s'" "query s' = q" "covered s"
    | (ask) c w ps s where "selectQuery ctx = None" "askQuery ctx = Some c" "ask_whereClause c = Some w"
      "visitWhereClause api w (new_visitor (new_query\<lparr>prefixes := ps\<rparr>)) = Inr s" "query s = q" "covered s"
proof -
  obtain q0 where q0: "(case prologue ctx of None \<Rightarrow> Inr new_query | Some p \<Rightarrow> visitPrologue p new_query) = Inr q0"
    and rest: "bind_res (case selectQuery ctx of Some c \<Rightarrow> visitSelectQuery api c (new_visitor q0)
         | None \<Rightarrow> (case askQuery ctx of Some c \<Rightarrow> visitAskQuery api c (new_visitor q0) | None \<Rightarrow> Inr (new_visitor q0)))
       (\<lambda>s. Inr (query s)) = Inr q" "selectQuery ctx \<noteq> None \<or> askQuery ctx \<noteq> None"
    using assms by (auto simp: sparql_parse_def simp del: option.case_eq_if split: if_splits)
  from q0 have "q0 = new_query\<lparr>prefixes := prefixes q0\<rparr>"
    using visitPrologue_new [of _ new_query q0] by (cases "prologue ctx") (auto simp: new_query_def)
  then obtain ps where q0: "q0 = new_query\<lparr>prefixes := ps\<rparr>" by blast
  have covered: "covered s" if "visitWhereClause api w (new_visitor (new_query\<lparr>prefixes := ps\<rparr>)) = Inr s" for w s
    by (rule where_covered [OF that new_visitor_covered]) (simp_all add: new_visitor_def shape_def)
  show thesis
  proof (cases "selectQuery ctx")
    case None
    with rest(2) obtain c where c: "askQuery ctx = Some c" by auto
    with None rest(1) obtain w s where "ask_whereClause c = Some w" "query s = q"
      "visitWhereClause api w (new_visitor (new_query\<lparr>prefixes := ps\<rparr>)) = Inr s"
      by (auto simp: visitAskQuery_def q0 split: option.splits)
    then show thesis using ask [OF None c] covered by blast
  next
    case (Some c)
    with rest(1) obtain w s s' where "select_whereClause c = Some w" "query s' = q"
      "visitWhereClause api w (new_visitor (new_query\<lparr>prefixes := ps\<rparr>)) = Inr s"
      "visitSelectClause api (selectClause c) s = Inr s'"
      by (auto simp: visitSelectQuery_def q0 split: option.splits)
    then show thesis using select [OF Some] covered by blast
  qed
qed

lemma parse_covered:
  assumes "sparql_parse api ctx = Inr q"
  shows "\<exists>next. query_covered q next"
  using assms
proof (cases rule: sparql_parse_cases)
  case (select c w ps s s')
  then show ?thesis using select_covered [of api "selectClause c" s s'] by (auto simp: covered_def)
next
  case (ask c w ps s)
  then show ?thesis by (auto simp: covered_def)
qed

subsection \<open>A concrete library and query\<close>

text \<open>
  Operands numbered in order and IRIs taken as they are; the query is
  \<open>SELECT * WHERE { ?s <p> ?o . OPTIONAL { ?o <q> _:b } }\<close>.
\<close>

definition sample_api :: "string sparql_api" where
  "sample_api = \<lparr>make_iri = Inr, make_typed = (\<lambda>v _. Inr v), make_lang_tagged = (\<lambda>v _. Inr v), make_simple = Inr,
     make_boolean = (\<lambda>_. Inr ''''), from_prefix = (\<lambda>_ p l. Some (p @ l)),
     odg_add_operand = (\<lambda>cs. of_nat (length (operands cs))),
     odg_operand_var_ids = (\<lambda>cs i. operands cs ! unat i)\<rparr>"

lemma sample_api_contract: "odg_contract sample_api"
  by (auto simp: odg_contract_def sample_api_def)

definition var_term :: "string \<Rightarrow> var_or_term_ctx" where
  "var_term v = VarOrTermCtx (Some (VarCtx (CHR ''?'' # v))) None"

definition blank_term :: "string \<Rightarrow> var_or_term_ctx" where
  "blank_term v = VarOrTermCtx None
     (Some (GraphTermCtx None (Some (BlankNodeCtx (Some (''_:'' @ v)))) None None None))"

definition iri_verb :: "string \<Rightarrow> verb_ctx" where
  "iri_verb i = VerbCtx (Some (PathCtx (Some [ [PathEltOrInverseCtx False
     (PathPrimaryCtx (Some (IriCtx (Some (''<'' @ i @ ''>'')) None)) False False None)] ]))) None"

definition one_triple :: "var_or_term_ctx \<Rightarrow> verb_ctx \<Rightarrow> var_or_term_ctx \<Rightarrow> triples_block_ctx" where
  "one_triple s p t = [TriplesSameSubjectPathCtx (Some s) (Some (PropertyListPathNotEmptyCtx p (Some [Some t]) []))
     False False]"

definition optional_item :: "group_graph_pattern_ctx \<Rightarrow> group_graph_pattern_sub_list_ctx" where
  "optional_item g = GroupGraphPatternSubListCtx (Some (GraphPatternNotTriplesCtx None (Some g))) None"

definition triples_group :: "triples_block_ctx \<Rightarrow> group_graph_pattern_sub_list_ctx list \<Rightarrow> group_graph_pattern_ctx" where
  "triples_group tb is = GroupGraphPatternCtx False (Some (GroupGraphPatternSubCtx (Some tb) is))"

definition select_star :: "group_graph_pattern_ctx \<Rightarrow> query_ctx" where
  "select_star w = QueryCtx (Some (SelectQueryCtx (Some w) (SelectClauseCtx None True []))) None None"

lemmas sample_defs = sample_api_def var_term_def blank_term_def iri_verb_def one_triple_def
  optional_item_def triples_group_def select_star_def

definition sample_query :: query_ctx where
  "sample_query = select_star (triples_group (one_triple (var_term ''s'') (iri_verb ''p'') (var_term ''o''))
     [optional_item (triples_group (one_triple (var_term ''o'') (iri_verb ''q'') (blank_term ''b'')) [])])"

definition sample_result :: "string sparql_query" where
  "sample_result =
     (let s = Variable ''s'' False; t = Variable ''o'' False; b = Variable ''b'' True
      in \<lparr>odg = [AddOperand [97, 98], AddOperand [98, 99], AddDependency 0 1 (Some 98)],
          projected_variables = [s, t], var_to_id = [s \<mapsto> 97, t \<mapsto> 98, b \<mapsto> 99],
          triple_patterns = [(VarNode s, IRI ''p'', VarNode t), (VarNode t, IRI ''q'', VarNode b)],
          prefixes = [], distinct_flag = False, ask_flag = False, project_all_variables = True\<rparr>)"

lemmas visitor_run_defs = sparql_parse_def visitSelectQuery_def visitSelectClause_def visitWhereClause_def
  visitGroupGraphPattern_def visitGroupGraphPatternSub_def collect_def collect_item_def push_triples_def
  push_optional_def visit_group_def visitTriplesBlock_def visitTriplesSameSubjectPath_def
  visitPropertyListPathNotEmpty_def visitProperty_def visitVerb_def visitObjectList_def visitObject_def
  visitVarOrTerm_def visitVar_def visitBlankNode_def visitIri_def add_tp_def register_var_def register_node_def
  pattern_vars_def link_group_def link_operands_def connect_optional_def parent_group_def group_dependencies_def
  depend_def store_operand_def set_odg_def open_optionals_def close_optionals_def enter_pattern_def
  leave_optional_def leave_pattern_def new_visitor_def new_query_def substr_def sz_sub_def npos_def
  modify_back_def back_of_def pop_back_def

lemma sample_parse: "sparql_parse sample_api sample_query = Inr sample_result"
  by (simp add: visitor_run_defs sample_defs sample_query_def sample_result_def Let_def)

subsection \<open>Properties of a parsed query\<close>

text \<open>
  C23. The operand dependency graph of a parsed query has exactly one operand per triple pattern, in the
  order of the patterns, labelled with the ids of the pattern's variables; every variable of a pattern
  has an id, so the visitor's map lookups never invent one.
\<close>

theorem parse_operands_match:
  assumes "sparql_parse api ctx = Inr q"
  shows "operands (odg q) = map (\<lambda>tp. map (\<lambda>v. the (var_to_id q v)) (pattern_vars tp)) (triple_patterns q) \<and>
         (\<forall>tp \<in> set (triple_patterns q). \<forall>v \<in> set (pattern_vars tp). var_to_id q v \<noteq> None)"
  using parse_covered [OF assms] by (auto simp: query_covered_def labels_def)

theorem parse_operands_match_witness:
  "operands (odg sample_result) = [ [97, 98], [98, 99] ]"
  using conjunct1 [OF parse_operands_match [OF sample_parse]]
  by (simp add: sample_result_def Let_def pattern_vars_def)

lemma variable_ids_inj:
  assumes "sparql_parse api ctx = Inr q"
  shows "inj_on (var_to_id q) (dom (var_to_id q)) \<longleftrightarrow> card (dom (var_to_id q)) \<le> 256"
proof -
  obtain vs "next" where vs: "id_supply vs (var_to_id q) next"
    using parse_covered [OF assms] by (auto simp: query_covered_def)
  let ?id = "\<lambda>i. 97 + of_nat i :: uint8"
  have dom: "dom (var_to_id q) = (\<lambda>i. vs ! i) ` {..<length vs}" "distinct vs"
    using vs by (auto simp: id_supply_def set_conv_nth image_def)
  have idx: "inj_on (\<lambda>i. vs ! i) {..<length vs}"
    using dom(2) by (simp add: inj_on_def nth_eq_iff_index_eq)
  have "inj_on (var_to_id q) (dom (var_to_id q)) \<longleftrightarrow> inj_on (\<lambda>i. var_to_id q (vs ! i)) {..<length vs}"
    using comp_inj_on_iff [OF idx, of "var_to_id q"] dom(1) by (simp add: comp_def)
  also have "\<dots> \<longleftrightarrow> inj_on ?id {..<length vs}"
    using vs by (auto simp: id_supply_def inj_on_def)
  also have "\<dots> \<longleftrightarrow> length vs \<le> 256" by (rule uint8_count_inj)
  also have "length vs = card (dom (var_to_id q))"
    using vs by (simp add: id_supply_def distinct_card)
  finally show ?thesis .
qed

lemma wrapped_id: "(97 + of_nat (i + 256) :: uint8) = 97 + of_nat i"
proof -
  have "(of_nat (i + 256) :: uint8) = of_nat i + of_nat 256" by (rule of_nat_add)
  also have "(of_nat 256 :: uint8) = 0" by simp
  finally show ?thesis by simp
qed

text \<open>
  C27. The variables of a parsed query are numbered consecutively from \<open>'a'\<close> in a \<open>char\<close> that wraps around: in a suitable
  order of them the variable at position \<open>i\<close> has the id \<open>'a' + i\<close> modulo 256. So the variable at position \<open>i + 256\<close> shares
  the id of that at position \<open>i\<close>, and ids are distinct exactly as long as there are at most 256 variables.
\<close>

theorem parse_variable_ids:
  assumes "sparql_parse api ctx = Inr q"
  shows "\<exists>vs. distinct vs \<and> set vs = dom (var_to_id q) \<and>
           (\<forall>i < length vs. var_to_id q (vs ! i) = Some (97 + of_nat i)) \<and>
           (\<forall>i. i + 256 < length vs \<longrightarrow> var_to_id q (vs ! (i + 256)) = var_to_id q (vs ! i)) \<and>
           (inj_on (var_to_id q) (dom (var_to_id q)) \<longleftrightarrow> length vs \<le> 256)"
proof -
  obtain vs "next" where "id_supply vs (var_to_id q) next"
    using parse_covered [OF assms] by (auto simp: query_covered_def)
  then have vs: "distinct vs" "set vs = dom (var_to_id q)" "\<forall>i < length vs. var_to_id q (vs ! i) = Some (97 + of_nat i)"
    by (auto simp: id_supply_def)
  have "\<forall>i. i + 256 < length vs \<longrightarrow> var_to_id q (vs ! (i + 256)) = var_to_id q (vs ! i)"
    using vs(3) wrapped_id by (simp del: of_nat_add)
  moreover have "inj_on (var_to_id q) (dom (var_to_id q)) \<longleftrightarrow> length vs \<le> 256"
    using variable_ids_inj [OF assms] vs(1,2) by (metis distinct_card)
  ultimately show ?thesis using vs by blast
qed

theorem parse_variable_ids_witness: "inj_on (var_to_id sample_result) (dom (var_to_id sample_result))"
proof -
  have "card (dom (var_to_id sample_result)) \<le> 256"
    by (simp add: sample_result_def Let_def card_insert_if)
  then show ?thesis using parse_variable_ids [OF sample_parse] by (metis distinct_card)
qed

text \<open>
  \<open>SELECT *\<close> projects the named variables of the triple patterns, each once, in order of first
  occurrence; blank nodes are not projected, and a query without named variables is rejected.
\<close>

lemma parse_select_star:
  assumes "sparql_parse api ctx = Inr q" and "selectQuery ctx = Some c" and "ASTERISK (selectClause c)"
  shows "projected_variables q =
           nub_acc {} (filter (\<lambda>v. \<not> is_anonymous v) (concat (map pattern_vars (triple_patterns q)))) \<and>
         projected_variables q \<noteq> []"
  using assms(1)
proof (cases rule: sparql_parse_cases)
  case (select c' w ps s s')
  have proj: "projected_variables (query s) = []"
    using where_head [OF select(3)] by (simp add: new_visitor_def new_query_def query_head_def shape_def)
  have "c' = c" using select(1) assms(2) by simp
  then show ?thesis
    using select(4,5) assms(3) proj
    by (auto simp: visitSelectClause_def Let_def project_star_eq node_vars_concat comp_def
        pattern_vars_def [abs_def] split: if_splits)
next
  case (ask c' w ps s)
  with assms(2) show ?thesis by simp
qed

lemma parse_select_star_example:
  "projected_variables sample_result = [Variable ''s'' False, Variable ''o'' False]"
  using conjunct1 [OF parse_select_star [OF sample_parse, of "the (selectQuery sample_query)"]]
  by (simp add: sample_query_def select_star_def sample_result_def Let_def pattern_vars_def)

text \<open>
  Every projected variable has an id, also one that no triple pattern mentions, and no parsed query
  carries the ASK flag, ASK queries included: nothing ever sets it.
\<close>

lemma parse_projection_and_ask:
  assumes "sparql_parse api ctx = Inr q"
  shows "(\<forall>v \<in> set (projected_variables q). var_to_id q v \<noteq> None) \<and> \<not> ask_flag q \<and>
         (selectQuery ctx = None \<longrightarrow> projected_variables q = [])"
proof -
  have "selectQuery ctx = None \<longrightarrow> projected_variables q = []"
    using assms
  proof (cases rule: sparql_parse_cases)
    case (ask c w ps s)
    then show ?thesis
      using where_head [OF ask(4)] by (simp add: new_visitor_def new_query_def query_head_def shape_def)
  qed simp
  then show ?thesis using parse_covered [OF assms] by (auto simp: query_covered_def)
qed

definition sample_ask :: query_ctx where
  "sample_ask = QueryCtx None (Some (AskQueryCtx (Some (triples_group
     (one_triple (var_term ''s'') (iri_verb ''p'') (var_term ''o'')) [])))) None"

definition sample_ask_result :: "string sparql_query" where
  "sample_ask_result =
     (let s = Variable ''s'' False; t = Variable ''o'' False
      in \<lparr>odg = [AddOperand [97, 98]], projected_variables = [], var_to_id = [s \<mapsto> 97, t \<mapsto> 98],
          triple_patterns = [(VarNode s, IRI ''p'', VarNode t)],
          prefixes = [], distinct_flag = False, ask_flag = False, project_all_variables = False\<rparr>)"

lemma sample_ask_parse: "sparql_parse sample_api sample_ask = Inr sample_ask_result"
  by (simp add: visitor_run_defs visitAskQuery_def sample_defs sample_ask_def sample_ask_result_def Let_def)

lemma parse_projection_and_ask_example:
  "\<not> ask_flag sample_ask_result \<and> projected_variables sample_ask_result = []"
  using parse_projection_and_ask [OF sample_ask_parse] by (simp add: sample_ask_def)

text \<open>
  A subselect directly inside an OPTIONAL is not rejected with a message, as it is at the top level:
  the visitor dereferences the null \<open>groupGraphPatternSub()\<close>.
\<close>

lemma optional_subselect_null:
  assumes "\<not> subSelect w" and "groupGraphPatternSub w = Some c" and "ctx_gous c = []"
    and "concat_res (block_patterns api (prefixes q)) (ctx_tbs c) = Inr ps"
    and "ctx_opts c = opt # opts" and "groupGraphPatternSub opt = None"
  shows "visitWhereClause api w (new_visitor q) = Inl NullDeref"
proof -
  have "where_patterns api prefs None = Inl NullDeref" for prefs
    by (simp add: where_patterns.simps [of api prefs None])
  then have "where_patterns api (prefixes q) (Some c) = Inl NullDeref"
    using assms(3-) by (simp add: where_patterns.simps [of _ _ "Some c"])
  then show ?thesis
    using where_clause_patterns [OF assms(1,2), of api q]
    by (cases "visitWhereClause api w (new_visitor q)") simp_all
qed

lemma optional_subselect_null_example:
  "visitWhereClause sample_api
     (triples_group (one_triple (var_term ''s'') (iri_verb ''p'') (var_term ''o''))
        [optional_item (GroupGraphPatternCtx True None)]) (new_visitor new_query) = Inl NullDeref"
proof -
  define tb where "tb = one_triple (var_term ''s'') (iri_verb ''p'') (var_term ''o'')"
  define c where "c = GroupGraphPatternSubCtx (Some tb) [optional_item (GroupGraphPatternCtx True None)]"
  have "visitWhereClause sample_api (GroupGraphPatternCtx False (Some c)) (new_visitor new_query) = Inl NullDeref"
    by (rule optional_subselect_null [where c = c and opt = "GroupGraphPatternCtx True None" and opts = "[]"
          and ps = "[(VarNode (Variable ''s'' False), IRI ''p'', VarNode (Variable ''o'' False))]"])
       (simp_all add: c_def tb_def ctx_gous_def item_gous_def ctx_opts_def item_opts_def ctx_tbs_def
         block_patterns_def subject_patterns_def property_patterns_def object_pattern_def verb_node_def
         sample_defs visitVarOrTerm_def visitVar_def visitIri_def substr_def sz_sub_def npos_def)
  then show ?thesis by (simp add: triples_group_def c_def tb_def)
qed

text \<open>
  Joins are distributed over unions: the visitor of a where clause whose union alternatives are all
  proper group patterns visits one conjunctive group for every choice of one alternative from each
  union, so their number is the product over its unions of the sum over their alternatives.
\<close>

lemma union_groups_multiply:
  assumes "\<not> subSelect ctx" and "groupGraphPatternSub ctx = Some c" and "None \<notin> set (den (Some c))"
  shows "visitWhereClause api ctx s =
           bind_res (mfold (run_event api) (EvEnter # concat (map leaf_script (den (Some c)))) s) pop_group \<and>
         length (den (Some c)) =
           prod_list (map (\<lambda>g. sum_list (map (\<lambda>a. length (den (groupGraphPatternSub a))) g)) (ctx_gous c))"
proof -
  have "script (Some c) [] [] [] = concat (map leaf_script (den (Some c)))"
    by (simp add: script_den)
  then show ?thesis
    using assms length_den_unions [of "ctx_gous c"]
    by (auto simp: visitWhereClause_runs_script [OF assms(1,2)] where_script_def extend_def simp del: mfold.simps)
qed

definition union_item :: "group_graph_pattern_ctx list \<Rightarrow> group_graph_pattern_sub_list_ctx" where
  "union_item g = GroupGraphPatternSubListCtx (Some (GraphPatternNotTriplesCtx (Some g) None)) None"

text \<open>Two unions, of two and of one alternatives.\<close>

definition sample_unions :: group_graph_pattern_sub_ctx where
  "sample_unions =
     (let g = (\<lambda>x. triples_group (one_triple (var_term x) (iri_verb ''p'') (var_term ''o'')) []) in
      GroupGraphPatternSubCtx None [union_item [g ''a'', g ''b''], union_item [g ''c'']])"

lemma union_groups_multiply_example: "length (den (Some sample_unions)) = 2"
proof -
  have "None \<notin> set (den (Some sample_unions))"
    by (simp add: sample_unions_def union_item_def triples_group_def ctx_gous_def item_gous_def
        den_unions.simps [of "[_]"] den_unions.simps [of "[_, _]"] product_def extend_def)
  then have "length (den (Some sample_unions)) =
      prod_list (map (\<lambda>g. sum_list (map (\<lambda>a. length (den (groupGraphPatternSub a))) g)) (ctx_gous sample_unions))"
    using union_groups_multiply [of "GroupGraphPatternCtx False (Some sample_unions)" sample_unions sample_api
        "new_visitor new_query"] by simp
  then show ?thesis
    by (simp add: sample_unions_def union_item_def triples_group_def ctx_gous_def item_gous_def)
qed

end
