(* ===== verification/Query_Graph.thy ===== *)
theory Query_Graph
  imports Query_Result
begin

text \<open>
  The operand dependency graph a query is parsed to, under \<open>odg_contract\<close> and for at most 256 triple
  patterns.

  \<^item> For every query: edges join distinct existing operands, their label is shared by both ends (an
    unlabelled edge joins operands that share none), an edge against the order of the patterns comes
    with its opposite, and connections are symmetric (\<open>graph_ok\<close>).
  \<^item> For a list of operands \<open>join_graph\<close> has the calls that join every two of them in both directions,
    once per shared label.
\<close>

subsection \<open>Well-formed graphs\<close>

fun edge_ok :: "uint8 list list \<Rightarrow> odg_call list \<Rightarrow> odg_call \<Rightarrow> bool" where
  "edge_ok ops cs (AddOperand vs) = True"
| "edge_ok ops cs (AddDependency a b l) =
     (unat a < length ops \<and> unat b < length ops \<and> a \<noteq> b \<and> l \<in> set (join_labels (ops ! unat a) (ops ! unat b)) \<and>
      (b < a \<longrightarrow> AddDependency b a l \<in> set cs))"
| "edge_ok ops cs (AddConnection a b) =
     (unat a < length ops \<and> unat b < length ops \<and> AddConnection b a \<in> set cs)"

definition graph_ok :: "odg_call list \<Rightarrow> bool" where
  "graph_ok cs \<longleftrightarrow> (\<forall>c \<in> set cs. edge_ok (operands cs) cs c)"

lemma join_labels_sym: "l \<in> set (join_labels vs ws) \<longleftrightarrow> l \<in> set (join_labels ws vs)"
  by (auto simp: join_labels_def)

lemma edge_ok_append: "edge_ok ops cs c \<Longrightarrow> edge_ok (ops @ ops') (cs @ cs') c"
  by (cases c) (auto simp: nth_append)

lemma graph_ok_append:
  assumes "graph_ok cs" and "operands es = []" and "\<And>e. e \<in> set es \<Longrightarrow> edge_ok (operands cs) (cs @ es) e"
  shows "graph_ok (cs @ es)"
  using assms edge_ok_append [of "operands cs" cs _ "[]" es] by (auto simp: graph_ok_def)

lemma graph_ok_operand: "graph_ok cs \<Longrightarrow> graph_ok (cs @ [AddOperand vs])"
  using edge_ok_append [of "operands cs" cs _ "[vs]" "[AddOperand vs]"] by (auto simp: graph_ok_def)

lemma contract_labels:
  "odg_contract api \<Longrightarrow> unat i < length (operands cs) \<Longrightarrow> length (operands cs) \<le> 256 \<Longrightarrow>
   odg_operand_var_ids api cs i = operands cs ! unat i"
  unfolding odg_contract_def by (elim conjE, drule spec [of _ cs], drule spec [of _ cs], drule spec [of _ "unat i"]) simp

lemma contract_operand:
  "odg_contract api \<Longrightarrow> length (operands cs) < 256 \<Longrightarrow>
   odg_add_operand api cs = of_nat (length (operands cs)) \<and> unat (odg_add_operand api cs) = length (operands cs)"
  by (simp add: odg_contract_def)

lemma link_operands_ok:
  assumes "odg_contract api" and "length (operands cs) \<le> 256" and "graph_ok cs"
    and "unat a < length (operands cs)" and "unat b < length (operands cs)" and "a \<noteq> b"
    and "operands cs ! unat b = vs"
  shows "graph_ok (link_operands api vs b a cs)"
  unfolding link_operands_eq contract_labels [OF assms(1,4,2)]
proof (rule graph_ok_append [OF assms(3)])
  let ?ls = "join_labels vs (operands cs ! unat a)"
  fix e assume "e \<in> set (concat (map (edge_pair a b) ?ls))"
  then obtain l where l: "l \<in> set ?ls" "e \<in> set (edge_pair a b l)" by auto
  have "set (edge_pair a b l) \<subseteq> set (concat (map (edge_pair a b) ?ls))"
    using l(1) by auto
  then show "edge_ok (operands cs) (cs @ concat (map (edge_pair a b) ?ls)) e"
    using l assms(4-) join_labels_sym [of l vs] by (auto simp: edge_pair_def)
qed simp

lemma link_group_ok:
  assumes "odg_contract api" and "length (operands cs) \<le> 256" and "graph_ok cs"
    and "\<And>i. i \<in> set gp \<Longrightarrow> unat i < length (operands cs) \<and> i \<noteq> b"
    and "unat b < length (operands cs)" and "operands cs ! unat b = vs"
  shows "graph_ok (link_group api vs b gp cs)"
proof -
  have "graph_ok (fold (link_operands api vs b) (rev gp) cs) \<and>
      operands (fold (link_operands api vs b) (rev gp) cs) = operands cs"
    by (rule fold_invariant [where Q = "\<lambda>i. i \<in> set gp" and P = "\<lambda>ds. graph_ok ds \<and> operands ds = operands cs"])
       (use assms in \<open>auto intro!: link_operands_ok\<close>)
  then show ?thesis by (simp add: link_group_def)
qed

lemma depend_ok:
  assumes "odg_contract api" and "length (operands cs) \<le> 256" and "graph_ok cs"
    and "unat a < length (operands cs)" and "unat b < length (operands cs)" and "a < b"
    and "operands cs ! unat a = vs"
  shows "graph_ok (depend api False a vs b cs)"
  unfolding depend_eq contract_labels [OF assms(1,5,2)]
proof (rule graph_ok_append [OF assms(3)])
  fix e assume "e \<in> set (concat (map (group_edge False a b) (group_labels vs (operands cs ! unat b))))"
  then show "edge_ok (operands cs) (cs @ concat (map (group_edge False a b) (group_labels vs (operands cs ! unat b)))) e"
    using assms(4-) by (auto simp: group_edge_def group_labels_def join_labels_def split: if_splits)
qed simp

lemma group_dependencies_ok:
  assumes "odg_contract api" and "length (operands cs) \<le> 256" and "graph_ok cs"
    and "\<And>i. i \<in> set (prev @ cur) \<Longrightarrow> unat i < length (operands cs)"
    and "\<And>a b. a \<in> set prev \<Longrightarrow> b \<in> set cur \<Longrightarrow> a < b"
  shows "graph_ok (group_dependencies api prev cur False cs)"
proof -
  let ?P = "\<lambda>ds. graph_ok ds \<and> operands ds = operands cs"
  have inner: "?P (fold (depend api False a (odg_operand_var_ids api ds a)) cur ds)" if "a \<in> set prev" "?P ds" for a ds
    by (rule fold_invariant [where Q = "\<lambda>b. b \<in> set cur" and P = ?P])
       (use that assms contract_labels [of api a ds] in \<open>auto intro!: depend_ok\<close>)
  have "?P (group_dependencies api prev cur False cs)"
    unfolding group_dependencies_def
    by (rule fold_invariant [where Q = "\<lambda>a. a \<in> set prev" and P = ?P]) (use inner assms(3) in auto)
  then show ?thesis ..
qed

subsection \<open>The invariant of the visitor\<close>

definition graph_wf :: "'l visitor \<Rightarrow> bool" where
  "graph_wf s \<longleftrightarrow>
     graph_ok (odg (query s)) \<and> sorted_wrt (<) (concat (group_patterns s)) \<and>
     (\<forall>ids \<in> set (group_patterns s) \<union> set (opt_operands s). \<forall>i \<in> set ids.
        unat i < length (operands (odg (query s))))"

lemmas graph_wf_split = graph_wf_def ball_Un

definition graph_inv :: "'l sparql_api \<Rightarrow> 'l visitor \<Rightarrow> bool" where
  "graph_inv api s \<longleftrightarrow>
     covered s \<and> (odg_contract api \<longrightarrow> length (operands (odg (query s))) \<le> 256 \<longrightarrow> graph_wf s)"

lemma with_pattern_odg:
  "odg (query (with_pattern api tp gps g s)) =
     (let cs = odg (query s); ids = labels (var_to_id (query s)) tp
      in link_group api ids (odg_add_operand api cs) g (cs @ [AddOperand ids]))"
  "group_patterns (with_pattern api tp gps g s) = gps @ [g @ [odg_add_operand api (odg (query s))]]"
  "opt_operands (with_pattern api tp gps g s) = opt_operands s"
  by (simp_all add: with_pattern_def Let_def)

lemma with_pattern_wf:
  assumes "odg_contract api" and "length (operands (odg (query s))) < 256" and "graph_wf s"
    and "group_patterns s = gps @ [g]"
  shows "graph_wf (with_pattern api tp gps g s)"
proof -
  define cs ids v where defs: "cs = odg (query s)" "ids = labels (var_to_id (query s)) tp" "v = odg_add_operand api cs"
  let ?ops = "operands (cs @ [AddOperand ids])"
  have v: "unat v = length (operands cs)"
    using contract_operand [OF assms(1), of cs] assms(2) by (simp add: defs)
  have old: "unat i < length (operands cs)" if "ids \<in> set (group_patterns s) \<union> set (opt_operands s)" "i \<in> set ids" for ids i
    using assms(3) that by (auto simp: graph_wf_split defs)
  have less: "i < v" if "ids \<in> set (group_patterns s)" "i \<in> set ids" for ids i
    using old [of ids i] that v by (simp add: word_less_nat_alt)
  have "graph_ok (link_group api ids v g (cs @ [AddOperand ids]))"
  proof (rule link_group_ok [OF assms(1)])
    show "graph_ok (cs @ [AddOperand ids])"
      using assms(3) by (simp add: graph_ok_operand graph_wf_split defs)
    show "unat i < length ?ops \<and> i \<noteq> v" if "i \<in> set g" for i
      using old [of g i] less [of g i] assms(4) that by auto
  qed (use assms(2) v in \<open>simp_all add: defs(1)\<close>)
  moreover have "sorted_wrt (<) (concat (gps @ [g @ [v]]))"
    using assms(3,4) less by (auto simp: graph_wf_split sorted_wrt_append)
  moreover have "unat i < length ?ops" if "ids \<in> set (gps @ [g @ [v]]) \<union> set (opt_operands s)" "i \<in> set ids" for ids i
    using that old [of ids i] old [of g i] v assms(4) by auto
  ultimately show ?thesis
    by (simp add: graph_wf_split with_pattern_odg Let_def flip: defs)
qed

lemma register_wf [simp]:
  "graph_wf (register_node n s) = graph_wf s" "graph_wf (register_var v s) = graph_wf s"
  by (simp_all add: graph_wf_split)

lemma connect_optional_wf:
  assumes run: "connect_optional api s = Inr s'" and contract: "odg_contract api"
    and bound: "length (operands (odg (query s))) \<le> 256" and wf: "graph_wf s"
  shows "graph_wf s'"
proof -
  let ?n = "length (operands (odg (query s)))"
  let ?P = "\<lambda>u. graph_wf u \<and> group_patterns u = group_patterns s \<and> operands (odg (query u)) = operands (odg (query s))"
  have "?P s'"
  proof (rule connect_optional_induct [OF run])
    fix prev cur
    assume gp: "parent_group (group_patterns s) = Inr prev" "back_of (group_patterns s) = Inr cur"
    then obtain gps where gps: "group_patterns s = gps @ [prev, cur]"
    proof -
      obtain xs where xs: "group_patterns s = xs @ [cur]" using gp(2) by (auto simp: back_of_Inr)
      with gp(1) obtain ys y where "xs = ys @ [y]"
        by (cases xs rule: rev_cases) (auto simp: parent_group_def)
      with xs gp(1) that show thesis by (auto simp: parent_group_def nth_append)
    qed
    have "graph_ok (group_dependencies api prev cur False (odg (query s)))"
      by (rule group_dependencies_ok [OF contract bound])
         (use wf in \<open>auto simp: graph_wf_split gps sorted_wrt_append\<close>)
    then show "?P (set_odg (group_dependencies api prev cur False (odg (query s))) s)"
      using wf by (simp add: graph_wf_split)
  next
    fix cur c p u v
    assume step: "back_of (group_patterns s) = Inr cur" "c \<in> set cur" "p \<in> set (concat (opt_operands s))" "?P u"
      "connect_sibling c p u = Inr v"
    have "unat c < ?n" "unat p < ?n"
      using step(1-3) wf by (auto simp: graph_wf_split back_of_Inr)
    with step(4) have "graph_ok (odg (query u) @ [AddConnection c p, AddConnection p c])"
      by (intro graph_ok_append) (auto simp: graph_wf_split)
    then show "?P v" using step(4,5) by (auto simp: connect_sibling_def graph_wf_split split: if_splits)
  next
    fix cur c u v
    assume step: "back_of (group_patterns s) = Inr cur" "c \<in> set cur" "?P u" "store_operand c u = Inr v"
    have "unat c < ?n" using step(1,2) wf by (auto simp: graph_wf_split back_of_Inr)
    then show "?P v" using step(3,4) by (auto simp: store_operand_def graph_wf_split modify_back_Inr)
  qed
  then show ?thesis ..
qed

interpretation graph: visitor_invariant api "graph_inv api" for api
proof (unfold_locales, goal_cases)
  case (1 s n)
  then show ?case using coverage.subject [of s n] by (simp add: graph_inv_def graph_wf_split)
next
  case (2 s i)
  then show ?case using coverage.predicate_iri [of s i] by (simp add: graph_inv_def graph_wf_split)
next
  case (3 s v)
  then show ?case using coverage.predicate_var [of s v] by (simp add: graph_inv_def graph_wf_split)
next
  case (4 s d obj s')
  then obtain gps g where s': "group_patterns s = gps @ [g]"
    "s' = with_pattern api (active_subject s, active_predicate s, obj) gps g (register_node obj s)"
    using add_object_effect [of s api obj s'] by (auto simp: graph_inv_def)
  have "covered s'" using 4 coverage.object [of s d api obj s'] by (auto simp: graph_inv_def)
  moreover have "length (operands (odg (query s'))) = Suc (length (operands (odg (query s))))"
    by (simp add: s'(2) with_pattern_odg Let_def)
  ultimately show ?case
    using 4(1) with_pattern_wf [of api "register_node obj s" gps g] s' by (auto simp: graph_inv_def)
next
  case (5 s d s')
  then show ?case
    using connect_optional_frame [OF 5(3)] coverage.optional [of s d api s'] connect_optional_wf [OF 5(3)]
    by (auto simp: graph_inv_def odg_frame_def)
next
  case (6 s d)
  then show ?case
    using coverage.open_law [of s d] by (auto simp: graph_inv_def graph_wf_split open_optionals_def)
next
  case (7 s d)
  then show ?case
    using coverage.enter_law [of s d] by (auto simp: graph_inv_def graph_wf_split)
next
  case (8 s d s')
  then show ?case
    using coverage.leave_law [of s d api s']
    by (auto simp: graph_inv_def graph_wf_split pop_back_Inr sorted_wrt_append)
next
  case (9 s d s')
  then show ?case
    using coverage.close_law [of s d s']
    by (auto simp: graph_inv_def graph_wf_split close_optionals_def pop_back_Inr modify_back_Inr sorted_wrt_append)
qed

subsection \<open>The graph of a parsed query\<close>

lemma where_graph:
  assumes "visitWhereClause api w (new_visitor (new_query\<lparr>prefixes := ps\<rparr>)) = Inr s"
  shows "odg_contract api \<Longrightarrow> length (operands (odg (query s))) \<le> 256 \<Longrightarrow> graph_ok (odg (query s))"
proof -
  have start: "graph_inv api (new_visitor (new_query\<lparr>prefixes := ps\<rparr>))"
    using new_visitor_covered [OF refl, of ps]
    by (simp add: graph_inv_def graph_wf_def graph_ok_def new_visitor_def new_query_def)
  obtain t where "shape (1, 0) t \<and> graph_inv api t" "pop_group t = Inr s"
    by (rule graph.where_clause_good [OF assms _ start]) (simp add: new_visitor_def shape_def)
  then show "odg_contract api \<Longrightarrow> length (operands (odg (query s))) \<le> 256 \<Longrightarrow> graph_ok (odg (query s))"
    by (auto simp: graph_inv_def graph_wf_def pop_group_def)
qed

text \<open>
  C5. The operand dependency graph of a parsed query of at most 256 triple patterns is well formed: dependencies join two
  different existing operands and carry a label both have, or no label when they share none; a dependency from a
  later to an earlier operand has its counterpart; connections are symmetric. The graph library numbers the operands
  consecutively (\<open>odg_contract\<close>); the numbers are bytes, so beyond 256 patterns they wrap around.
\<close>

theorem parse_graph_well_formed:
  assumes "sparql_parse api ctx = Inr q" and "odg_contract api" and "length (triple_patterns q) \<le> 256"
  shows "(\<forall>a b l. AddDependency a b l \<in> set (odg q) \<longrightarrow>
            unat a < length (operands (odg q)) \<and> unat b < length (operands (odg q)) \<and> a \<noteq> b \<and>
            l \<in> set (join_labels (operands (odg q) ! unat a) (operands (odg q) ! unat b)) \<and>
            (b < a \<longrightarrow> AddDependency b a l \<in> set (odg q))) \<and>
         (\<forall>a b. AddConnection a b \<in> set (odg q) \<longrightarrow> AddConnection b a \<in> set (odg q))"
proof -
  have "graph_ok (odg q)"
    using assms(1)
  proof (cases rule: sparql_parse_cases)
    case (select c w ps s s')
    then have same: "odg q = odg (query s)" "triple_patterns q = triple_patterns (query s)"
      using select_covered [OF select(4)] by (auto simp: covered_def)
    then have "length (operands (odg (query s))) = length (triple_patterns q)"
      using select(6) by (simp add: covered_def query_covered_def)
    then show ?thesis using where_graph [OF select(3) assms(2)] assms(3) same by simp
  next
    case (ask c w ps s)
    have "length (operands (odg q)) = length (triple_patterns q)"
      using ask(5,6) by (auto simp: covered_def query_covered_def)
    then show ?thesis using where_graph [OF ask(4) assms(2)] assms(3) ask(5) by simp
  qed
  then show ?thesis unfolding graph_ok_def by (metis edge_ok.simps(2,3))
qed

theorem parse_graph_well_formed_witness:
  "unat (1 :: uint8) < length (operands (odg sample_result)) \<and>
   Some 98 \<in> set (join_labels (operands (odg sample_result) ! 0) (operands (odg sample_result) ! 1))"
proof -
  have "AddDependency 0 1 (Some 98) \<in> set (odg sample_result)" and "length (triple_patterns sample_result) \<le> 256"
    by (simp_all add: sample_result_def Let_def)
  then have "unat (1 :: uint8) < length (operands (odg sample_result)) \<and>
      Some 98 \<in> set (join_labels (operands (odg sample_result) ! unat (0 :: uint8)) (operands (odg sample_result) ! unat (1 :: uint8)))"
    using parse_graph_well_formed [OF sample_parse sample_api_contract] by blast
  then show ?thesis by simp
qed

subsection \<open>The join graph of a list of operands\<close>

text \<open>The calls for a list of operand labels: each operand is joined to all earlier ones, the latest first.\<close>

definition join_to :: "uint8 list list \<Rightarrow> nat \<Rightarrow> nat \<Rightarrow> odg_call list" where
  "join_to ops k i = concat (map (edge_pair (of_nat i) (of_nat k)) (join_labels (ops ! k) (ops ! i)))"

definition join_graph :: "uint8 list list \<Rightarrow> odg_call list" where
  "join_graph ops =
     concat (map (\<lambda>k. AddOperand (ops ! k) # concat (map (join_to ops k) (rev [0..<k]))) [0..<length ops])"

lemma join_graph_snoc:
  "join_graph (ops @ [vs]) =
     join_graph ops @ AddOperand vs # concat (map (join_to (ops @ [vs]) (length ops)) (rev [0..<length ops]))"
proof -
  have "join_to (ops @ [vs]) k i = join_to ops k i" if "k < length ops" "i < k" for k i
    using that by (simp add: join_to_def nth_append)
  then have "concat (map (\<lambda>k. AddOperand ((ops @ [vs]) ! k) # concat (map (join_to (ops @ [vs]) k) (rev [0..<k])))
      [0..<length ops]) = join_graph ops"
    unfolding join_graph_def
    by (intro map_cong refl arg_cong2 [where f = Cons] arg_cong [where f = concat]) (auto simp: nth_append)
  then show ?thesis by (simp add: join_graph_def [of "ops @ [vs]"])
qed

lemma operands_join_graph [simp]: "operands (join_graph ops) = ops"
proof (induction ops rule: rev_induct)
  case Nil
  show ?case by (simp add: join_graph_def)
next
  case (snoc vs ops)
  have "operands (concat (map (join_to xs k) is)) = []" for xs k "is"
    by (induction "is") (simp_all add: join_to_def)
  with snoc show ?case by (simp add: join_graph_snoc)
qed

lemma fold_link_operands:
  assumes "odg_contract api" and "length (operands cs) \<le> 256" and "\<And>i. i \<in> set is \<Longrightarrow> i < length (operands cs)"
    and "k < length (operands cs)"
  shows "fold (link_operands api (operands cs ! k) (of_nat k)) (map of_nat is) cs =
           cs @ concat (map (join_to (operands cs) k) is)"
proof -
  have "fold (link_operands api (operands cs ! k) (of_nat k)) (map of_nat is) ds =
      ds @ concat (map (join_to (operands cs) k) is)" if "operands ds = operands cs" for ds
    using assms(3) that
  proof (induction "is" arbitrary: ds)
    case Nil
    show ?case by simp
  next
    case (Cons i "is")
    have "odg_operand_var_ids api ds (of_nat i) = operands cs ! i"
      using contract_labels [OF assms(1), of "of_nat i" ds] Cons.prems(1) [of i] Cons.prems(2) assms(2) by simp
    then show ?case using Cons by (simp add: link_operands_eq join_to_def)
  qed
  then show ?thesis by simp
qed

definition sample_join :: query_ctx where
  "sample_join = select_star (triples_group
     (one_triple (var_term ''s'') (iri_verb ''p'') (var_term ''o'') @
      one_triple (var_term ''o'') (iri_verb ''q'') (var_term ''s'')) [])"

definition sample_join_result :: "string sparql_query" where
  "sample_join_result =
     (let s = Variable ''s'' False; t = Variable ''o'' False
      in \<lparr>odg = [AddOperand [97, 98], AddOperand [98, 97], AddDependency 0 1 (Some 98),
                 AddDependency 1 0 (Some 98), AddDependency 0 1 (Some 97), AddDependency 1 0 (Some 97)],
          projected_variables = [s, t], var_to_id = [s \<mapsto> 97, t \<mapsto> 98],
          triple_patterns = [(VarNode s, IRI ''p'', VarNode t), (VarNode t, IRI ''q'', VarNode s)],
          prefixes = [], distinct_flag = False, ask_flag = False, project_all_variables = True\<rparr>)"

lemma sample_join_parse: "sparql_parse sample_api sample_join = Inr sample_join_result"
  by (simp add: visitor_run_defs sample_defs sample_join_def sample_join_result_def Let_def)

end
