(* ===== verification/Pattern_Graph.thy ===== *)
theory Pattern_Graph
  imports Query_Graph
begin

text \<open>
  The operand dependency graph of every query, optional patterns and unions included.

  \<^item> \<open>pattern_trees\<close> translates a pattern, with no state, to a list of trees: one per conjunctive leaf,
    which has its triple patterns and, for each of its optional patterns, the trees of that pattern.
  \<^item> \<open>pattern_graph\<close> reads the calls on the graph off the trees: the operands of a leaf are joined with
    each other; those of an optional pattern depend on every operand of the leaf it belongs to, and are
    connected to the operands of the optional patterns before it, but not to those of the other
    alternatives of its own union.
  \<^item> \<open>parse_pattern_graph\<close>: the visitor, which computes the calls with three stacks of operand ids, makes
    exactly these calls.
\<close>

subsection \<open>Patterns as trees\<close>

datatype 'l pattern_tree = Leaf "'l triple_pattern list" "'l pattern_tree list list"

fun tree_patterns :: "'l pattern_tree \<Rightarrow> 'l triple_pattern list" where
  "tree_patterns (Leaf ps opts) = ps @ concat (map (\<lambda>ts. concat (map tree_patterns ts)) opts)"

function pattern_trees ::
  "'l sparql_api \<Rightarrow> (string \<times> string) list \<Rightarrow> group_graph_pattern_sub_ctx option \<Rightarrow> exn + 'l pattern_tree list" where
  "pattern_trees api prefs c =
     concat_res
       (\<lambda>l. case l of
              None \<Rightarrow> Inl NullDeref
            | Some (t, p) \<Rightarrow>
                bind_res (concat_res (block_patterns api prefs) t) (\<lambda>ps.
                  map_res (\<lambda>opts. [Leaf ps opts])
                    (concat_res (\<lambda>opt. map_res (\<lambda>ts. [ts]) (pattern_trees api prefs (groupGraphPatternSub opt))) p)))
       (den c)"
  by pat_completeness auto

termination pattern_trees
proof (relation "measure (\<lambda>(api, prefs, c). opt_sub_weight c)", goal_cases)
  case 1
  show ?case by simp
next
  case (2 api prefs c l lp t p x ps)
  then show ?case using leaf_weight(1) [of t p c] opt_weight_le [of ps p] by auto
qed

declare pattern_trees.simps [simp del]

subsection \<open>The calls for the trees\<close>

text \<open>
  \<open>ops\<close> are the labels of all operands; the operands of a leaf have the numbers from \<open>m\<close> below \<open>n\<close>.
\<close>

definition leaf_calls :: "uint8 list list \<Rightarrow> nat \<Rightarrow> nat \<Rightarrow> odg_call list" where
  "leaf_calls ops m n =
     concat (map (\<lambda>k. AddOperand (ops ! k) # concat (map (join_to ops k) (rev [m..<k]))) [m..<n])"

definition depend_on :: "uint8 list list \<Rightarrow> nat \<Rightarrow> nat \<Rightarrow> odg_call list" where
  "depend_on ops a b = concat (map (group_edge False (of_nat a) (of_nat b)) (group_labels (ops ! a) (ops ! b)))"

definition connect_to :: "nat \<Rightarrow> nat \<Rightarrow> odg_call list" where
  "connect_to c p = [AddConnection (of_nat c) (of_nat p), AddConnection (of_nat p) (of_nat c)]"

definition optional_calls :: "uint8 list list \<Rightarrow> nat list \<Rightarrow> nat list \<Rightarrow> nat list \<Rightarrow> odg_call list" where
  "optional_calls ops prev sibs cur =
     concat (map (\<lambda>a. concat (map (depend_on ops a) cur)) prev) @
     concat (map (\<lambda>c. concat (map (connect_to c) sibs)) cur)"

text \<open>
  Inside an optional pattern a tree has the operands \<open>prev\<close> of the leaf around it and the operands
  \<open>sibs\<close> of the optional patterns before it.
\<close>

fun leaf_operands :: "nat \<Rightarrow> 'l pattern_tree list \<Rightarrow> nat list" where
  "leaf_operands m [] = []"
| "leaf_operands m (Leaf ps opts # ts) =
     [m..<m + length ps] @ leaf_operands (m + length (tree_patterns (Leaf ps opts))) ts"

fun tree_calls :: "uint8 list list \<Rightarrow> (nat list \<times> nat list) option \<Rightarrow> nat \<Rightarrow> 'l pattern_tree \<Rightarrow> odg_call list"
  and trees_calls :: "uint8 list list \<Rightarrow> (nat list \<times> nat list) option \<Rightarrow> nat \<Rightarrow> 'l pattern_tree list \<Rightarrow> odg_call list"
  and optionals_calls ::
    "uint8 list list \<Rightarrow> nat list \<Rightarrow> nat list \<Rightarrow> nat \<Rightarrow> 'l pattern_tree list list \<Rightarrow> odg_call list" where
  "tree_calls ops around m (Leaf ps opts) =
     leaf_calls ops m (m + length ps) @
     (case around of None \<Rightarrow> [] | Some (prev, sibs) \<Rightarrow> optional_calls ops prev sibs [m..<m + length ps]) @
     optionals_calls ops [m..<m + length ps] [] (m + length ps) opts"
| "trees_calls ops around m [] = []"
| "trees_calls ops around m (t # ts) =
     tree_calls ops around m t @ trees_calls ops around (m + length (tree_patterns t)) ts"
| "optionals_calls ops prev sibs m [] = []"
| "optionals_calls ops prev sibs m (ts # opts) =
     trees_calls ops (Some (prev, sibs)) m ts @
     optionals_calls ops prev (sibs @ leaf_operands m ts) (m + length (concat (map tree_patterns ts))) opts"

definition pattern_graph :: "uint8 list list \<Rightarrow> 'l pattern_tree list \<Rightarrow> odg_call list" where
  "pattern_graph ops ts = trees_calls ops None 0 ts"

lemma leaf_calls_self [simp]: "leaf_calls ops m m = []"
  by (simp add: leaf_calls_def)

lemma leaf_calls_Suc:
  "m \<le> n \<Longrightarrow> leaf_calls ops m (Suc n) =
     leaf_calls ops m n @ AddOperand (ops ! n) # concat (map (join_to ops n) (rev [m..<n]))"
  by (simp add: leaf_calls_def)

subsection \<open>The operands only grow\<close>

definition begins :: "'a list \<Rightarrow> 'a list \<Rightarrow> bool" where
  "begins xs ys \<longleftrightarrow> (\<exists>zs. ys = xs @ zs)"

lemma begins_refl [simp]: "begins xs xs"
  by (simp add: begins_def)

lemma begins_trans: "begins xs ys \<Longrightarrow> begins ys zs \<Longrightarrow> begins xs zs"
  by (auto simp: begins_def)

lemma begins_length: "begins xs ys \<Longrightarrow> length xs \<le> length ys"
  by (auto simp: begins_def)

lemma begins_nth: "begins xs ops \<Longrightarrow> k < length xs \<Longrightarrow> xs ! k = ops ! k"
  by (auto simp: begins_def nth_append)

definition grown :: "uint8 list list \<Rightarrow> 'l visitor \<Rightarrow> bool" where
  "grown xs s \<longleftrightarrow> covered s \<and> begins xs (operands (odg (query s)))"

lemma add_object_operands:
  assumes "covered s" and "add_object api obj s = Inr s'"
  obtains ids where "operands (odg (query s')) = operands (odg (query s)) @ [ids]"
proof -
  from add_object_effect [OF assms] obtain gps g where
    "s' = with_pattern api (active_subject s, active_predicate s, obj) gps g (register_node obj s)" by blast
  then show thesis using that by (simp add: with_pattern_odg Let_def)
qed

interpretation growth: visitor_invariant api "grown xs" for api xs
proof (unfold_locales, goal_cases)
  case (1 s n)
  then show ?case using coverage.subject [of s n] by (simp add: grown_def)
next
  case (2 s i)
  then show ?case using coverage.predicate_iri [of s i] by (simp add: grown_def)
next
  case (3 s v)
  then show ?case using coverage.predicate_var [of s v] by (simp add: grown_def)
next
  case (4 s d obj s')
  then have "covered s" by (simp add: grown_def)
  then obtain ids where "operands (odg (query s')) = operands (odg (query s)) @ [ids]"
    by (rule add_object_operands [OF _ 4(3)])
  then show ?case using 4 coverage.object [of s d api obj s'] by (auto simp: grown_def begins_def)
next
  case (5 s d s')
  then show ?case
    using coverage.optional [of s d api s'] connect_optional_frame [OF 5(3)] by (simp add: grown_def odg_frame_def)
next
  case (6 s d)
  then show ?case using coverage.open_law [of s d] by (simp add: grown_def open_optionals_def)
next
  case (7 s d)
  then show ?case using coverage.enter_law [of s d] by (simp add: grown_def)
next
  case (8 s d s')
  then show ?case using coverage.leave_law [of s d api s'] by (auto simp: grown_def)
next
  case (9 s d s')
  then show ?case using coverage.close_law [of s d s'] by (auto simp: grown_def close_optionals_def)
qed

lemma operands_grow:
  assumes "mfold (run_event api) evs s = Inr s'" and "run_shape evs sh = Some sh'" and "shape sh s" and "covered s"
  shows "begins (operands (odg (query s))) (operands (odg (query s')))"
proof -
  have "outcome soft (\<lambda>u. shape sh' u \<and> grown (operands (odg (query s))) u) (mfold (run_event api) evs s)"
    by (rule growth.script_good) (use assms in \<open>auto simp: grown_def\<close>)
  then show ?thesis using assms(1) by (simp add: grown_def)
qed

subsection \<open>The operands of a leaf\<close>

text \<open>
  While the triples of a leaf are visited: its operands are numbered from \<open>m\<close>, its calls follow \<open>cs\<close>.
\<close>

definition in_leaf ::
  "'l sparql_api \<Rightarrow> uint8 list list \<Rightarrow> odg_call list \<Rightarrow> uint8 list list \<Rightarrow> uint8 list list \<Rightarrow> uint8 list list \<Rightarrow> 'l visitor \<Rightarrow> bool" where
  "in_leaf api ops cs gps oss uss s \<longleftrightarrow>
     covered s \<and> opt_operands s = oss \<and> union_operands s = uss \<and>
     (odg_contract api \<longrightarrow> length ops \<le> 256 \<longrightarrow> begins (operands (odg (query s))) ops \<longrightarrow>
        (let m = length (operands cs); n = length (operands (odg (query s)))
         in m \<le> n \<and> odg (query s) = cs @ leaf_calls ops m n \<and> group_patterns s = gps @ [map of_nat [m..<n]]))"

lemma link_leaf:
  assumes contract: "odg_contract api" and bound: "length (operands cs) \<le> 256" and pre: "begins (operands cs) ops"
    and k: "length (operands cs) = Suc k"
  shows "link_group api (ops ! k) (of_nat k) (map of_nat [m..<k]) cs = cs @ concat (map (join_to ops k) (rev [m..<k]))"
proof -
  have eq: "operands cs ! i = ops ! i" if "i \<le> k" for i using begins_nth [OF pre] that k by simp
  have "fold (link_operands api (operands cs ! k) (of_nat k)) (map of_nat (rev [m..<k])) cs =
      cs @ concat (map (join_to (operands cs) k) (rev [m..<k]))"
    by (rule fold_link_operands [OF contract bound]) (use k in auto)
  moreover have "map (join_to (operands cs) k) (rev [m..<k]) = map (join_to ops k) (rev [m..<k])"
    by (rule map_cong) (auto simp: join_to_def eq)
  ultimately show ?thesis by (simp add: link_group_def rev_map eq)
qed

interpretation leaf: triples_invariant api "in_leaf api ops cs gps oss uss" for api ops cs gps oss uss
proof (unfold_locales, goal_cases)
  case (1 s n)
  then show ?case using coverage.subject [of s n] by (simp add: in_leaf_def)
next
  case (2 s i)
  then show ?case using coverage.predicate_iri [of s i] by (simp add: in_leaf_def)
next
  case (3 s v)
  then show ?case using coverage.predicate_var [of s v] by (simp add: in_leaf_def)
next
  case (4 s d obj s')
  define s1 tp where defs: "s1 = register_node obj s" "tp = (active_subject s, active_predicate s, obj)"
  define ids where ids: "ids = labels (var_to_id (query s1)) tp"
  let ?m = "length (operands cs)" and ?k = "length (operands (odg (query s)))"
  obtain gps' g where s': "group_patterns s = gps' @ [g]" "s' = with_pattern api tp gps' g s1"
    using add_object_effect [of s api obj s'] 4 by (auto simp: in_leaf_def defs)
  have s1: "odg (query s1) = odg (query s)" by (simp add: defs)
  have ops': "operands (odg (query s')) = operands (odg (query s)) @ [ids]"
    by (simp add: s'(2) with_pattern_odg Let_def s1 ids)
  have stacks: "opt_operands s' = oss" "union_operands s' = uss"
    using 4(1) by (simp_all add: s'(2) with_pattern_def Let_def defs in_leaf_def)
  have "?m \<le> Suc ?k \<and> odg (query s') = cs @ leaf_calls ops ?m (Suc ?k) \<and> group_patterns s' = gps @ [map of_nat [?m..<Suc ?k]]"
    if c: "odg_contract api" "length ops \<le> 256" and p: "begins (operands (odg (query s')) ) ops"
  proof -
    have pre: "begins (operands (odg (query s))) ops" using p by (auto simp: ops' begins_def)
    have id: "ids = ops ! ?k" using begins_nth [OF p, of ?k] by (simp add: ops')
    have bound: "?k < 256" using begins_length [OF p] c(2) by (simp add: ops')
    from 4(1) c pre have inv: "?m \<le> ?k" "odg (query s) = cs @ leaf_calls ops ?m ?k"
      "group_patterns s = gps @ [map of_nat [?m..<?k]]"
      by (auto simp: in_leaf_def Let_def)
    then have g: "gps' = gps" "g = map of_nat [?m..<?k]" using s'(1) by auto
    have v: "odg_add_operand api (odg (query s)) = of_nat ?k"
      using contract_operand [OF c(1) bound] by simp
    have "odg (query s') = odg (query s) @ AddOperand ids # concat (map (join_to ops ?k) (rev [?m..<?k]))"
      using link_leaf [OF c(1), of "odg (query s) @ [AddOperand ids]" ops ?k ?m] bound p
      by (simp add: s'(2) with_pattern_odg Let_def s1 v g ops' id flip: ids)
    then show ?thesis
      using inv by (simp add: s'(2) with_pattern_odg s1 v g id leaf_calls_Suc)
  qed
  moreover have "covered s'" using 4 coverage.object [of s d api obj s'] by (auto simp: in_leaf_def)
  moreover have "length (operands (odg (query s'))) = Suc ?k" by (simp add: ops')
  ultimately show ?case unfolding in_leaf_def Let_def using stacks by metis
qed

subsection \<open>The operands of an optional pattern\<close>

lemma fold_appends:
  assumes "\<And>i ds. i \<in> set xs \<Longrightarrow> P ds \<Longrightarrow> f (g i) ds = ds @ h i \<and> P (ds @ h i)" and "P cs"
  shows "fold f (map g xs) cs = cs @ concat (map h xs) \<and> P (cs @ concat (map h xs))"
  using assms
proof (induction xs arbitrary: cs)
  case Nil
  then show ?case by simp
next
  case (Cons x xs)
  from Cons.prems(1) [of x cs] Cons.prems(2) have x: "f (g x) cs = cs @ h x" "P (cs @ h x)" by simp_all
  then show ?case using Cons.IH [OF Cons.prems(1) x(2)] by simp
qed

lemma operands_depend_on [simp]: "operands (depend_on ops a b) = []"
  by (simp add: depend_on_def)

lemma group_dependencies_calls:
  assumes contract: "odg_contract api" and bound: "length (operands cs) \<le> 256" and pre: "begins (operands cs) ops"
    and less: "\<And>i. i \<in> set (prev @ cur) \<Longrightarrow> i < length (operands cs)"
  shows "group_dependencies api (map of_nat prev) (map of_nat cur) False cs =
           cs @ concat (map (\<lambda>a. concat (map (depend_on ops a) cur)) prev)"
proof -
  let ?P = "\<lambda>ds. operands ds = operands cs"
  have ids: "odg_operand_var_ids api ds (of_nat i) = ops ! i" if "?P ds" "i \<in> set (prev @ cur)" for ds i
    using contract_labels [OF contract, of "of_nat i" ds] that less [of i] bound begins_nth [OF pre, of i] by simp
  have one: "depend api False (of_nat a) (ops ! a) (of_nat b) ds = ds @ depend_on ops a b" if "?P ds" "b \<in> set cur" for a b ds
    using ids [of ds b] that by (simp add: depend_eq depend_on_def)
  have inner: "fold (depend api False (of_nat a) (ops ! a)) (map of_nat cur) ds = ds @ concat (map (depend_on ops a) cur) \<and>
      ?P (ds @ concat (map (depend_on ops a) cur))" if "?P ds" for a ds
    by (rule fold_appends [where P = ?P]) (use that one in auto)
  have "fold (\<lambda>a ds. fold (depend api False a (odg_operand_var_ids api ds a)) (map of_nat cur) ds) (map of_nat prev) cs =
      cs @ concat (map (\<lambda>a. concat (map (depend_on ops a) cur)) prev) \<and>
      ?P (cs @ concat (map (\<lambda>a. concat (map (depend_on ops a) cur)) prev))"
    by (rule fold_appends [where P = ?P]) (use inner ids in auto)
  then show ?thesis by (simp add: group_dependencies_def)
qed

lemma mfold_calls:
  assumes "\<And>x t. x \<in> set xs \<Longrightarrow> P t \<Longrightarrow> f (g x) t = Inr (set_odg (odg (query t) @ h x) t)"
    and "\<And>t cs. P t \<Longrightarrow> P (set_odg cs t)" and "P s"
  shows "mfold f (map g xs) s = Inr (set_odg (odg (query s) @ concat (map h xs)) s)"
  using assms(1,3)
proof (induction xs arbitrary: s)
  case Nil
  then show ?case by (simp add: set_odg_def)
next
  case (Cons x xs)
  let ?t = "set_odg (odg (query s) @ h x) s"
  have "f (g x) s = Inr ?t" using Cons.prems by simp
  moreover have "mfold f (map g xs) ?t = Inr (set_odg (odg (query ?t) @ concat (map h xs)) ?t)"
    by (rule Cons.IH) (use Cons.prems assms(2) in auto)
  ultimately show ?case by (simp add: set_odg_def)
qed

lemma connect_siblings:
  assumes "union_operands s = uss @ [map of_nat us]" and "set sibs \<inter> set us = {}"
    and "\<And>i. i \<in> set (sibs @ us) \<Longrightarrow> i < 256"
  shows "mfold (connect_sibling (of_nat c)) (map of_nat (sibs @ us)) s =
           Inr (set_odg (odg (query s) @ concat (map (connect_to c) sibs)) s)"
proof -
  have inj: "(of_nat i :: uint8) \<in> of_nat ` set us \<longleftrightarrow> i \<in> set us" if "i \<in> set (sibs @ us)" for i
    using assms(3) that by (auto simp: word_of_nat_eq_iff take_bit_nat_eq_self)
  have old: "mfold (connect_sibling (of_nat c)) (map of_nat xs) t = Inr t"
    if "set xs \<subseteq> set us" "union_operands t = uss @ [map of_nat us]" for xs and t :: "'a visitor"
    using that by (induction xs) (auto simp: connect_sibling_def)
  have "mfold (connect_sibling (of_nat c)) (map of_nat sibs) s = Inr (set_odg (odg (query s) @ concat (map (connect_to c) sibs)) s)"
  proof (rule mfold_calls [where P = "\<lambda>t. union_operands t = union_operands s"])
    fix x and t :: "'a visitor" assume x: "x \<in> set sibs" "union_operands t = union_operands s"
    then have "(of_nat x :: uint8) \<notin> of_nat ` set us" using inj [of x] assms(2) by auto
    then show "connect_sibling (of_nat c) (of_nat x) t = Inr (set_odg (odg (query t) @ connect_to c x) t)"
      using x(2) assms(1) by (simp add: connect_sibling_def connect_to_def)
  qed simp_all
  then show ?thesis using assms(1) old [of us] by (simp add: mfold_append)
qed

lemma store_operands:
  "union_operands s = uss @ [us] \<Longrightarrow> opt_operands s = oss @ [os] \<Longrightarrow>
   mfold store_operand cur s = Inr (s\<lparr>union_operands := uss @ [us @ cur], opt_operands := oss @ [os @ cur]\<rparr>)"
proof (induction cur arbitrary: s us os)
  case Nil
  then show ?case by (cases s) simp
next
  case (Cons c cur)
  then show ?case by (simp add: store_operand_def)
qed

lemma connect_optional_calls:
  assumes contract: "odg_contract api" and bound: "length ops \<le> 256" and pre: "begins (operands (odg (query s))) ops"
    and gp: "group_patterns s = gps @ [map of_nat prev, map of_nat cur]"
    and os: "opt_operands s = oss @ [map of_nat (sibs @ us)]" and us: "union_operands s = uss @ [map of_nat us]"
    and disj: "set sibs \<inter> set us = {}"
    and less: "\<And>i. i \<in> set (prev @ cur @ sibs @ us) \<Longrightarrow> i < length (operands (odg (query s)))"
  shows "connect_optional api s =
           Inr ((set_odg (odg (query s) @ optional_calls ops prev sibs cur) s)
             \<lparr>union_operands := uss @ [map of_nat (us @ cur)], opt_operands := oss @ [map of_nat (sibs @ us @ cur)]\<rparr>)"
proof -
  have bound': "length (operands (odg (query s))) \<le> 256" using begins_length [OF pre] bound by simp
  have parent: "parent_group (group_patterns s) = Inr (map of_nat prev)" "back_of (group_patterns s) = Inr (map of_nat cur)"
    by (simp_all add: gp parent_group_def nth_append back_of_def)
  let ?f = "\<lambda>c s. bind_res (back_of (opt_operands s)) (\<lambda>os. mfold (connect_sibling c) os s)"
  let ?P = "\<lambda>t. opt_operands t = opt_operands s \<and> union_operands t = union_operands s"
  have step: "?f (of_nat c) t = Inr (set_odg (odg (query t) @ concat (map (connect_to c) sibs)) t)"
    if "?P t" for c and t :: "'a visitor"
    using connect_siblings [of t uss us sibs c] that os us disj less bound' by force
  let ?s1 = "set_odg (odg (query s) @ concat (map (\<lambda>a. concat (map (depend_on ops a) cur)) prev)) s"
  let ?s2 = "set_odg (odg (query s) @ optional_calls ops prev sibs cur) s"
  have "mfold ?f (map of_nat cur) ?s1 =
      Inr (set_odg (odg (query ?s1) @ concat (map (\<lambda>c. concat (map (connect_to c) sibs)) cur)) ?s1)"
    by (rule mfold_calls [where P = ?P]) (use step in auto)
  then have "mfold ?f (map of_nat cur) ?s1 = Inr ?s2"
    by (simp add: optional_calls_def set_odg_def)
  moreover have "mfold store_operand (map of_nat cur) ?s2 =
      Inr (?s2\<lparr>union_operands := uss @ [map of_nat (us @ cur)], opt_operands := oss @ [map of_nat (sibs @ us @ cur)]\<rparr>)"
    using store_operands [of ?s2 uss "map of_nat us" oss "map of_nat (sibs @ us)" "map of_nat cur"] us os by simp
  moreover have "group_dependencies api (map of_nat prev) (map of_nat cur) False (odg (query s)) =
      odg (query s) @ concat (map (\<lambda>a. concat (map (depend_on ops a) cur)) prev)"
    by (rule group_dependencies_calls [OF contract bound' pre]) (use less in auto)
  ultimately show ?thesis
    unfolding connect_optional_def parent by simp
qed

subsection \<open>Levels of the recursion\<close>

text \<open>
  The stacks while the leaves of a pattern are visited. \<open>around\<close> is \<open>None\<close> for the where clause itself;
  for an optional pattern it has the operands of the leaf around it and of the optional patterns
  before it, and below them the stacks hold \<open>gps\<close>, \<open>oss\<close> and \<open>uss\<close>. The leaves of the pattern visited so
  far have the operands \<open>us\<close>, the current one has \<open>cur\<close>.
\<close>

type_synonym stacks = "uint8 list list \<times> uint8 list list \<times> uint8 list list"

fun at_level :: "(nat list \<times> nat list) option \<Rightarrow> stacks \<Rightarrow> nat list \<Rightarrow> nat list \<Rightarrow> 'l visitor \<Rightarrow> bool" where
  "at_level None (gps, oss, uss) us cur s \<longleftrightarrow>
     group_patterns s = [map of_nat cur] \<and> opt_operands s = [] \<and> union_operands s = []"
| "at_level (Some (prev, sibs)) (gps, oss, uss) us cur s \<longleftrightarrow>
     length oss = length gps \<and> length uss = length gps \<and>
     group_patterns s = gps @ [map of_nat prev, map of_nat cur] \<and>
     opt_operands s = oss @ [map of_nat (sibs @ us)] \<and> union_operands s = uss @ [map of_nat us]"

definition depth :: "(nat list \<times> nat list) option \<Rightarrow> stacks \<Rightarrow> nat" where
  "depth around fr = (case around of None \<Rightarrow> 0 | Some _ \<Rightarrow> Suc (length (fst fr)))"

lemma level_shape: "at_level around fr us cur s \<Longrightarrow> shape (Suc (depth around fr), depth around fr) s"
  by (cases "(around, fr, us, cur, s)" rule: at_level.cases) (auto simp: shape_def depth_def)

text \<open>The numbers of the operands a level refers to.\<close>

definition below :: "(nat list \<times> nat list) option \<Rightarrow> nat list \<Rightarrow> nat \<Rightarrow> bool" where
  "below around us m \<longleftrightarrow>
     (case around of None \<Rightarrow> True
      | Some (prev, sibs) \<Rightarrow> (\<forall>i \<in> set (prev @ sibs @ us). i < m) \<and> set sibs \<inter> set us = {})"

text \<open>What visiting a part of the pattern adds to the query.\<close>

definition extends :: "'l triple_pattern list \<Rightarrow> odg_call list \<Rightarrow> 'l visitor \<Rightarrow> 'l visitor \<Rightarrow> bool" where
  "extends ps cs s s' \<longleftrightarrow>
     covered s' \<and> prefixes (query s') = prefixes (query s) \<and>
     triple_patterns (query s') = triple_patterns (query s) @ ps \<and> odg (query s') = odg (query s) @ cs"

abbreviation next_operand :: "'l visitor \<Rightarrow> nat" where
  "next_operand s \<equiv> length (triple_patterns (query s))"

lemma extends_trans: "extends ps cs s u \<Longrightarrow> extends ps' cs' u v \<Longrightarrow> extends (ps @ ps') (cs @ cs') s v"
  by (simp add: extends_def)

lemma covered_length: "covered s \<Longrightarrow> length (operands (odg (query s))) = next_operand s"
  by (auto simp: covered_def query_covered_def)

lemma covered_open [simp]: "covered (open_optionals s) = covered s"
  by (simp add: covered_def open_optionals_def)

lemma covered_stacks [simp]:
  "covered (s\<lparr>group_patterns := x\<rparr>) = covered s" "covered (s\<lparr>opt_operands := x\<rparr>) = covered s"
  "covered (s\<lparr>union_operands := x\<rparr>) = covered s"
  by (simp_all add: covered_def)

lemma group_visited:
  assumes contract: "odg_contract api" "length ops \<le> 256"
    and level: "at_level around fr us [] s" and cov: "covered s" and bel: "below around us (next_operand s)"
    and run: "visit_group api t s = Inr u" and pre: "begins (operands (odg (query u))) ops"
  shows "\<exists>ps. concat_res (block_patterns api (prefixes (query s))) t = Inr ps \<and>
    (let m = next_operand s; cur = [m..<m + length ps]
     in extends ps (leaf_calls ops m (m + length ps) @
          (case around of None \<Rightarrow> [] | Some (prev, sibs) \<Rightarrow> optional_calls ops prev sibs cur)) s u \<and>
        at_level around fr (us @ cur) cur u)"
proof -
  obtain gps oss uss where fr: "fr = (gps, oss, uss)" by (cases fr)
  let ?d = "depth around fr" and ?m = "next_operand s"
  note sh = level_shape [OF level]
  obtain bef where bef: "group_patterns s = bef @ [ [] ]"
    using level by (cases "(around, fr, us, [] :: nat list, s)" rule: at_level.cases) auto
  let ?cs = "odg (query s)"
  from run obtain v where v: "mfold (visitTriplesBlock api) t s = Inr v"
    "(if opt_operands v = [] then Inr v else connect_optional api v) = Inr u"
    by (auto simp: visit_group_def)
  let ?P = "\<lambda>s'. shape (Suc ?d, ?d) s' \<and> in_leaf api ops ?cs bef (opt_operands s) (union_operands s) s'"
  have start: "?P s"
    using sh cov bef by (simp add: in_leaf_def Let_def)
  have "outcome soft ?P (mfold (visitTriplesBlock api) t s)"
    by (rule outcome_mfold [where P = ?P, OF start]) (rule leaf.visitTriplesBlock_good)
  then have after: "shape (Suc ?d, ?d) v" "in_leaf api ops ?cs bef (opt_operands s) (union_operands s) v"
    using v(1) by simp_all
  have frame: "odg_frame v u"
    using v(2) connect_optional_frame [of api v u] by (auto simp: odg_frame_def split: if_splits)
  then have ops: "operands (odg (query u)) = operands (odg (query v))" by (simp add: odg_frame_def)
  have "case concat_res (block_patterns api (prefixes (query s))) t of Inl e \<Rightarrow> visit_group api t s = Inl e
      | Inr ps \<Rightarrow> \<exists>s'. visit_group api t s = Inr s' \<and> shape (Suc ?d, ?d) s' \<and> prefixes (query s') = prefixes (query s) \<and>
          triple_patterns (query s') = triple_patterns (query s) @ ps"
    using emits_group [of "prefixes (query s)" ?d api t] sh unfolding emits_def by blast
  then obtain ps where ps: "concat_res (block_patterns api (prefixes (query s))) t = Inr ps"
    "prefixes (query u) = prefixes (query s)" "triple_patterns (query u) = triple_patterns (query s) @ ps"
    using run by (cases "concat_res (block_patterns api (prefixes (query s))) t") auto
  let ?cur = "[?m..<?m + length ps]"
  have cov_v: "covered v" using after(2) by (simp add: in_leaf_def)
  have len: "length (operands (odg (query v))) = ?m + length ps"
    by (simp add: covered_length [OF cov_v] flip: odg_frame_query(1) [OF frame]) (simp add: ps(3))
  have v_odg: "odg (query v) = ?cs @ leaf_calls ops ?m (?m + length ps)" "group_patterns v = bef @ [map of_nat ?cur]"
    "opt_operands v = opt_operands s" "union_operands v = union_operands s"
    using after(2) contract pre len covered_length [OF cov] by (auto simp: in_leaf_def Let_def ops)
  have cov_u: "covered u"
    using cov_v frame query_covered_cong [of "query v" "var_id v" v u] odg_frame_query [of v u]
    by (simp add: covered_def odg_frame_def)
  show ?thesis
  proof (cases around)
    case None
    with level fr have "opt_operands v = []" by (simp add: v_odg)
    then have "u = v" using v(2) by simp
    then show ?thesis
      using ps cov_v v_odg level bef None fr by (auto simp: Let_def extends_def)
  next
    case (Some ar)
    obtain prev sibs where ar: "ar = (prev, sibs)" by (cases ar)
    note lv = level [unfolded Some ar fr, simplified]
    have "bef = gps @ [map of_nat prev]" using lv bef by auto
    have "i < length (operands (odg (query v)))" if "i \<in> set (prev @ ?cur @ sibs @ us)" for i
      unfolding len using that bel by (auto simp: below_def Some ar intro: trans_less_add1)
    then have "connect_optional api v = Inr ((set_odg (odg (query v) @ optional_calls ops prev sibs ?cur) v)
        \<lparr>union_operands := uss @ [map of_nat (us @ ?cur)], opt_operands := oss @ [map of_nat (sibs @ us @ ?cur)]\<rparr>)"
      using pre lv v_odg bel \<open>bef = gps @ [map of_nat prev]\<close>
      by (intro connect_optional_calls [OF contract, of v gps prev ?cur oss sibs us uss])
         (simp_all add: ops below_def Some ar del: upt_Suc)
    moreover have "connect_optional api v = Inr u" using v(2) lv by (simp add: v_odg split: if_splits)
    ultimately have u: "u = (set_odg (odg (query v) @ optional_calls ops prev sibs ?cur) v)
        \<lparr>union_operands := uss @ [map of_nat (us @ ?cur)], opt_operands := oss @ [map of_nat (sibs @ us @ ?cur)]\<rparr>"
      by simp
    have "odg (query u) = ?cs @ leaf_calls ops ?m (?m + length ps) @ optional_calls ops prev sibs ?cur"
      by (simp add: u v_odg)
    moreover have "at_level around fr (us @ ?cur) ?cur u"
      using lv \<open>bef = gps @ [map of_nat prev]\<close> by (simp add: Some ar fr u v_odg)
    ultimately show ?thesis
      using ps cov_u by (simp add: Let_def extends_def Some ar)
  qed
qed

subsection \<open>Optional patterns and leaves\<close>

text \<open>The script of the pattern \<open>c\<close> makes the calls for its trees, at every level.\<close>

definition draws ::
  "'l sparql_api \<Rightarrow> uint8 list list \<Rightarrow> (string \<times> string) list \<Rightarrow> event list \<Rightarrow> exn + 'l pattern_tree list \<Rightarrow> bool" where
  "draws api ops prefs evs trees \<longleftrightarrow>
     (\<forall>around fr us s s'. at_level around fr us [] s \<longrightarrow> covered s \<longrightarrow> below around us (next_operand s) \<longrightarrow>
        prefixes (query s) = prefs \<longrightarrow> mfold (run_event api) evs s = Inr s' \<longrightarrow>
        begins (operands (odg (query s'))) ops \<longrightarrow>
        (\<exists>ts. trees = Inr ts \<and>
           extends (concat (map tree_patterns ts)) (trees_calls ops around (next_operand s) ts) s s' \<and>
           at_level around fr (us @ leaf_operands (next_operand s) ts) [] s'))"

lemma leaf_operands_range:
  "i \<in> set (leaf_operands m ts) \<Longrightarrow> m \<le> i \<and> i < m + length (concat (map tree_patterns ts))"
proof (induction m ts rule: leaf_operands.induct)
  case (1 m)
  then show ?case by simp
next
  case (2 m ps opts ts)
  then show ?case by fastforce
qed

lemma extends_length: "extends ps cs s u \<Longrightarrow> next_operand u = next_operand s + length ps"
  by (simp add: extends_def)

lemma run_shape_optionals:
  "run_shape (concat (map optional_script p)) (Suc d, Suc d) = Some (Suc d, Suc d)"
  by (rule run_shape_concat)
     (use script_shape [of _ "[]" "[]" "[]" "Suc d"] in \<open>simp add: optional_script_def run_shape_append\<close>)

lemma run_shape_leaves: "run_shape (concat (map leaf_script ls)) (Suc d, d) = Some (Suc d, d)"
proof (rule run_shape_concat)
  fix l
  show "run_shape (leaf_script l) (Suc d, d) = Some (Suc d, d)"
    by (cases l) (auto simp: leaf_script_def run_shape_append run_shape_optionals)
qed

text \<open>Between two optional patterns of a leaf with the operands \<open>cur\<close>.\<close>

fun at_optional :: "stacks \<Rightarrow> nat list \<Rightarrow> nat list \<Rightarrow> 'l visitor \<Rightarrow> bool" where
  "at_optional (gps, oss, uss) cur sibs s \<longleftrightarrow>
     length oss = length gps \<and> length uss = length gps \<and> group_patterns s = gps @ [map of_nat cur] \<and>
     opt_operands s = oss @ [map of_nat sibs] \<and> union_operands s = uss @ [ [] ]"

lemma at_optional_shape: "at_optional fr cur sibs s \<Longrightarrow> shape (Suc (length (fst fr)), Suc (length (fst fr))) s"
  by (cases fr) (auto simp: shape_def)

lemma optional_visited:
  assumes trees: "draws api ops prefs (script c [] [] []) trees"
    and start: "at_optional fr cur sibs s" "covered s" "\<forall>i \<in> set (cur @ sibs). i < next_operand s" "prefixes (query s) = prefs"
    and run: "mfold (run_event api) (EvEnter # script c [] [] [] @ [EvLeave]) s = Inr s'"
    and pre: "begins (operands (odg (query s'))) ops"
  shows "\<exists>ts. trees = Inr ts \<and>
    extends (concat (map tree_patterns ts)) (trees_calls ops (Some (cur, sibs)) (next_operand s) ts) s s' \<and>
    at_optional fr cur (sibs @ leaf_operands (next_operand s) ts) s'"
proof -
  obtain gps oss uss where fr: "fr = (gps, oss, uss)" by (cases fr)
  let ?s1 = "s\<lparr>group_patterns := group_patterns s @ [ [] ]\<rparr>"
  from run obtain u where u: "mfold (run_event api) (script c [] [] []) ?s1 = Inr u" "run_event api EvLeave u = Inr s'"
    by (auto simp: mfold_append simp del: run_event.simps(4))
  have level: "at_level (Some (cur, sibs)) fr [] [] ?s1" using start(1) by (simp add: fr)
  have "query s' = query u" using u(2) by auto
  then have "begins (operands (odg (query u))) ops" using pre by simp
  then obtain ts where ts: "trees = Inr ts"
    "extends (concat (map tree_patterns ts)) (trees_calls ops (Some (cur, sibs)) (next_operand s) ts) ?s1 u"
    "at_level (Some (cur, sibs)) fr (leaf_operands (next_operand s) ts) [] u"
    using trees level start(2-4) u(1) unfolding draws_def
    by (elim allE [of _ "Some (cur, sibs)"] allE [of _ fr] allE [of _ "[]"] allE [of _ ?s1] allE [of _ u])
       (auto simp: below_def)
  moreover have "s' = u\<lparr>union_operands := uss @ [ [] ], group_patterns := gps @ [map of_nat cur]\<rparr>"
    using u(2) ts(3) by (auto simp: fr pop_back_Inr modify_back_Inr)
  ultimately show ?thesis by (auto simp: fr extends_def)
qed

lemma optionals_visited:
  assumes trees: "\<And>opt. opt \<in> set p \<Longrightarrow> draws api ops prefs (script (groupGraphPatternSub opt) [] [] []) (f opt)"
    and "at_optional fr cur sibs s" "covered s" "\<forall>i \<in> set (cur @ sibs). i < next_operand s" "prefixes (query s) = prefs"
    and "mfold (run_event api) (concat (map optional_script p)) s = Inr s'"
    and "begins (operands (odg (query s'))) ops"
  shows "\<exists>opts. concat_res (\<lambda>opt. map_res (\<lambda>ts. [ts]) (f opt)) p = Inr opts \<and>
    extends (concat (map (\<lambda>ts. concat (map tree_patterns ts)) opts)) (optionals_calls ops cur sibs (next_operand s) opts) s s' \<and>
    (\<exists>sibs'. at_optional fr cur sibs' s')"
  using assms
proof (induction p arbitrary: s sibs)
  case Nil
  then show ?case by (auto simp: extends_def)
next
  case (Cons opt p)
  from Cons.prems(6) obtain u where u: "mfold (run_event api) (optional_script opt) s = Inr u"
    "mfold (run_event api) (concat (map optional_script p)) u = Inr s'"
    by (auto simp: mfold_append)
  have "outcome soft (\<lambda>u. shape (Suc (length (fst fr)), Suc (length (fst fr))) u \<and> covered u)
      (mfold (run_event api) (concat (map optional_script [opt])) s)"
    by (rule coverage.script_good [OF conjI [OF at_optional_shape [OF Cons.prems(2)] Cons.prems(3)] run_shape_optionals])
  then have mid: "shape (Suc (length (fst fr)), Suc (length (fst fr))) u" "covered u"
    using u(1) by simp_all
  have "begins (operands (odg (query u))) ops"
    using operands_grow [OF u(2) run_shape_optionals mid] Cons.prems(7) begins_trans by blast
  then obtain ts where ts: "f opt = Inr ts"
    "extends (concat (map tree_patterns ts)) (trees_calls ops (Some (cur, sibs)) (next_operand s) ts) s u"
    "at_optional fr cur (sibs @ leaf_operands (next_operand s) ts) u"
    using optional_visited [OF Cons.prems(1) [OF list.set_intros(1)] Cons.prems(2-5) u(1) [unfolded optional_script_def]] by blast
  have less: "\<forall>i \<in> set (cur @ sibs @ leaf_operands (next_operand s) ts). i < next_operand u"
    unfolding extends_length [OF ts(2)]
    using Cons.prems(4) leaf_operands_range [of _ "next_operand s" ts]
    by (auto intro: trans_less_add1 simp del: length_concat)
  have "\<exists>opts. concat_res (\<lambda>opt. map_res (\<lambda>ts. [ts]) (f opt)) p = Inr opts \<and>
    extends (concat (map (\<lambda>ts. concat (map tree_patterns ts)) opts))
      (optionals_calls ops cur (sibs @ leaf_operands (next_operand s) ts) (next_operand u) opts) u s' \<and>
    (\<exists>sibs'. at_optional fr cur sibs' s')"
    by (rule Cons.IH [OF Cons.prems(1) ts(3) mid(2) _ _ u(2) Cons.prems(7)])
       (use less ts(2) Cons.prems(5) in \<open>auto simp: extends_def\<close>)
  then obtain opts where "concat_res (\<lambda>opt. map_res (\<lambda>ts. [ts]) (f opt)) p = Inr opts"
    "extends (concat (map (\<lambda>ts. concat (map tree_patterns ts)) opts))
      (optionals_calls ops cur (sibs @ leaf_operands (next_operand s) ts) (next_operand u) opts) u s'"
    "\<exists>sibs'. at_optional fr cur sibs' s'" by blast
  then show ?case
    using ts(1) extends_trans [OF ts(2)] extends_length [OF ts(2)] by (intro exI [of _ "ts # opts"]) auto
qed

lemma trees_calls_append:
  "trees_calls ops around m (ts @ ts') =
     trees_calls ops around m ts @ trees_calls ops around (m + length (concat (map tree_patterns ts))) ts'"
  by (induction ts arbitrary: m) (simp_all add: add.assoc)

lemma leaf_operands_append:
  "leaf_operands m (ts @ ts') = leaf_operands m ts @ leaf_operands (m + length (concat (map tree_patterns ts))) ts'"
  by (induction m ts rule: leaf_operands.induct) (simp_all add: add.assoc)

lemma below_later:
  assumes "below around us m"
  shows "below around (us @ leaf_operands m ts) (m + length (concat (map tree_patterns ts)))"
proof (cases around)
  case None
  then show ?thesis by (simp add: below_def)
next
  case (Some ar)
  obtain prev sibs where ar: "around = Some (prev, sibs)" using Some by (cases ar) simp
  note range = leaf_operands_range [of _ m ts]
  have "i \<notin> set (leaf_operands m ts)" if "i \<in> set sibs" for i
  proof -
    have "i < m" using assms that by (simp add: below_def ar)
    then show ?thesis using range [of i] by linarith
  qed
  then have "set sibs \<inter> set (leaf_operands m ts) = {}" by blast
  then show ?thesis
    using assms range by (auto simp: below_def ar intro: trans_less_add1 simp del: length_concat)
qed

lemma draws_append:
  assumes "draws api ops prefs evs trees" and "draws api ops prefs evs' trees'"
    and shape: "\<And>d. run_shape evs (Suc d, d) = Some (Suc d, d)" "\<And>d. run_shape evs' (Suc d, d) = Some (Suc d, d)"
  shows "draws api ops prefs (evs @ evs') (bind_res trees (\<lambda>ts. map_res ((@) ts) trees'))"
  unfolding draws_def
proof (intro allI impI)
  fix around fr us and s s' :: "'a visitor"
  assume s: "at_level around fr us [] s" "covered s" "below around us (next_operand s)" "prefixes (query s) = prefs"
    and run: "mfold (run_event api) (evs @ evs') s = Inr s'" and pre: "begins (operands (odg (query s'))) ops"
  let ?d = "depth around fr"
  from run obtain u where u: "mfold (run_event api) evs s = Inr u" "mfold (run_event api) evs' u = Inr s'"
    by (auto simp: mfold_append)
  have "outcome soft (\<lambda>u. shape (Suc ?d, ?d) u \<and> covered u) (mfold (run_event api) evs s)"
    by (rule coverage.script_good [OF conjI [OF level_shape [OF s(1)] s(2)] shape(1)])
  then have mid: "shape (Suc ?d, ?d) u" "covered u" using u(1) by simp_all
  have "begins (operands (odg (query u))) ops"
    using operands_grow [OF u(2) shape(2) mid] pre begins_trans by blast
  then obtain ts where ts: "trees = Inr ts"
    "extends (concat (map tree_patterns ts)) (trees_calls ops around (next_operand s) ts) s u"
    "at_level around fr (us @ leaf_operands (next_operand s) ts) [] u"
    using assms(1) s u(1) unfolding draws_def by blast
  note len = extends_length [OF ts(2)]
  have "prefixes (query u) = prefs" using ts(2) s(4) by (simp add: extends_def)
  then obtain ts' where ts': "trees' = Inr ts'"
    "extends (concat (map tree_patterns ts')) (trees_calls ops around (next_operand u) ts') u s'"
    "at_level around fr ((us @ leaf_operands (next_operand s) ts) @ leaf_operands (next_operand u) ts') [] s'"
    using assms(2) ts(3) mid(2) below_later [OF s(3), of ts, folded len] u(2) pre unfolding draws_def by blast
  show "\<exists>ts. bind_res trees (\<lambda>ts. map_res ((@) ts) trees') = Inr ts \<and>
      extends (concat (map tree_patterns ts)) (trees_calls ops around (next_operand s) ts) s s' \<and>
      at_level around fr (us @ leaf_operands (next_operand s) ts) [] s'"
    using extends_trans [OF ts(2) ts'(2)] ts(1) ts'(1,3)
    by (intro exI [of _ "ts @ ts'"]) (simp add: trees_calls_append leaf_operands_append len)
qed

lemma draws_leaf:
  assumes contract: "odg_contract api" "length ops \<le> 256"
    and trees: "\<And>opt ps. opt \<in> set p \<Longrightarrow> concat_res (block_patterns api prefs) t = Inr ps \<Longrightarrow>
      draws api ops prefs (script (groupGraphPatternSub opt) [] [] []) (f opt)"
  shows "draws api ops prefs (leaf_script (Some (t, p)))
    (bind_res (concat_res (block_patterns api prefs) t) (\<lambda>ps.
       map_res (\<lambda>opts. [Leaf ps opts]) (concat_res (\<lambda>opt. map_res (\<lambda>ts. [ts]) (f opt)) p)))"
  unfolding draws_def
proof (intro allI impI)
  fix around fr us and s s' :: "'a visitor"
  assume s: "at_level around fr us [] s" "covered s" "below around us (next_operand s)" "prefixes (query s) = prefs"
    and run: "mfold (run_event api) (leaf_script (Some (t, p))) s = Inr s'" and pre: "begins (operands (odg (query s'))) ops"
  let ?d = "depth around fr" and ?m = "next_operand s"
  let ?edges = "\<lambda>cur. case around of None \<Rightarrow> [] | Some (prev, sibs) \<Rightarrow> optional_calls ops prev sibs cur"
  from run obtain u v where u: "visit_group api t s = Inr u"
    "mfold (run_event api) (concat (map optional_script p)) (open_optionals u) = Inr v" "close_optionals v = Inr s'"
    by (auto simp: leaf_script_def mfold_append)
  have "outcome soft (\<lambda>u. shape (Suc ?d, ?d) u \<and> covered u) (visit_group api t s)"
    by (rule coverage.visit_group_good [OF conjI [OF level_shape [OF s(1)] s(2)]])
  then have mid: "shape (Suc ?d, ?d) u" "covered u" using u(1) by simp_all
  then have mid': "shape (Suc ?d, Suc ?d) (open_optionals u)" "covered (open_optionals u)"
    by (simp_all add: shape_def open_optionals_def)
  have v: "query s' = query v" using u(3) by (auto simp: close_optionals_def)
  then have pre_v: "begins (operands (odg (query v))) ops" using pre by simp
  have "begins (operands (odg (query u))) ops"
    using operands_grow [OF u(2) run_shape_optionals mid'] pre_v begins_trans by (force simp: open_optionals_def)
  then obtain ps where ps: "concat_res (block_patterns api prefs) t = Inr ps"
    "extends ps (leaf_calls ops ?m (?m + length ps) @ ?edges [?m..<?m + length ps]) s u"
    "at_level around fr (us @ [?m..<?m + length ps]) [?m..<?m + length ps] u"
    using group_visited [OF contract s(1-3) u(1)] s(4) by (auto simp: Let_def)
  let ?cur = "[?m..<?m + length ps]"
  note len = extends_length [OF ps(2)]
  define fr' where "fr' = (butlast (group_patterns u), opt_operands u, union_operands u)"
  have "group_patterns u = butlast (group_patterns u) @ [map of_nat ?cur]"
    using ps(3) by (cases "(around, fr, us @ ?cur, ?cur, u)" rule: at_level.cases) (auto simp: butlast_append)
  then have start: "at_optional fr' ?cur [] (open_optionals u)"
    using mid(1) by (simp add: fr'_def shape_def open_optionals_def)
  have "\<exists>opts. concat_res (\<lambda>opt. map_res (\<lambda>ts. [ts]) (f opt)) p = Inr opts \<and>
    extends (concat (map (\<lambda>ts. concat (map tree_patterns ts)) opts))
      (optionals_calls ops ?cur [] (next_operand (open_optionals u)) opts) (open_optionals u) v \<and>
    (\<exists>sibs'. at_optional fr' ?cur sibs' v)"
    by (rule optionals_visited [OF trees [OF _ ps(1)] start mid'(2) _ _ u(2) pre_v])
       (use ps(1,2) s(4) len in \<open>auto simp: extends_def open_optionals_def\<close>)
  then obtain opts sibs' where opts: "concat_res (\<lambda>opt. map_res (\<lambda>ts. [ts]) (f opt)) p = Inr opts"
    "extends (concat (map (\<lambda>ts. concat (map tree_patterns ts)) opts)) (optionals_calls ops ?cur [] (?m + length ps) opts) u v"
    "at_optional fr' ?cur sibs' v"
    using len by (auto simp: open_optionals_def extends_def)
  have close: "s' = v\<lparr>group_patterns := butlast (group_patterns u) @ [ [] ], opt_operands := opt_operands u,
      union_operands := union_operands u\<rparr>"
    using u(3) opts(3) by (auto simp: fr'_def close_optionals_def pop_back_Inr modify_back_Inr)
  have "extends (tree_patterns (Leaf ps opts)) (tree_calls ops around ?m (Leaf ps opts)) s s'"
    using extends_trans [OF ps(2) opts(2)] by (simp add: extends_def close)
  moreover have "at_level around fr (us @ ?cur) [] s'"
    using ps(3) by (cases "(around, fr, us @ ?cur, ?cur, u)" rule: at_level.cases) (auto simp: close butlast_append)
  ultimately show "\<exists>ts. bind_res (concat_res (block_patterns api prefs) t) (\<lambda>ps.
       map_res (\<lambda>opts. [Leaf ps opts]) (concat_res (\<lambda>opt. map_res (\<lambda>ts. [ts]) (f opt)) p)) = Inr ts \<and>
      extends (concat (map tree_patterns ts)) (trees_calls ops around ?m ts) s s' \<and>
      at_level around fr (us @ leaf_operands ?m ts) [] s'"
    using ps(1) opts(1) by (intro exI [of _ "[Leaf ps opts]"]) simp
qed

definition leaf_trees ::
  "'l sparql_api \<Rightarrow> (string \<times> string) list \<Rightarrow> leaf \<Rightarrow> exn + 'l pattern_tree list" where
  "leaf_trees api prefs l =
     (case l of
        None \<Rightarrow> Inl NullDeref
      | Some (t, p) \<Rightarrow>
          bind_res (concat_res (block_patterns api prefs) t) (\<lambda>ps.
            map_res (\<lambda>opts. [Leaf ps opts])
              (concat_res (\<lambda>opt. map_res (\<lambda>ts. [ts]) (pattern_trees api prefs (groupGraphPatternSub opt))) p)))"

lemma pattern_trees_leaves: "pattern_trees api prefs c = concat_res (leaf_trees api prefs) (den c)"
  by (simp add: pattern_trees.simps [of api prefs c] leaf_trees_def [abs_def])

lemma draws_leaves:
  assumes "\<And>l. l \<in> set ls \<Longrightarrow> draws api ops prefs (leaf_script l) (leaf_trees api prefs l)"
  shows "draws api ops prefs (concat (map leaf_script ls)) (concat_res (leaf_trees api prefs) ls)"
  using assms
proof (induction ls)
  case Nil
  show ?case by (auto simp: draws_def extends_def)
next
  case (Cons l ls)
  have "draws api ops prefs (leaf_script l @ concat (map leaf_script ls))
      (bind_res (leaf_trees api prefs l) (\<lambda>ts. map_res ((@) ts) (concat_res (leaf_trees api prefs) ls)))"
    by (rule draws_append) (use Cons run_shape_leaves [of "[l]"] run_shape_leaves in auto)
  then show ?case by simp
qed

lemma draws_script:
  assumes "odg_contract api" and "length ops \<le> 256"
  shows "draws api ops prefs (script c [] [] []) (pattern_trees api prefs c)"
  using assms(1)
proof (induction api prefs c rule: pattern_trees.induct)
  case (1 api prefs c)
  have "draws api ops prefs (leaf_script l) (leaf_trees api prefs l)" if l: "l \<in> set (den c)" for l
  proof (cases l)
    case None
    then show ?thesis by (simp add: draws_def leaf_script_def)
  next
    case (Some tp)
    obtain t p where tp: "tp = (t, p)" by (cases tp)
    have opt: "draws api ops prefs (script (groupGraphPatternSub opt) [] [] []) (pattern_trees api prefs (groupGraphPatternSub opt))"
      if "opt \<in> set p" "concat_res (block_patterns api prefs) t = Inr ps" for opt ps
      by (rule 1(1) [OF l Some tp [symmetric] that(2,1) 1(2)])
    show ?thesis
      unfolding Some tp leaf_trees_def option.case prod.case
      by (rule draws_leaf [OF 1(2) assms(2) opt])
  qed
  then have "draws api ops prefs (concat (map leaf_script (den c))) (concat_res (leaf_trees api prefs) (den c))"
    by (rule draws_leaves)
  then show ?case by (simp add: script_den pattern_trees_leaves)
qed

subsection \<open>The graph of a parsed query\<close>

lemma where_trees:
  assumes run: "visitWhereClause api w (new_visitor (new_query\<lparr>prefixes := ps\<rparr>)) = Inr s"
    and contract: "odg_contract api" "length (operands (odg (query s))) \<le> 256"
  shows "\<exists>c ts. groupGraphPatternSub w = Some c \<and> pattern_trees api ps (Some c) = Inr ts \<and> prefixes (query s) = ps \<and>
    triple_patterns (query s) = concat (map tree_patterns ts) \<and> odg (query s) = pattern_graph (operands (odg (query s))) ts"
proof -
  let ?s0 = "(new_visitor (new_query\<lparr>prefixes := ps\<rparr>))\<lparr>group_patterns := [ [] ]\<rparr>"
  obtain c where c: "\<not> subSelect w" "groupGraphPatternSub w = Some c"
    using run by (auto simp: visitWhereClause_def visitGroupGraphPattern_def split: if_splits option.splits)
  then have "bind_res (mfold (run_event api) (script (Some c) [] [] []) ?s0) pop_group = Inr s"
    using run visitWhereClause_runs_script [OF c, of api "new_visitor (new_query\<lparr>prefixes := ps\<rparr>)"]
    by (simp add: where_script_def new_visitor_def del: bind_res_Inr_iff)
  then obtain t where t: "mfold (run_event api) (script (Some c) [] [] []) ?s0 = Inr t" "query s = query t"
    by (auto simp: pop_group_def)
  have "covered ?s0" using new_visitor_covered [OF refl, of ps] by simp
  moreover have "at_level None ([], [], []) [] [] ?s0" "below None [] 0" "next_operand ?s0 = 0"
    "prefixes (query ?s0) = ps" "triple_patterns (query ?s0) = []" "odg (query ?s0) = []"
    by (simp_all add: new_visitor_def new_query_def below_def)
  ultimately obtain ts where "pattern_trees api ps (Some c) = Inr ts"
    "extends (concat (map tree_patterns ts)) (trees_calls (operands (odg (query s))) None 0 ts) ?s0 t"
    using draws_script [OF contract, of ps "Some c"] t unfolding draws_def by (metis begins_refl)
  then show ?thesis
    using c(2) t(2) by (auto simp: extends_def pattern_graph_def new_visitor_def new_query_def)
qed

text \<open>The pattern of a query, as \<open>visitSelectQuery\<close> and \<open>visitAskQuery\<close> look it up.\<close>

definition query_pattern :: "query_ctx \<Rightarrow> group_graph_pattern_sub_ctx option" where
  "query_pattern ctx =
     Option.bind
       (case selectQuery ctx of
          Some c \<Rightarrow> select_whereClause c
        | None \<Rightarrow> Option.bind (askQuery ctx) ask_whereClause)
       groupGraphPatternSub"

lemma select_prefixes:
  assumes "visitSelectClause api sc s = Inr s'"
  shows "prefixes (query s') = prefixes (query s)"
proof -
  have step: "prefixes (query t') = prefixes (query t)" if "select_variable v t = Inr t'" for v and t t' :: "'a visitor"
    using that by (auto simp: select_variable_def register_var_def Let_def split: if_splits option.splits)
  have "prefixes (query t') = prefixes (query t)" if "mfold select_variable vs t = Inr t'" for vs and t t' :: "'a visitor"
    using mfold_invariant [OF that, of "\<lambda>u. prefixes (query u) = prefixes (query t)"] step by simp
  with assms show ?thesis by (auto simp: visitSelectClause_def Let_def split: if_splits)
qed

lemma pattern_graph_of_parse:
  assumes "sparql_parse api ctx = Inr q" and "odg_contract api" and "length (triple_patterns q) \<le> 256"
  shows "\<exists>c ts. query_pattern ctx = Some c \<and> pattern_trees api (prefixes q) (Some c) = Inr ts \<and>
           triple_patterns q = concat (map tree_patterns ts) \<and>
           odg q = pattern_graph (map (\<lambda>tp. map (\<lambda>v. the (var_to_id q v)) (pattern_vars tp)) (triple_patterns q)) ts"
proof -
  have ops: "operands (odg q) = map (labels (var_to_id q)) (triple_patterns q)"
    using parse_covered [OF assms(1)] by (auto simp: query_covered_def)
  then have len: "length (operands (odg q)) \<le> 256" using assms(3) by simp
  have "\<exists>c ts. query_pattern ctx = Some c \<and> pattern_trees api (prefixes q) (Some c) = Inr ts \<and>
      triple_patterns q = concat (map tree_patterns ts) \<and> odg q = pattern_graph (operands (odg q)) ts"
    using assms(1)
  proof (cases rule: sparql_parse_cases)
    case (select c w ps s s')
    have "odg q = odg (query s)" "triple_patterns q = triple_patterns (query s)" "prefixes q = prefixes (query s)"
      using select_covered [OF select(4)] select_prefixes [OF select(4)] select(5,6) by (auto simp: covered_def)
    then show ?thesis
      using where_trees [OF select(3) assms(2)] len select(1,2) by (auto simp: query_pattern_def)
  next
    case (ask c w ps s)
    then show ?thesis using where_trees [OF ask(4) assms(2)] len by (auto simp: query_pattern_def)
  qed
  then show ?thesis by (simp add: ops labels_def [abs_def])
qed

text \<open>
  C6. The graph of any parsed query of at most 256 triple patterns, optional patterns and unions included, is the one its
  pattern prescribes, with a graph library that numbers the operands consecutively (\<open>odg_contract\<close>; the numbers are
  bytes, so beyond 256 patterns they wrap around): the visitor's stacks of operand ids amount to joining the operands of
  each conjunctive leaf with each other, letting those of an optional pattern depend, one way, on the operands of the leaf around it and connecting them with those of the optional
  patterns before it, except the alternatives of its own union; and nothing else is connected.
\<close>

theorem parse_pattern_graph:
  assumes "sparql_parse api ctx = Inr q" and "odg_contract api" and "length (triple_patterns q) \<le> 256"
  shows "\<exists>c ts. query_pattern ctx = Some c \<and> pattern_trees api (prefixes q) (Some c) = Inr ts \<and>
           triple_patterns q = concat (map tree_patterns ts) \<and>
           odg q = pattern_graph (map (\<lambda>tp. map (\<lambda>v. the (var_to_id q v)) (pattern_vars tp)) (triple_patterns q)) ts"
  by (rule pattern_graph_of_parse [OF assms])

text \<open>
  An optional pattern with nothing on its left has no operand to depend on: its graph is that of the
  same pattern outside \<open>OPTIONAL\<close>, although \<open>{ OPTIONAL { P } }\<close> has the empty solution where \<open>P\<close> has none.
\<close>

lemma lone_optional: "pattern_graph ops [Leaf [] [[Leaf ps opts]]] = pattern_graph ops [Leaf ps opts]"
  by (simp add: pattern_graph_def optional_calls_def map_replicate_const)

text \<open>\<open>SELECT * WHERE { ?s <p> ?o . OPTIONAL { ?o <q> ?x } OPTIONAL { { ?s <r> ?y } UNION { ?x <r> ?s } } }\<close>\<close>

definition sample_options_pattern :: group_graph_pattern_sub_ctx where
  "sample_options_pattern =
     GroupGraphPatternSubCtx (Some (one_triple (var_term ''s'') (iri_verb ''p'') (var_term ''o'')))
       [optional_item (triples_group (one_triple (var_term ''o'') (iri_verb ''q'') (var_term ''x'')) []),
        optional_item (GroupGraphPatternCtx False (Some (GroupGraphPatternSubCtx None
          [union_item [triples_group (one_triple (var_term ''s'') (iri_verb ''r'') (var_term ''y'')) [],
                       triples_group (one_triple (var_term ''x'') (iri_verb ''r'') (var_term ''s'')) []]])))]"

definition sample_options :: query_ctx where
  "sample_options = select_star (GroupGraphPatternCtx False (Some sample_options_pattern))"

definition sample_options_trees :: "string pattern_tree list" where
  "sample_options_trees =
     (let s = VarNode (Variable ''s'' False); t = VarNode (Variable ''o'' False);
          x = VarNode (Variable ''x'' False); y = VarNode (Variable ''y'' False)
      in [Leaf [(s, IRI ''p'', t)]
            [[Leaf [(t, IRI ''q'', x)] []],
             [Leaf [(s, IRI ''r'', y)] [], Leaf [(x, IRI ''r'', s)] []]]])"

definition sample_options_result :: "string sparql_query" where
  "sample_options_result =
     (let s = Variable ''s'' False; t = Variable ''o'' False; x = Variable ''x'' False; y = Variable ''y'' False
      in \<lparr>odg = [AddOperand [97, 98], AddOperand [98, 99], AddDependency 0 1 (Some 98),
                 AddOperand [97, 100], AddDependency 0 2 (Some 97), AddConnection 2 1, AddConnection 1 2,
                 AddOperand [99, 97], AddDependency 0 3 (Some 97), AddConnection 3 1, AddConnection 1 3],
          projected_variables = [s, t, x, y], var_to_id = [s \<mapsto> 97, t \<mapsto> 98, x \<mapsto> 99, y \<mapsto> 100],
          triple_patterns = concat (map tree_patterns sample_options_trees),
          prefixes = [], distinct_flag = False, ask_flag = False, project_all_variables = True\<rparr>)"

lemma sample_options_parse: "sparql_parse sample_api sample_options = Inr sample_options_result"
  by (simp add: visitor_run_defs sample_defs sample_options_def sample_options_pattern_def union_item_def
      sample_options_result_def sample_options_trees_def Let_def restore_blocks_def resize_back_def
      connect_sibling_def)

lemma sample_options_pattern_trees:
  "pattern_trees sample_api [] (Some sample_options_pattern) = Inr sample_options_trees"
  by (simp add: pattern_trees_leaves leaf_trees_def sample_options_pattern_def sample_options_trees_def union_item_def
      optional_item_def ctx_gous_def ctx_opts_def ctx_tbs_def item_gous_def item_opts_def den_unions.simps [of "[_]"]
      product_def extend_def Let_def block_patterns_def subject_patterns_def property_patterns_def object_pattern_def
      verb_node_def sample_defs visitVarOrTerm_def visitVar_def visitIri_def substr_def sz_sub_def npos_def)

theorem parse_pattern_graph_witness:
  "odg sample_options_result = pattern_graph [ [97, 98], [98, 99], [97, 100], [99, 97] ] sample_options_trees"
proof -
  have pat: "query_pattern sample_options = Some sample_options_pattern" "prefixes sample_options_result = []"
    by (simp_all add: query_pattern_def sample_options_def select_star_def sample_options_result_def Let_def)
  have "length (triple_patterns sample_options_result) \<le> 256"
    by (simp add: sample_options_result_def sample_options_trees_def Let_def)
  note parse_pattern_graph [OF sample_options_parse sample_api_contract this]
  then have "odg sample_options_result = pattern_graph (map (\<lambda>tp. map (\<lambda>v. the (var_to_id sample_options_result v))
      (pattern_vars tp)) (triple_patterns sample_options_result)) sample_options_trees"
    by (simp add: pat sample_options_pattern_trees)
  then show ?thesis
    by (simp add: sample_options_result_def sample_options_trees_def Let_def pattern_vars_def)
qed

end
