(* ===== verification/Union_Graph.thy ===== *)
theory Union_Graph
  imports Pattern_Graph
begin

text \<open>
  The operand dependency graph of a query with unions and without optional patterns: one complete join
  graph per conjunctive leaf of the pattern, in the order of the leaves, and no edge between two leaves.
  A special case of \<open>parse_pattern_graph\<close>, which has trees without optional patterns only; a conjunctive
  query is the case of one leaf.
\<close>

subsection \<open>The graph\<close>

text \<open>The calls for one leaf whose first operand has number \<open>m\<close>.\<close>

definition link_at :: "nat \<Rightarrow> uint8 list list \<Rightarrow> nat \<Rightarrow> nat \<Rightarrow> odg_call list" where
  "link_at m ls k i = concat (map (edge_pair (of_nat (m + i)) (of_nat (m + k))) (join_labels (ls ! k) (ls ! i)))"

definition component :: "nat \<Rightarrow> uint8 list list \<Rightarrow> odg_call list" where
  "component m ls =
     concat (map (\<lambda>k. AddOperand (ls ! k) # concat (map (link_at m ls k) (rev [0..<k]))) [0..<length ls])"

fun union_graph_from :: "nat \<Rightarrow> uint8 list list list \<Rightarrow> odg_call list" where
  "union_graph_from m [] = []"
| "union_graph_from m (ls # lss) = component m ls @ union_graph_from (m + length ls) lss"

definition union_graph :: "uint8 list list list \<Rightarrow> odg_call list" where
  "union_graph lss = union_graph_from 0 lss"

lemma component_Nil [simp]: "component m [] = []"
  by (simp add: component_def)

lemma component_zero: "component 0 ls = join_graph ls"
  by (simp add: component_def join_graph_def join_to_def [abs_def] link_at_def [abs_def])

lemma union_graph_single: "union_graph [ls] = join_graph ls"
  by (simp add: union_graph_def component_zero)

lemma component_snoc:
  "component m (ls @ [vs]) =
     component m ls @ AddOperand vs # concat (map (link_at m (ls @ [vs]) (length ls)) (rev [0..<length ls]))"
proof -
  have "link_at m (ls @ [vs]) k i = link_at m ls k i" if "k < length ls" "i < k" for k i
    using that by (simp add: link_at_def nth_append)
  then have "concat (map (\<lambda>k. AddOperand ((ls @ [vs]) ! k) # concat (map (link_at m (ls @ [vs]) k) (rev [0..<k])))
      [0..<length ls]) = component m ls"
    unfolding component_def
    by (intro map_cong refl arg_cong2 [where f = Cons] arg_cong [where f = concat]) (auto simp: nth_append)
  then show ?thesis by (simp add: component_def [of m "ls @ [vs]"])
qed

lemma operands_concat_edges: "(\<And>x. operands (f x) = []) \<Longrightarrow> operands (concat (map f xs)) = []"
  by (induction xs) simp_all

lemma operands_component [simp]: "operands (component m ls) = ls"
  by (induction ls rule: rev_induct) (simp_all add: component_snoc operands_concat_edges link_at_def)

lemma operands_union_graph_from [simp]: "operands (union_graph_from m lss) = concat lss"
  by (induction lss arbitrary: m) simp_all

lemma operands_union_graph [simp]: "operands (union_graph lss) = concat lss"
  by (simp add: union_graph_def)

subsection \<open>Queries without optional patterns\<close>

text \<open>Every alternative of a union is a proper group, and there is no optional pattern.\<close>

definition no_optional :: "group_graph_pattern_sub_ctx \<Rightarrow> bool" where
  "no_optional c \<longleftrightarrow> (\<forall>l \<in> set (den (Some c)). l \<noteq> None \<and> snd (the l) = [])"

definition leaf_blocks :: "group_graph_pattern_sub_ctx \<Rightarrow> triples_block_ctx list list" where
  "leaf_blocks c = map (\<lambda>l. fst (the l)) (den (Some c))"

lemma no_optional_den:
  assumes "no_optional c"
  shows "den (Some c) = map (\<lambda>t. Some (t, [])) (leaf_blocks c)"
proof -
  have "Some (fst (the l), []) = l" if "l \<in> set (den (Some c))" for l
    using assms that by (cases l) (auto simp: no_optional_def prod_eq_iff simp del: den.simps)
  then show ?thesis by (simp add: leaf_blocks_def comp_def map_idI del: den.simps)
qed

text \<open>Their trees are the leaves, and the calls for these are those of the components.\<close>

lemma plain_leaves:
  "concat_res (leaf_trees api prefs) (map (\<lambda>t. Some (t, [])) ts) = Inr trees \<Longrightarrow>
   \<exists>pss. map (concat_res (block_patterns api prefs)) ts = map Inr pss \<and> trees = map (\<lambda>ps. Leaf ps []) pss"
proof (induction ts arbitrary: trees)
  case Nil
  then show ?case by simp
next
  case (Cons t ts)
  have leaf: "leaf_trees api prefs (Some (t, [])) = map_res (\<lambda>ps. [Leaf ps []]) (concat_res (block_patterns api prefs) t)"
    by (simp add: leaf_trees_def map_res_def)
  from Cons.prems obtain ps trees' where ps: "concat_res (block_patterns api prefs) t = Inr ps"
    "concat_res (leaf_trees api prefs) (map (\<lambda>t. Some (t, [])) ts) = Inr trees'" "trees = Leaf ps [] # trees'"
    by (auto simp: leaf map_res_def)
  from Cons.IH [OF ps(2)] obtain pss where
    "map (concat_res (block_patterns api prefs)) ts = map Inr pss" "trees' = map (\<lambda>ps. Leaf ps []) pss" by blast
  with ps(1,3) show ?case by (intro exI [of _ "ps # pss"]) simp
qed

lemma leaf_calls_component:
  "leaf_calls (xs @ ls @ ys) (length xs) (length xs + length ls) = component (length xs) ls"
proof -
  have shift: "[length xs..<length xs + k] = map ((+) (length xs)) [0..<k]" for k
    by (rule nth_equalityI) simp_all
  have "concat (map (join_to (xs @ ls @ ys) (length xs + k)) (rev [length xs..<length xs + k])) =
      concat (map (link_at (length xs) ls k) (rev [0..<k]))" if "k < length ls" for k
    unfolding shift rev_map map_map using that
    by (intro arg_cong [where f = concat] map_cong) (auto simp: join_to_def link_at_def nth_append)
  then show ?thesis
    unfolding leaf_calls_def component_def shift [of "length ls"] map_map comp_def
    by (intro arg_cong [where f = concat] map_cong refl) (auto simp: nth_append)
qed

lemma plain_trees_calls:
  "trees_calls (xs @ concat (map (map lab) pss)) None (length xs) (map (\<lambda>ps. Leaf ps []) pss) =
     union_graph_from (length xs) (map (map lab) pss)"
proof (induction pss arbitrary: xs)
  case Nil
  show ?case by simp
next
  case (Cons ps pss)
  show ?case
    using leaf_calls_component [of xs "map lab ps" "concat (map (map lab) pss)"] Cons.IH [of "xs @ map lab ps"] by simp
qed

text \<open>
  The graph of a query without optional patterns is the disjoint union of complete join graphs: its calls
  are those of one join graph per conjunctive leaf of the pattern, one after the other, in which each
  operand is joined to all earlier ones of its leaf in both directions by one edge per shared variable, or by
  one unlabelled edge where nothing is shared; nothing joins operands of different leaves.
\<close>

lemma parse_union_graph:
  assumes "sparql_parse api ctx = Inr q" and "odg_contract api" and "length (triple_patterns q) \<le> 256"
    and "selectQuery ctx = Some sc" and "select_whereClause sc = Some w"
    and "groupGraphPatternSub w = Some c" and "no_optional c"
  shows "\<exists>pss. map (concat_res (block_patterns api (prefixes q))) (leaf_blocks c) = map Inr pss \<and>
           triple_patterns q = concat pss \<and>
           odg q = union_graph (map (map (\<lambda>tp. map (\<lambda>v. the (var_to_id q v)) (pattern_vars tp))) pss)"
proof -
  let ?lab = "\<lambda>tp. map (\<lambda>v. the (var_to_id q v)) (pattern_vars tp)"
  have "query_pattern ctx = Some c" using assms(4-6) by (simp add: query_pattern_def)
  then obtain ts where ts: "pattern_trees api (prefixes q) (Some c) = Inr ts"
    "triple_patterns q = concat (map tree_patterns ts)" "odg q = pattern_graph (map ?lab (triple_patterns q)) ts"
    using pattern_graph_of_parse [OF assms(1-3)] by auto
  obtain pss where pss: "map (concat_res (block_patterns api (prefixes q))) (leaf_blocks c) = map Inr pss"
    "ts = map (\<lambda>ps. Leaf ps []) pss"
    using plain_leaves ts(1) unfolding pattern_trees_leaves no_optional_den [OF assms(7)] by blast
  have "triple_patterns q = concat pss" by (simp add: ts(2) pss(2) comp_def)
  moreover from this have "odg q = union_graph (map (map ?lab) pss)"
    using plain_trees_calls [of "[]" ?lab pss] by (simp add: ts(3) pss(2) pattern_graph_def union_graph_def map_concat)
  ultimately show ?thesis using pss(1) by blast
qed

text \<open>
  For a query that is one conjunction of triple patterns the graph is the complete join graph: its
  calls are exactly one operand per pattern, joined to all earlier ones in both directions by one edge
  per shared variable, or by one unlabelled edge where nothing is shared.
\<close>

lemma parse_conjunctive_graph:
  assumes "sparql_parse api ctx = Inr q" and "odg_contract api" and "length (triple_patterns q) \<le> 256"
    and "selectQuery ctx = Some sc" and "select_whereClause sc = Some w"
    and "groupGraphPatternSub w = Some c" and "ctx_gous c = []" and "ctx_opts c = []"
  shows "odg q = join_graph (map (\<lambda>tp. map (\<lambda>v. the (var_to_id q v)) (pattern_vars tp)) (triple_patterns q))"
proof -
  have "den (Some c) = [Some (ctx_tbs c, [])]" using assms(7,8) by (simp add: extend_def)
  then have leaf: "no_optional c" "leaf_blocks c = [ctx_tbs c]" by (simp_all add: no_optional_def leaf_blocks_def)
  obtain pss where "map (concat_res (block_patterns api (prefixes q))) (leaf_blocks c) = map Inr pss"
    "triple_patterns q = concat pss"
    "odg q = union_graph (map (map (\<lambda>tp. map (\<lambda>v. the (var_to_id q v)) (pattern_vars tp))) pss)"
    using parse_union_graph [OF assms(1-6) leaf(1)] by blast
  then show ?thesis unfolding leaf(2) by (auto simp: union_graph_single)
qed

lemma parse_conjunctive_graph_example:
  "odg sample_join_result = join_graph [ [97, 98], [98, 97] ]"
proof -
  define c where "c = GroupGraphPatternSubCtx (Some (one_triple (var_term ''s'') (iri_verb ''p'') (var_term ''o'') @
      one_triple (var_term ''o'') (iri_verb ''q'') (var_term ''s''))) []"
  have "odg sample_join_result = join_graph (map (\<lambda>tp. map (\<lambda>v. the (var_to_id sample_join_result v)) (pattern_vars tp))
      (triple_patterns sample_join_result))"
    by (rule parse_conjunctive_graph [OF sample_join_parse sample_api_contract,
          where sc = "the (selectQuery sample_join)" and w = "GroupGraphPatternCtx False (Some c)" and c = c])
       (simp_all add: sample_join_result_def sample_join_def select_star_def triples_group_def c_def Let_def
          ctx_gous_def ctx_opts_def)
  then show ?thesis by (simp add: sample_join_result_def Let_def pattern_vars_def)
qed

text \<open>\<open>SELECT * WHERE { ?s <p> ?o . { ?o <q> ?s } UNION { ?o <r> ?x } }\<close>\<close>

definition sample_union_pattern :: group_graph_pattern_sub_ctx where
  "sample_union_pattern =
     GroupGraphPatternSubCtx (Some (one_triple (var_term ''s'') (iri_verb ''p'') (var_term ''o'')))
       [union_item [triples_group (one_triple (var_term ''o'') (iri_verb ''q'') (var_term ''s'')) [],
                    triples_group (one_triple (var_term ''o'') (iri_verb ''r'') (var_term ''x'')) []]]"

definition sample_union :: query_ctx where
  "sample_union = select_star (GroupGraphPatternCtx False (Some sample_union_pattern))"

definition sample_union_result :: "string sparql_query" where
  "sample_union_result =
     (let s = Variable ''s'' False; t = Variable ''o'' False; x = Variable ''x'' False
      in \<lparr>odg = [AddOperand [97, 98], AddOperand [98, 97], AddDependency 0 1 (Some 98), AddDependency 1 0 (Some 98),
                 AddDependency 0 1 (Some 97), AddDependency 1 0 (Some 97),
                 AddOperand [97, 98], AddOperand [98, 99], AddDependency 2 3 (Some 98), AddDependency 3 2 (Some 98)],
          projected_variables = [s, t, x], var_to_id = [s \<mapsto> 97, t \<mapsto> 98, x \<mapsto> 99],
          triple_patterns = [(VarNode s, IRI ''p'', VarNode t), (VarNode t, IRI ''q'', VarNode s),
                             (VarNode s, IRI ''p'', VarNode t), (VarNode t, IRI ''r'', VarNode x)],
          prefixes = [], distinct_flag = False, ask_flag = False, project_all_variables = True\<rparr>)"

lemma sample_union_parse: "sparql_parse sample_api sample_union = Inr sample_union_result"
  by (simp add: visitor_run_defs sample_defs sample_union_def sample_union_pattern_def union_item_def
      sample_union_result_def Let_def restore_blocks_def resize_back_def)

lemma sample_union_leaves:
  "no_optional sample_union_pattern"
  "leaf_blocks sample_union_pattern =
     [[one_triple (var_term ''s'') (iri_verb ''p'') (var_term ''o''), one_triple (var_term ''o'') (iri_verb ''q'') (var_term ''s'')],
      [one_triple (var_term ''s'') (iri_verb ''p'') (var_term ''o''), one_triple (var_term ''o'') (iri_verb ''r'') (var_term ''x'')]]"
  by (simp_all add: no_optional_def leaf_blocks_def sample_union_pattern_def union_item_def triples_group_def ctx_gous_def
      ctx_opts_def ctx_tbs_def item_gous_def item_opts_def den_unions.simps [of "[_]"] product_def extend_def)

definition sample_union_patterns :: "string triple_pattern list list" where
  "sample_union_patterns =
     (let s = VarNode (Variable ''s'' False); t = VarNode (Variable ''o'' False); x = VarNode (Variable ''x'' False)
      in [ [(s, IRI ''p'', t), (t, IRI ''q'', s)], [(s, IRI ''p'', t), (t, IRI ''r'', x)] ])"

lemma sample_leaf_patterns:
  "map (concat_res (block_patterns sample_api [])) (leaf_blocks sample_union_pattern) = map Inr sample_union_patterns"
  by (simp add: sample_union_leaves(2) sample_union_patterns_def Let_def block_patterns_def subject_patterns_def
      property_patterns_def object_pattern_def verb_node_def sample_defs visitVarOrTerm_def visitVar_def visitIri_def
      substr_def sz_sub_def npos_def)

lemma parse_union_graph_example:
  "odg sample_union_result = union_graph [ [ [97, 98], [98, 97] ], [ [97, 98], [98, 99] ] ]"
proof -
  obtain pss where pss: "map (concat_res (block_patterns sample_api [])) (leaf_blocks sample_union_pattern) = map Inr pss"
    "odg sample_union_result = union_graph (map (map (\<lambda>tp. map (\<lambda>v. the (var_to_id sample_union_result v)) (pattern_vars tp))) pss)"
    using parse_union_graph [OF sample_union_parse sample_api_contract, of "the (selectQuery sample_union)"
        "GroupGraphPatternCtx False (Some sample_union_pattern)" sample_union_pattern] sample_union_leaves(1)
    by (auto simp: sample_union_def select_star_def sample_union_result_def Let_def)
  from pss(1) have "pss = sample_union_patterns"
    unfolding sample_leaf_patterns by (metis injI list.inj_map_strong sum.inject(2))
  then show ?thesis
    unfolding pss(2) by (simp add: sample_union_patterns_def sample_union_result_def Let_def pattern_vars_def)
qed

end
