(* ===== verification/Triple_Store.thy ===== *)
theory Triple_Store
  imports Query_Result
begin

text \<open>
  \<open>TripleStore\<close> (\<open>libs/triple-store\<close>): the operations on the RDF tensor.

  The hypertrie that holds the triples and the evaluator of tensor queries are libraries. A hypertrie is
  a value of type \<open>'h\<close> of which \<open>entries\<close> lists the keys in iteration order; slicing with a key that
  fixes every position yields a truth value, otherwise a hypertrie over the open positions
  (\<open>trie_contract\<close>). Entries are lists of nodes,
  compared by equality, which \<open>Node_Keys\<close> shows the comparison of handles to be. Loops over the tensor that need not end are
  \<open>partial_function\<close>s, where not returning is \<open>None\<close>.
\<close>

subsection \<open>The libraries\<close>

type_synonym time = nat

text \<open>The keys of the tensor, and the entries of results, which are counted (\<open>HypertrieTrait.hpp\<close>, \<open>Query.hpp\<close>).\<close>

type_synonym 'l tensor_key = "'l node list"
type_synonym 'l entry = "'l tensor_key \<times> size_t"

text \<open>A generator is what it yields, and the exception that ends it, if one does.\<close>

type_synonym 'l generator = "'l entry list \<times> exn option"

record ('h, 'l) trie_api =
  entries :: "'h \<Rightarrow> 'l tensor_key list"
  slice :: "'h \<Rightarrow> 'l slice_key \<Rightarrow> bool + 'h"
  empty_scalar :: 'h
  set_entry :: "'h \<Rightarrow> 'l tensor_key \<Rightarrow> bool \<Rightarrow> 'h"
  evaluate :: "odg_call list \<Rightarrow> 'h list \<Rightarrow> uint8 list \<Rightarrow> time \<Rightarrow> 'l generator"
  evaluate_distinct :: "odg_call list \<Rightarrow> 'h list \<Rightarrow> uint8 list \<Rightarrow> time \<Rightarrow> 'l tensor_key list \<times> exn option"
  evaluate_ask :: "odg_call list \<Rightarrow> 'h list \<Rightarrow> uint8 list \<Rightarrow> time \<Rightarrow> exn + bool"
  default_entry_value :: size_t
  node_to_string :: "'l node \<Rightarrow> string"

text \<open>\<open>std::get\<close> on the variant a slice returns.\<close>

definition get_trie :: "bool + 'h \<Rightarrow> exn + 'h" where
  "get_trie r = (case r of Inl _ \<Rightarrow> Inl (LibraryError ''bad_variant_access'') | Inr h \<Rightarrow> Inr h)"

definition get_bool :: "bool + 'h \<Rightarrow> exn + bool" where
  "get_bool r = (case r of Inl b \<Rightarrow> Inr b | Inr _ \<Rightarrow> Inl (LibraryError ''bad_variant_access''))"

definition get_fixed_depth :: "'l slice_key \<Rightarrow> nat" where
  "get_fixed_depth key = length (filter (\<lambda>k. k \<noteq> None) key)"

fun key_matches :: "'l slice_key \<Rightarrow> 'l tensor_key \<Rightarrow> bool" where
  "key_matches [] [] = True"
| "key_matches (None # ks) (n # ns) = key_matches ks ns"
| "key_matches (Some m # ks) (n # ns) = (m = n \<and> key_matches ks ns)"
| "key_matches _ _ = False"

fun open_part :: "'l slice_key \<Rightarrow> 'l tensor_key \<Rightarrow> 'l tensor_key" where
  "open_part (None # ks) (n # ns) = n # open_part ks ns"
| "open_part (Some m # ks) (n # ns) = open_part ks ns"
| "open_part _ _ = []"

definition trie_contract :: "('h, 'l) trie_api \<Rightarrow> bool" where
  "trie_contract api \<longleftrightarrow>
     (\<forall>h. distinct (entries api h)) \<and>
     (\<forall>h key. None \<notin> set key \<longrightarrow> slice api h key = Inl (map the key \<in> set (entries api h))) \<and>
     (\<forall>h key. None \<in> set key \<longrightarrow>
        (\<exists>h'. slice api h key = Inr h' \<and>
              set (entries api h') = open_part key ` {e \<in> set (entries api h). key_matches key e})) \<and>
     entries api (empty_scalar api) = [] \<and>
     entries api (set_entry api (empty_scalar api) [] True) = [ [] ]"

subsection \<open>RDF lists\<close>

definition rdf_nil :: "'l node" where
  "rdf_nil = IRI ''http://www.w3.org/1999/02/22-rdf-syntax-ns#nil''"

definition rdf_first :: "'l node" where
  "rdf_first = IRI ''http://www.w3.org/1999/02/22-rdf-syntax-ns#first''"

definition rdf_rest :: "'l node" where
  "rdf_rest = IRI ''http://www.w3.org/1999/02/22-rdf-syntax-ns#rest''"

definition is_rdf_list :: "('h, 'l) trie_api \<Rightarrow> 'h \<Rightarrow> 'l node \<Rightarrow> exn + bool" where
  "is_rdf_list api h list = no_except
     (if list = rdf_nil then Inr True
      else
        bind_res (get_trie (slice api h [Some list, None, None])) (\<lambda>prop_obj.
          if entries api prop_obj = [] then Inr False
          else
            bind_res (get_trie (slice api prop_obj [Some rdf_first, None])) (\<lambda>has_first.
              if length (entries api has_first) \<noteq> 1 then Inr False
              else
                bind_res (get_trie (slice api prop_obj [Some rdf_rest, None])) (\<lambda>has_rest.
                  if length (entries api has_rest) \<noteq> 1 then Inr False else Inr True))))"

text \<open>One pass of the loop of \<open>get_rdf_list\<close>: the new head and what is appended.\<close>

definition rdf_list_step :: "('h, 'l) trie_api \<Rightarrow> 'h \<Rightarrow> 'l node \<Rightarrow> 'l node \<Rightarrow> exn + 'l node \<times> 'l node" where
  "rdf_list_step api h list head =
     bind_res (get_trie (slice api h [Some list, Some rdf_first, None])) (\<lambda>element.
       if length (entries api element) > 1
       then Inl (RuntimeError (''Invalid RDF seq. Multiple first elements for list node {}'' @ node_to_string api head))
       else if entries api element = []
       then Inl (RuntimeError (''Invalid RDF seq. No first elements for list node {}'' @ node_to_string api head))
       else
         (let x = hd (hd (entries api element)) in
          bind_res (get_trie (slice api h [Some list, Some rdf_rest, None])) (\<lambda>rest.
            if length (entries api rest) > 1
            then Inl (RuntimeError (''Invalid RDF seq. Multiple rest elements for list node {}'' @ node_to_string api head))
            else if length (entries api rest) = 1 then Inr (x, x)
            else Inr (rdf_nil, x))))"

partial_function (option) rdf_list_loop ::
  "('h, 'l) trie_api \<Rightarrow> 'h \<Rightarrow> 'l node \<Rightarrow> 'l node \<Rightarrow> 'l node list \<Rightarrow> (exn + 'l node list) option" where
  "rdf_list_loop api h list head node_vector =
     (if head = rdf_nil then Some (Inr node_vector)
      else
        (case rdf_list_step api h list head of
           Inl e \<Rightarrow> Some (Inl e)
         | Inr (head', x) \<Rightarrow> rdf_list_loop api h list head' (node_vector @ [x])))"

definition get_rdf_list :: "('h, 'l) trie_api \<Rightarrow> 'h \<Rightarrow> 'l node \<Rightarrow> (exn + 'l node list) option" where
  "get_rdf_list api h list = rdf_list_loop api h list list []"

subsection \<open>Queries\<close>

definition generate_operand :: "('h, 'l) trie_api \<Rightarrow> 'h \<Rightarrow> 'l slice_key \<Rightarrow> exn + 'h" where
  "generate_operand api h slice_key =
     (let slice_result = slice api h slice_key in
      if get_fixed_depth slice_key = 3
      then bind_res (get_bool slice_result) (\<lambda>entry_exists.
             Inr (if entry_exists then set_entry api (empty_scalar api) [] True else empty_scalar api))
      else get_trie slice_result)"

definition generate_operands :: "('h, 'l) trie_api \<Rightarrow> 'h \<Rightarrow> 'l slice_key list \<Rightarrow> exn + 'h list" where
  "generate_operands api h slice_keys =
     mfold (\<lambda>key operands. map_res (\<lambda>x. operands @ [x]) (generate_operand api h key)) slice_keys []"

definition proj_vars_id :: "'l sparql_query \<Rightarrow> exn + uint8 list" where
  "proj_vars_id q =
     mfold (\<lambda>v ids. case var_to_id q v of None \<Rightarrow> Inl OutOfRange | Some i \<Rightarrow> Inr (ids @ [i])) (projected_variables q) []"

text \<open>
  With DISTINCT one entry object is reused: its key is overwritten from the front, its value is the
  default.
\<close>

definition copy_key :: "'n list \<Rightarrow> 'n list \<Rightarrow> 'n list" where
  "copy_key src dst = src @ drop (length src) dst"

fun distinct_entries :: "size_t \<Rightarrow> 'n list \<Rightarrow> 'n list list \<Rightarrow> ('n list \<times> size_t) list" where
  "distinct_entries value key [] = []"
| "distinct_entries value key (k # ks) =
     (let key' = copy_key k key in (key', value) # distinct_entries value key' ks)"

definition eval_select :: "('h, 'l) trie_api \<Rightarrow> 'h \<Rightarrow> 'l sparql_query \<Rightarrow> time \<Rightarrow> 'l generator" where
  "eval_select api h q endtime =
     (case bind_res (generate_operands api h (get_slice_keys q)) (\<lambda>ops. map_res (Pair ops) (proj_vars_id q)) of
        Inl e \<Rightarrow> ([], Some e)
      | Inr (ops, ids) \<Rightarrow>
          if distinct_flag q
          then (case evaluate_distinct api (odg q) ops ids endtime of
                  (keys, e) \<Rightarrow>
                    (distinct_entries (default_entry_value api) (replicate (length (projected_variables q)) NullNode) keys, e))
          else evaluate api (odg q) ops ids endtime)"

definition eval_ask :: "('h, 'l) trie_api \<Rightarrow> 'h \<Rightarrow> 'l sparql_query \<Rightarrow> time \<Rightarrow> exn + bool" where
  "eval_ask api h q endtime =
     bind_res (generate_operands api h (get_slice_keys q)) (\<lambda>ops. evaluate_ask api (odg q) ops [] endtime)"

definition count_solutions :: "('h, 'l) trie_api \<Rightarrow> 'h \<Rightarrow> 'l sparql_query \<Rightarrow> time \<Rightarrow> exn + size_t" where
  "count_solutions api h q endtime =
     (if length (triple_patterns q) = 1
      then
        (let slice_key = get_slice_keys q ! 0 in
         if get_fixed_depth slice_key = 3
         then map_res (\<lambda>b. if b then 1 else 0) (get_bool (slice api h slice_key))
         else map_res (\<lambda>t. of_nat (length (entries api t))) (get_trie (slice api h slice_key)))
      else
        (case eval_select api h q endtime of
           (es, Some e) \<Rightarrow> Inl e
         | (es, None) \<Rightarrow> Inr (fold (\<lambda>e count. count + snd e) es 0)))"

definition store_contains :: "('h, 'l) trie_api \<Rightarrow> 'h \<Rightarrow> 'l triple_pattern \<Rightarrow> exn + bool" where
  "store_contains api h t = get_bool (slice api h (map Some (nodes_of t)))"

definition triple_count :: "('h, 'l) trie_api \<Rightarrow> 'h \<Rightarrow> nat" where
  "triple_count api h = length (entries api h)"

subsection \<open>Loading\<close>

text \<open>
  The parser yields quads and errors; \<open>load_ttl\<close> turns them into calls of the bulk inserter and of the
  error callback. A file that cannot be opened is \<open>None\<close>.
\<close>

datatype ('l, 'e) load_call =
    BulkAdd "'l triple_pattern"
  | ErrorCallback 'e

fun load_item :: "'e + 'l triple_pattern \<times> 'l node \<Rightarrow> ('l, 'e) load_call" where
  "load_item (Inr (t, graph)) = BulkAdd t"
| "load_item (Inl e) = ErrorCallback e"

definition load_ttl ::
  "(string \<Rightarrow> ('e + 'l triple_pattern \<times> 'l node) list option) \<Rightarrow> string \<Rightarrow> exn + ('l, 'e) load_call list" where
  "load_ttl read_file file_path =
     (case read_file file_path of
        None \<Rightarrow> Inl (RuntimeError (''unable to open provided file '' @ file_path))
      | Some items \<Rightarrow> Inr (map load_item items))"

end
