(* ===== verification/Store_Evaluation.thy ===== *)
theory Store_Evaluation
  imports Triple_Store
begin

text \<open>
  What the triple store guarantees: the operands of a query are the relations of its triple patterns, a
  parsed query is handed to the evaluator consistently, counting a single pattern counts its triples, and
  RDF lists are recognised; and that \<open>get_rdf_list\<close> does not return on proper lists.
\<close>

subsection \<open>A concrete hypertrie\<close>

definition list_trie :: "(string node list list, string) trie_api" where
  "list_trie = \<lparr>entries = remdups,
     slice = (\<lambda>h key. if None \<in> set key then Inr (map (open_part key) (filter (key_matches key) h))
                      else Inl (map the key \<in> set h)),
     empty_scalar = [], set_entry = (\<lambda>h key b. if b then [key] else []),
     evaluate = (\<lambda>_ _ _ _. ([], None)), evaluate_distinct = (\<lambda>_ _ _ _. ([], None)),
     evaluate_ask = (\<lambda>_ _ _ _. Inr True), default_entry_value = 1, node_to_string = (\<lambda>_. '''')\<rparr>"

lemma list_trie_contract: "trie_contract list_trie"
  by (auto simp: trie_contract_def list_trie_def)

subsection \<open>Operands\<close>

lemma trie_contractD:
  assumes "trie_contract api"
  shows "None \<notin> set key \<Longrightarrow> slice api h key = Inl (map the key \<in> set (entries api h))"
    and "None \<in> set key \<Longrightarrow> \<exists>h'. slice api h key = Inr h' \<and>
              set (entries api h') = open_part key ` {e \<in> set (entries api h). key_matches key e}"
    and "distinct (entries api h)"
    and "entries api (empty_scalar api) = []"
    and "entries api (set_entry api (empty_scalar api) [] True) = [ [] ]"
  using assms by (simp_all add: trie_contract_def)

lemma key_matches_fixed: "None \<notin> set key \<Longrightarrow> key_matches key e \<longleftrightarrow> e = map the key"
  by (induction key e rule: key_matches.induct) auto

lemma open_part_fixed: "None \<notin> set key \<Longrightarrow> open_part key e = []"
  by (induction key e rule: open_part.induct) auto

lemma fixed_depth_full: "length key = 3 \<Longrightarrow> get_fixed_depth key = 3 \<longleftrightarrow> None \<notin> set key"
  by (auto simp: get_fixed_depth_def numeral_3_eq_3 length_Suc_conv split: if_splits) (metis option.exhaust)

lemma generate_operand_denotes:
  assumes "trie_contract api" and "length key = 3"
  shows "\<exists>x. generate_operand api h key = Inr x \<and>
             set (entries api x) = open_part key ` {e \<in> set (entries api h). key_matches key e}"
proof (cases "None \<in> set key")
  case True
  then show ?thesis
    using trie_contractD(2) [OF assms(1) True, of h] assms(2)
    by (auto simp: generate_operand_def Let_def fixed_depth_full get_trie_def)
next
  case False
  then show ?thesis
    using trie_contractD(1,4,5) [OF assms(1)] assms(2)
    by (auto simp: generate_operand_def Let_def fixed_depth_full get_bool_def key_matches_fixed open_part_fixed)
qed

lemma generate_operands_map:
  assumes "\<And>k. k \<in> set keys \<Longrightarrow> generate_operand api h k = Inr (f k)"
  shows "generate_operands api h keys = Inr (map f keys)"
proof -
  have "mfold (\<lambda>key operands. map_res (\<lambda>x. operands @ [x]) (generate_operand api h key)) keys ops = Inr (ops @ map f keys)" for ops
    using assms by (induction keys arbitrary: ops) auto
  then show ?thesis by (simp add: generate_operands_def)
qed

lemma operands_denote:
  assumes "trie_contract api"
  shows "\<exists>ops. generate_operands api h (get_slice_keys q) = Inr ops \<and> length ops = length (triple_patterns q) \<and>
           (\<forall>i < length ops. set (entries api (ops ! i)) =
              open_part (get_slice_keys q ! i) ` {e \<in> set (entries api h). key_matches (get_slice_keys q ! i) e})"
proof -
  have "length k = 3" if "k \<in> set (get_slice_keys q)" for k
    using that by (auto simp: get_slice_keys_def)
  then obtain f where f: "generate_operand api h k = Inr (f k)"
    "set (entries api (f k)) = open_part k ` {e \<in> set (entries api h). key_matches k e}"
    if "k \<in> set (get_slice_keys q)" for k
    using generate_operand_denotes [OF assms, of _ h] by metis
  have "generate_operands api h (get_slice_keys q) = Inr (map f (get_slice_keys q))"
    by (rule generate_operands_map) (rule f(1))
  then show ?thesis using f(2) by (auto simp: get_slice_keys_def)
qed

text \<open>
  C24. The operands of a query are the relations its triple patterns denote: one operand per pattern, in
  order, whose entries are the open positions of the stored triples that agree with the pattern's
  constants; a pattern without variables becomes the truth value of the triple. No lookup fails.
\<close>

theorem operands_denote_patterns:
  assumes "trie_contract api"
  shows "\<exists>ops. generate_operands api h (get_slice_keys q) = Inr ops \<and> length ops = length (triple_patterns q) \<and>
           (\<forall>i < length ops. set (entries api (ops ! i)) =
              open_part (get_slice_keys q ! i) ` {e \<in> set (entries api h). key_matches (get_slice_keys q ! i) e})"
  by (rule operands_denote [OF assms])

theorem operands_denote_patterns_witness:
  "\<exists>ops. generate_operands list_trie [] (get_slice_keys sample_result) = Inr ops \<and> length ops = 2"
  using operands_denote_patterns [OF list_trie_contract, of "[]" sample_result]
  by (auto simp: sample_result_def Let_def)

subsection \<open>Evaluation of parsed queries\<close>

lemma proj_vars_id_total:
  assumes "\<And>v. v \<in> set (projected_variables q) \<Longrightarrow> var_to_id q v \<noteq> None"
  shows "proj_vars_id q = Inr (map (\<lambda>v. the (var_to_id q v)) (projected_variables q))"
proof -
  have "mfold (\<lambda>v ids. case var_to_id q v of None \<Rightarrow> Inl OutOfRange | Some i \<Rightarrow> Inr (ids @ [i])) vs ids =
      Inr (ids @ map (\<lambda>v. the (var_to_id q v)) vs)" if "\<And>v. v \<in> set vs \<Longrightarrow> var_to_id q v \<noteq> None" for vs ids
    using that by (induction vs arbitrary: ids) (auto split: option.splits)
  then show ?thesis using assms by (simp add: proj_vars_id_def)
qed

lemma distinct_entries_exact:
  "length key = n \<Longrightarrow> (\<And>k. k \<in> set ks \<Longrightarrow> length k = n) \<Longrightarrow> distinct_entries value key ks = map (\<lambda>k. (k, value)) ks"
  by (induction ks arbitrary: key) (auto simp: copy_key_def)

lemma parsed_query_covered:
  assumes "sparql_parse papi ctx = Inr q"
  shows "\<And>v. v \<in> set (projected_variables q) \<Longrightarrow> var_to_id q v \<noteq> None"
    and "length (operands (odg q)) = length (triple_patterns q)"
  using parse_covered [OF assms] by (auto simp: query_covered_def)

lemma eval_select_calls:
  assumes "sparql_parse papi ctx = Inr q" and "trie_contract api"
  obtains ops where "generate_operands api h (get_slice_keys q) = Inr ops"
    and "length ops = length (triple_patterns q)" and "length ops = length (operands (odg q))"
    and "eval_select api h q endtime =
           (let ids = map (\<lambda>v. the (var_to_id q v)) (projected_variables q) in
            if distinct_flag q
            then map_prod (distinct_entries (default_entry_value api) (replicate (length ids) NullNode)) id
                   (evaluate_distinct api (odg q) ops ids endtime)
            else evaluate api (odg q) ops ids endtime)"
proof -
  obtain ops where ops: "generate_operands api h (get_slice_keys q) = Inr ops" "length ops = length (triple_patterns q)"
    using operands_denote [OF assms(2), of h q] by blast
  moreover have "proj_vars_id q = Inr (map (\<lambda>v. the (var_to_id q v)) (projected_variables q))"
    by (rule proj_vars_id_total) (rule parsed_query_covered(1) [OF assms(1)])
  ultimately show thesis
    using parsed_query_covered(2) [OF assms(1)]
    by (intro that [OF ops]) (simp_all add: eval_select_def Let_def map_prod_def split: prod.splits)
qed

text \<open>
  The evaluation of a parsed query never fails on a lookup of its own: the evaluator is called with
  exactly one operand per node of the dependency graph and with the ids of the projected variables; with
  DISTINCT, the entries yielded are the evaluator's, each with the default value.
\<close>

lemma eval_select_parsed:
  assumes "sparql_parse papi ctx = Inr q" and "trie_contract api"
    and "\<And>ops ids k. k \<in> set (fst (evaluate_distinct api (odg q) ops ids endtime)) \<Longrightarrow> length k = length ids"
  shows "\<exists>ops. generate_operands api h (get_slice_keys q) = Inr ops \<and> length ops = length (operands (odg q)) \<and>
           eval_select api h q endtime =
             (let ids = map (\<lambda>v. the (var_to_id q v)) (projected_variables q) in
              if distinct_flag q
              then map_prod (map (\<lambda>k. (k, default_entry_value api))) id (evaluate_distinct api (odg q) ops ids endtime)
              else evaluate api (odg q) ops ids endtime)"
proof -
  let ?ids = "map (\<lambda>v. the (var_to_id q v)) (projected_variables q)"
  obtain ops where ops: "generate_operands api h (get_slice_keys q) = Inr ops" "length ops = length (operands (odg q))"
    "eval_select api h q endtime =
       (if distinct_flag q
        then map_prod (distinct_entries (default_entry_value api) (replicate (length ?ids) NullNode)) id
               (evaluate_distinct api (odg q) ops ?ids endtime)
        else evaluate api (odg q) ops ?ids endtime)"
    using eval_select_calls [OF assms(1,2), of h endtime] unfolding Let_def by blast
  have "distinct_entries (default_entry_value api) (replicate (length ?ids) NullNode)
      (fst (evaluate_distinct api (odg q) ops ?ids endtime)) =
      map (\<lambda>k. (k, default_entry_value api)) (fst (evaluate_distinct api (odg q) ops ?ids endtime))"
    using assms(3) by (intro distinct_entries_exact) fastforce+
  then show ?thesis
    using ops by (simp add: map_prod_def Let_def split_def)
qed

lemma eval_select_parsed_example:
  "eval_select list_trie [] sample_result 0 = ([], None)"
proof -
  have "\<exists>ops. generate_operands list_trie [] (get_slice_keys sample_result) = Inr ops \<and> length ops = length (operands (odg sample_result)) \<and>
      eval_select list_trie [] sample_result 0 =
        (let ids = map (\<lambda>v. the (var_to_id sample_result v)) (projected_variables sample_result) in
         if distinct_flag sample_result
         then map_prod (map (\<lambda>k. (k, default_entry_value list_trie))) id (evaluate_distinct list_trie (odg sample_result) ops ids 0)
         else evaluate list_trie (odg sample_result) ops ids 0)"
    by (rule eval_select_parsed [OF sample_parse list_trie_contract]) (simp add: list_trie_def)
  then show ?thesis by (auto simp: sample_result_def list_trie_def Let_def)
qed

subsection \<open>Counting\<close>

lemma open_part_inj: "key_matches key a \<Longrightarrow> key_matches key b \<Longrightarrow> open_part key a = open_part key b \<Longrightarrow> a = b"
proof (induction key arbitrary: a b)
  case Nil
  then show ?case by (cases a; cases b) simp_all
next
  case (Cons k key)
  then show ?case by (cases k; cases a; cases b) auto
qed

text \<open>
  C34. The count of a query with a single triple pattern is the number of stored triples that agree with
  the pattern's constants. Projection, DISTINCT, and whether a variable occurs twice in the pattern have
  no influence on it.
\<close>

theorem count_single_pattern:
  assumes "trie_contract api" and "triple_patterns q = [tp]"
  shows "count_solutions api h q endtime =
           Inr (of_nat (card {e \<in> set (entries api h). key_matches (get_slice_keys q ! 0) e}))"
proof -
  let ?key = "get_slice_keys q ! 0"
  let ?M = "{e \<in> set (entries api h). key_matches ?key e}"
  have len: "length ?key = 3" "length (triple_patterns q) = 1"
    using assms(2) by (cases tp; simp add: get_slice_keys_def)+
  show ?thesis
  proof (cases "None \<in> set ?key")
    case True
    then obtain h' where h': "slice api h ?key = Inr h'" "set (entries api h') = open_part ?key ` ?M"
      using trie_contractD(2) [OF assms(1)] by blast
    have "length (entries api h') = card (open_part ?key ` ?M)"
      using h'(2) trie_contractD(3) [OF assms(1), of h'] by (metis distinct_card)
    also have "\<dots> = card ?M"
      by (rule card_image) (auto simp: inj_on_def intro: open_part_inj)
    finally show ?thesis
      using True len h'(1) by (simp add: count_solutions_def Let_def fixed_depth_full get_trie_def)
  next
    case False
    then have "?M = (if map the ?key \<in> set (entries api h) then {map the ?key} else {})"
      by (auto simp: key_matches_fixed)
    then have "of_nat (card ?M) = (if map the ?key \<in> set (entries api h) then 1 else 0 :: size_t)" by simp
    then show ?thesis
      using False len trie_contractD(1) [OF assms(1) False, of h]
      by (simp add: count_solutions_def Let_def fixed_depth_full get_bool_def)
  qed
qed

text \<open>The pattern \<open>?x p ?x\<close> on the single triple \<open>a p b\<close>: no solution, but a count of one.\<close>

definition loop_query :: "string sparql_query" where
  "loop_query = (let x = VarNode (Variable ''x'' False) in new_query\<lparr>triple_patterns := [(x, IRI ''p'', x)]\<rparr>)"

theorem count_single_pattern_witness:
  "count_solutions list_trie [ [IRI ''a'', IRI ''p'', IRI ''b''] ] loop_query 0 = Inr 1"
proof -
  have "{e \<in> set (entries list_trie [ [IRI ''a'', IRI ''p'', IRI ''b''] ]). key_matches (get_slice_keys loop_query ! 0) e} =
      {[IRI ''a'', IRI ''p'', IRI ''b'']}"
    by (auto simp: list_trie_def loop_query_def get_slice_keys_def Let_def)
  moreover have "triple_patterns loop_query = [(VarNode (Variable ''x'' False), IRI ''p'', VarNode (Variable ''x'' False))]"
    by (simp add: loop_query_def Let_def)
  ultimately show ?thesis
    using count_single_pattern [OF list_trie_contract, of loop_query _ "[ [IRI ''a'', IRI ''p'', IRI ''b''] ]" 0] by simp
qed

subsection \<open>RDF lists\<close>

lemma slice_entries:
  assumes "trie_contract api" and "None \<in> set key"
  obtains h' where "slice api h key = Inr h'"
    and "set (entries api h') = open_part key ` {e \<in> set (entries api h). key_matches key e}"
    and "length (entries api h') = card (open_part key ` {e \<in> set (entries api h). key_matches key e})"
  using trie_contractD(2) [OF assms, of h] trie_contractD(3) [OF assms(1)] by (metis distinct_card)

text \<open>The values a subject has for a property.\<close>

definition values_of :: "('h, 'l) trie_api \<Rightarrow> 'h \<Rightarrow> 'l node \<Rightarrow> 'l node \<Rightarrow> 'l node set" where
  "values_of api h s p = {x. [s, p, x] \<in> set (entries api h)}"

definition only_triples :: "('h, 'l) trie_api \<Rightarrow> 'h \<Rightarrow> bool" where
  "only_triples api h \<longleftrightarrow> (\<forall>e \<in> set (entries api h). length e = 3)"

lemma triples_Collect:
  assumes "only_triples api h"
  shows "{e \<in> set (entries api h). key_matches [Some s, None, None] e} =
             (\<lambda>(p, x). [s, p, x]) ` {(p, x). x \<in> values_of api h s p}"
    and "{e \<in> set (entries api h). key_matches [Some s, Some p, None] e} = (\<lambda>x. [s, p, x]) ` values_of api h s p"
  using assms by (force simp: only_triples_def values_of_def numeral_3_eq_3 length_Suc_conv)+

lemma slice_values:
  assumes "trie_contract api" and "only_triples api h"
  obtains h' where "slice api h [Some s, Some p, None] = Inr h'"
    and "set (entries api h') = (\<lambda>x. [x]) ` values_of api h s p"
    and "length (entries api h') = card (values_of api h s p)"
proof -
  obtain h' where h': "slice api h [Some s, Some p, None] = Inr h'"
    "set (entries api h') = open_part [Some s, Some p, None] ` (\<lambda>x. [s, p, x]) ` values_of api h s p"
    "length (entries api h') = card (open_part [Some s, Some p, None] ` (\<lambda>x. [s, p, x]) ` values_of api h s p)"
    by (rule slice_entries [OF assms(1), of "[Some s, Some p, None]" h]) (auto simp: triples_Collect [OF assms(2)])
  moreover have "open_part [Some s, Some p, None] ` (\<lambda>x. [s, p, x]) ` values_of api h s p = (\<lambda>x. [x]) ` values_of api h s p"
    by (auto simp: image_image)
  moreover have "card ((\<lambda>x. [x]) ` values_of api h s p) = card (values_of api h s p)"
    by (rule card_image) (simp add: inj_on_def)
  ultimately show thesis using that by simp
qed

lemma slice_properties:
  assumes "trie_contract api" and "only_triples api h"
  obtains po where "slice api h [Some s, None, None] = Inr po"
    and "\<And>p x. [p, x] \<in> set (entries api po) \<longleftrightarrow> x \<in> values_of api h s p"
    and "\<And>e. e \<in> set (entries api po) \<Longrightarrow> length e = 2"
proof -
  obtain po where po: "slice api h [Some s, None, None] = Inr po"
    "set (entries api po) = open_part [Some s, None, None] ` (\<lambda>(p, x). [s, p, x]) ` {(p, x). x \<in> values_of api h s p}"
    by (rule slice_entries [OF assms(1), of "[Some s, None, None]" h]) (auto simp: triples_Collect [OF assms(2)])
  then have "set (entries api po) = (\<lambda>(p, x). [p, x]) ` {(p, x). x \<in> values_of api h s p}"
    by (simp add: image_image split_def)
  then have "[p, x] \<in> set (entries api po) \<longleftrightarrow> x \<in> values_of api h s p" "e \<in> set (entries api po) \<Longrightarrow> length e = 2"
    for p x e
    by auto
  then show thesis by (rule that [OF po(1)])
qed

lemma slice_pair:
  assumes "trie_contract api" and "\<And>e. e \<in> set (entries api po) \<Longrightarrow> length e = 2"
  obtains h' where "slice api po [Some p, None] = Inr h'" and "length (entries api h') = card {x. [p, x] \<in> set (entries api po)}"
proof -
  obtain h' where h': "slice api po [Some p, None] = Inr h'"
    "length (entries api h') = card (open_part [Some p, None] ` {e \<in> set (entries api po). key_matches [Some p, None] e})"
    by (rule slice_entries [OF assms(1), of "[Some p, None]" po]) auto
  have "{e \<in> set (entries api po). key_matches [Some p, None] e} = (\<lambda>x. [p, x]) ` {x. [p, x] \<in> set (entries api po)}"
    using assms(2) by (force simp: numeral_2_eq_2 length_Suc_conv)
  then have "open_part [Some p, None] ` {e \<in> set (entries api po). key_matches [Some p, None] e} =
      (\<lambda>x. [x]) ` {x. [p, x] \<in> set (entries api po)}"
    by (simp add: image_image)
  moreover have "card ((\<lambda>x. [x]) ` {x. [p, x] \<in> set (entries api po)}) = card {x. [p, x] \<in> set (entries api po)}"
    by (rule card_image) (simp add: inj_on_def)
  ultimately show thesis using that h' by simp
qed

text \<open>
  \<open>is_rdf_list\<close> decides exactly the stricter notion of its documentation: the node is \<open>rdf:nil\<close>, or
  has the properties \<open>rdf:first\<close> and \<open>rdf:rest\<close>, each with one value.
\<close>

lemma is_rdf_list_spec:
  assumes "trie_contract api" and "only_triples api h"
  shows "is_rdf_list api h n =
           Inr (n = rdf_nil \<or> card (values_of api h n rdf_first) = 1 \<and> card (values_of api h n rdf_rest) = 1)"
proof -
  obtain po where po: "slice api h [Some n, None, None] = Inr po"
    "\<And>p x. [p, x] \<in> set (entries api po) \<longleftrightarrow> x \<in> values_of api h n p"
    "\<And>e. e \<in> set (entries api po) \<Longrightarrow> length e = 2"
    by (rule slice_properties [OF assms, of n]) (rule that)
  obtain hf where hf: "slice api po [Some rdf_first, None] = Inr hf"
    "length (entries api hf) = card (values_of api h n rdf_first)"
    by (rule slice_pair [OF assms(1), where po = po and p = rdf_first]) (erule po(3), rule that, assumption, simp add: po(2))
  obtain hr where hr: "slice api po [Some rdf_rest, None] = Inr hr"
    "length (entries api hr) = card (values_of api h n rdf_rest)"
    by (rule slice_pair [OF assms(1), where po = po and p = rdf_rest]) (erule po(3), rule that, assumption, simp add: po(2))
  have "values_of api h n rdf_first = {}" if "entries api po = []"
    using po(2) that by (metis empty_iff empty_set equals0I)
  then show ?thesis
    using po(1) hf hr by (auto simp: is_rdf_list_def get_trie_def)
qed

definition sample_list :: "string node list list" where
  "sample_list = [ [IRI ''l'', rdf_first, IRI ''a''], [IRI ''l'', rdf_rest, IRI ''m''],
                   [IRI ''m'', rdf_first, IRI ''b''], [IRI ''m'', rdf_rest, rdf_nil] ]"

lemma sample_list_triples: "only_triples list_trie sample_list"
  by (simp add: only_triples_def list_trie_def sample_list_def)

lemma sample_list_values:
  "values_of list_trie sample_list (IRI ''l'') rdf_first = {IRI ''a''}"
  "values_of list_trie sample_list (IRI ''l'') rdf_rest = {IRI ''m''}"
  by (auto simp: values_of_def list_trie_def sample_list_def rdf_first_def rdf_rest_def rdf_nil_def)

lemma is_rdf_list_spec_example: "is_rdf_list list_trie sample_list (IRI ''l'') = Inr True"
  using is_rdf_list_spec [OF list_trie_contract sample_list_triples, of "IRI ''l''"]
  by (simp add: sample_list_values)

lemma rdf_list_step_proper:
  assumes "trie_contract api" and "only_triples api h"
    and "values_of api h n rdf_first = {x}" and "values_of api h n rdf_rest = {y}"
  shows "rdf_list_step api h n head = Inr (x, x)"
proof -
  obtain hf where hf: "slice api h [Some n, Some rdf_first, None] = Inr hf"
    "set (entries api hf) = (\<lambda>x. [x]) ` values_of api h n rdf_first"
    "length (entries api hf) = card (values_of api h n rdf_first)"
    by (rule slice_values [OF assms(1,2), of n rdf_first])
  obtain hr where hr: "slice api h [Some n, Some rdf_rest, None] = Inr hr"
    "length (entries api hr) = card (values_of api h n rdf_rest)"
    by (rule slice_values [OF assms(1,2), of n rdf_rest])
  have "entries api hf = [ [x] ]"
    using hf(2,3) assms(3) by (auto simp: length_Suc_conv)
  then show ?thesis
    using hf(1) hr assms(4) by (simp add: rdf_list_step_def get_trie_def)
qed

text \<open>A loop whose every pass leads to the same head, not \<open>rdf:nil\<close>, never returns.\<close>

lemma rdf_list_loop_diverges:
  assumes "\<And>head. rdf_list_step api h n head = Inr (x, x)" and "x \<noteq> rdf_nil" and "m \<noteq> rdf_nil"
  shows "rdf_list_loop api h n m acc = None"
proof -
  have "api = api \<and> h = h \<and> n = n \<longrightarrow> m = rdf_nil" if "rdf_list_loop api h n m acc = Some r" for m acc r
  proof (rule rdf_list_loop.raw_induct [where P = "\<lambda>a b c d e r. a = api \<and> b = h \<and> c = n \<longrightarrow> d = rdf_nil", OF _ that])
    fix loop a b c head acc r
    assume IH: "\<And>a b c d e y. loop a b c d e = Some y \<Longrightarrow> a = api \<and> b = h \<and> c = n \<longrightarrow> d = rdf_nil"
      and body: "(if head = rdf_nil then Some (Inr acc) else case rdf_list_step a b c head of Inl e \<Rightarrow> Some (Inl e)
          | Inr (head', x) \<Rightarrow> loop a b c head' (acc @ [x])) = Some r"
    show "a = api \<and> b = h \<and> c = n \<longrightarrow> head = rdf_nil"
    proof (rule impI, rule ccontr)
      assume eq: "a = api \<and> b = h \<and> c = n" and ne: "head \<noteq> rdf_nil"
      with body assms(1) have "loop api h n x (acc @ [x]) = Some r" by simp
      from IH [OF this] assms(2) show False by simp
    qed
  qed
  then show ?thesis using assms(3) by (cases "rdf_list_loop api h n m acc") auto
qed

text \<open>
  C33. \<open>get_rdf_list\<close> never returns on a proper list node whose first element is not \<open>rdf:nil\<close>: the loop
  looks up the first element of the start node again and again, and continues with that element instead
  of the rest.
\<close>

theorem get_rdf_list_diverges:
  assumes "trie_contract api" and "only_triples api h" and "n \<noteq> rdf_nil"
    and "values_of api h n rdf_first = {x}" and "values_of api h n rdf_rest = {y}" and "x \<noteq> rdf_nil"
  shows "get_rdf_list api h n = None"
  unfolding get_rdf_list_def
  by (rule rdf_list_loop_diverges [OF rdf_list_step_proper [OF assms(1,2,4,5)] assms(6,3)])

theorem get_rdf_list_diverges_witness: "get_rdf_list list_trie sample_list (IRI ''l'') = None"
  by (rule get_rdf_list_diverges [OF list_trie_contract sample_list_triples _ sample_list_values])
     (simp_all add: rdf_nil_def)

end
