(* ===== verification/Conjunctive_Answers.thy ===== *)
theory Conjunctive_Answers
  imports Union_Graph Store_Evaluation
begin

text \<open>
  What a conjunctive query answers, from its parse tree to its solutions: the parser, the slices of the
  RDF tensor and the evaluation together yield the solutions of SPARQL.

  \<^item> \<open>pattern_solutions\<close> is SPARQL's notion: the assignments of the variables that turn every triple
    pattern into a stored triple.
  \<^item> \<open>einsum_contract\<close> names what the code relies on from the evaluator, which is a library: on operands
    that are all joined to each other it computes their Einstein summation over the operand labels.
\<close>

subsection \<open>Solutions of triple patterns\<close>

fun instantiate :: "(variable \<rightharpoonup> 'l node) \<Rightarrow> 'l node \<Rightarrow> 'l node" where
  "instantiate \<mu> (VarNode v) = (case \<mu> v of None \<Rightarrow> VarNode v | Some n \<Rightarrow> n)"
| "instantiate \<mu> n = n"

definition patterns_vars :: "'l triple_pattern list \<Rightarrow> variable set" where
  "patterns_vars tps = (\<Union>tp \<in> set tps. set (pattern_vars tp))"

definition pattern_solutions :: "'l node list set \<Rightarrow> 'l triple_pattern list \<Rightarrow> (variable \<rightharpoonup> 'l node) set" where
  "pattern_solutions T tps =
     {\<mu>. dom \<mu> = patterns_vars tps \<and> (\<forall>tp \<in> set tps. map (instantiate \<mu>) (nodes_of tp) \<in> T)}"

text \<open>The row a solution contributes for a list of projected variables.\<close>

definition row_of :: "('k \<rightharpoonup> 'n) \<Rightarrow> 'k list \<Rightarrow> 'n list" where
  "row_of \<mu> vs = map (\<lambda>v. the (\<mu> v)) vs"

subsection \<open>Einstein summation\<close>

text \<open>An operand is its labels with the keys of its non-zero entries, which are 1.\<close>

type_synonym 'l operand = "uint8 list \<times> 'l node list set"

definition einsum_terms :: "'l operand list \<Rightarrow> (uint8 \<rightharpoonup> 'l node) set" where
  "einsum_terms ops =
     {\<sigma>. dom \<sigma> = (\<Union>(l, R) \<in> set ops. set l) \<and> (\<forall>(l, R) \<in> set ops. row_of \<sigma> l \<in> R)}"

definition multiplicity :: "('n list \<times> size_t) list \<Rightarrow> 'n list \<Rightarrow> size_t" where
  "multiplicity es k = sum_list (map snd (filter (\<lambda>e. fst e = k) es))"

definition einsum_contract :: "('h, 'l) trie_api \<Rightarrow> bool" where
  "einsum_contract api \<longleftrightarrow>
     (\<forall>ls ops ids endtime.
        ls \<noteq> [] \<longrightarrow> length ls \<le> 256 \<longrightarrow> length ops = length ls \<longrightarrow> set ids \<subseteq> set (concat ls) \<longrightarrow>
        (\<forall>i < length ls. \<forall>e \<in> set (entries api (ops ! i)). length e = length (ls ! i)) \<longrightarrow>
        (let terms = einsum_terms (zip ls (map (\<lambda>h. set (entries api h)) ops)) in
         (\<forall>es. evaluate api (join_graph ls) ops ids endtime = (es, None) \<longrightarrow>
            (\<forall>k. multiplicity es k = of_nat (card {\<sigma> \<in> terms. row_of \<sigma> ids = k}))) \<and>
         (\<forall>ks. evaluate_distinct api (join_graph ls) ops ids endtime = (ks, None) \<longrightarrow>
            distinct ks \<and> set ks = (\<lambda>\<sigma>. row_of \<sigma> ids) ` terms)))"

subsection \<open>Solutions as terms of the summation\<close>

lemma slice_instance:
  assumes "\<And>v. v \<in> set (node_vars ns) \<Longrightarrow> \<mu> v \<noteq> None"
  shows "key_matches (map (\<lambda>n. if is_variable n then None else Some n) ns) e \<and>
         open_part (map (\<lambda>n. if is_variable n then None else Some n) ns) e = row_of \<mu> (node_vars ns) \<longleftrightarrow>
         e = map (instantiate \<mu>) ns"
  using assms
proof (induction ns arbitrary: e)
  case Nil
  show ?case by (cases e) (simp_all add: row_of_def)
next
  case (Cons n ns)
  note IH = Cons.IH [of "tl e"]
  show ?case
  proof (cases n)
    case (VarNode v)
    with Cons.prems obtain x where "\<mu> v = Some x" by fastforce
    with VarNode IH Cons.prems show ?thesis by (cases e) (auto simp: row_of_def)
  qed (use IH Cons.prems in \<open>cases e; auto simp: row_of_def\<close>)+
qed

text \<open>The operand of a triple pattern: its open positions, under the ids \<open>m\<close> of its variables.\<close>

definition pattern_operand :: "(variable \<Rightarrow> uint8) \<Rightarrow> 'l node list set \<Rightarrow> 'l triple_pattern \<Rightarrow> 'l operand" where
  "pattern_operand m T tp =
     (let key = map (\<lambda>n. if is_variable n then None else Some n) (nodes_of tp)
      in (map m (pattern_vars tp), open_part key ` {e \<in> T. key_matches key e}))"

lemma instance_iff_row:
  assumes "set (pattern_vars tp) \<subseteq> dom \<mu>"
  shows "map (instantiate \<mu>) (nodes_of tp) \<in> T \<longleftrightarrow> row_of \<mu> (pattern_vars tp) \<in> snd (pattern_operand m T tp)"
proof -
  note slice = slice_instance [of "nodes_of tp" \<mu>]
  have "\<mu> v \<noteq> None" if "v \<in> set (node_vars (nodes_of tp))" for v
    using assms that by (auto simp: pattern_vars_def)
  note inst = slice [OF this]
  let ?key = "map (\<lambda>n. if is_variable n then None else Some n) (nodes_of tp)"
  have img: "x \<in> f ` {e \<in> T. P e} \<longleftrightarrow> (\<exists>e \<in> T. P e \<and> f e = x)" for x P and f :: "_ \<Rightarrow> 'a node list"
    by blast
  have "row_of \<mu> (pattern_vars tp) \<in> snd (pattern_operand m T tp) \<longleftrightarrow>
      (\<exists>e \<in> T. key_matches ?key e \<and> open_part ?key e = row_of \<mu> (node_vars (nodes_of tp)))"
    by (simp add: pattern_operand_def pattern_vars_def Let_def img del: nodes_of.simps)
  also have "\<dots> \<longleftrightarrow> (\<exists>e \<in> T. e = map (instantiate \<mu>) (nodes_of tp))"
    by (rule bex_cong [OF refl]) (rule inst)
  finally show ?thesis by simp
qed

text \<open>An assignment of the ids as an assignment of the variables \<open>V\<close> they stand for.\<close>

definition name_ids :: "(variable \<Rightarrow> uint8) \<Rightarrow> variable set \<Rightarrow> (uint8 \<rightharpoonup> 'l node) \<Rightarrow> variable \<rightharpoonup> 'l node" where
  "name_ids m V \<sigma> = (\<lambda>v. \<sigma> (m v)) |` V"

lemma row_name_ids: "set vs \<subseteq> V \<Longrightarrow> row_of (name_ids m V \<sigma>) vs = row_of \<sigma> (map m vs)"
  by (auto simp: row_of_def name_ids_def restrict_map_def)

lemma terms_dom: "dom \<sigma> = (\<Union>(l, R) \<in> set (map (pattern_operand m T) tps). set l) \<longleftrightarrow> dom \<sigma> = m ` patterns_vars tps"
  by (auto simp: pattern_operand_def patterns_vars_def Let_def image_UN)

lemma terms_are_solutions:
  assumes "dom \<sigma> = m ` patterns_vars tps"
  shows "\<sigma> \<in> einsum_terms (map (pattern_operand m T) tps) \<longleftrightarrow>
         name_ids m (patterns_vars tps) \<sigma> \<in> pattern_solutions T tps"
proof -
  let ?\<mu> = "name_ids m (patterns_vars tps) \<sigma>"
  have dom: "dom ?\<mu> = patterns_vars tps"
    using assms by (auto simp: name_ids_def)
  have vars: "set (pattern_vars tp) \<subseteq> patterns_vars tps" if "tp \<in> set tps" for tp
    using that by (auto simp: patterns_vars_def)
  have "map (instantiate ?\<mu>) (nodes_of tp) \<in> T \<longleftrightarrow> row_of \<sigma> (fst (pattern_operand m T tp)) \<in> snd (pattern_operand m T tp)"
    if "tp \<in> set tps" for tp
    using instance_iff_row [of tp ?\<mu> T m] vars [OF that] dom row_name_ids [OF vars [OF that], of m \<sigma>]
    by (simp add: pattern_operand_def Let_def)
  then have "(\<forall>tp \<in> set tps. map (instantiate ?\<mu>) (nodes_of tp) \<in> T) \<longleftrightarrow>
      (\<forall>(l, R) \<in> set (map (pattern_operand m T) tps). row_of \<sigma> l \<in> R)"
    by (simp add: split_def)
  then show ?thesis
    using assms dom terms_dom [of \<sigma> m T tps] by (simp add: einsum_terms_def pattern_solutions_def)
qed

lemma name_ids_bij:
  assumes "inj_on m (patterns_vars tps)"
  shows "bij_betw (name_ids m (patterns_vars tps)) (einsum_terms (map (pattern_operand m T) tps)) (pattern_solutions T tps)"
    (is "bij_betw ?f ?A ?B")
proof (rule bij_betw_imageI)
  let ?V = "patterns_vars tps"
  have dom: "dom \<sigma> = m ` ?V" if "\<sigma> \<in> ?A" for \<sigma>
    using that terms_dom [of \<sigma> m T tps] by (simp add: einsum_terms_def)
  show "inj_on ?f ?A"
  proof (rule inj_onI)
    fix \<sigma> \<tau> assume A: "\<sigma> \<in> ?A" "\<tau> \<in> ?A" and eq: "?f \<sigma> = ?f \<tau>"
    have "\<sigma> (m v) = \<tau> (m v)" if "v \<in> ?V" for v
      using fun_cong [OF eq, of v] that by (simp add: name_ids_def)
    moreover have "\<sigma> i = None" "\<tau> i = None" if "i \<notin> m ` ?V" for i
      using that dom A by (metis domIff)+
    ultimately show "\<sigma> = \<tau>" by (intro ext) (metis imageE)
  qed
  show "?f ` ?A = ?B"
  proof (intro equalityI subsetI)
    fix \<mu> assume "\<mu> \<in> ?f ` ?A"
    then obtain \<sigma> where "\<sigma> \<in> ?A" "\<mu> = ?f \<sigma>" by blast
    then show "\<mu> \<in> ?B" using terms_are_solutions [OF dom, of \<sigma> T] by simp
  next
    fix \<mu> assume \<mu>: "\<mu> \<in> ?B"
    then have dom\<mu>: "dom \<mu> = ?V" by (simp add: pattern_solutions_def)
    let ?\<sigma> = "(\<lambda>i. \<mu> (the_inv_into ?V m i)) |` (m ` ?V)"
    have inv: "?\<sigma> (m v) = \<mu> v" if "v \<in> ?V" for v
      using the_inv_into_f_f [OF assms that] that by simp
    have "\<mu> v = None" if "v \<notin> ?V" for v using that dom\<mu> by (metis domIff)
    then have "?f ?\<sigma> v = \<mu> v" for v
      using inv [of v] by (cases "v \<in> ?V") (simp_all add: name_ids_def)
    then have "?f ?\<sigma> = \<mu>" by (rule ext)
    have "i \<in> dom ?\<sigma> \<longleftrightarrow> i \<in> m ` ?V" for i
    proof (cases "i \<in> m ` ?V")
      case True
      then obtain v where v: "i = m v" "v \<in> ?V" by blast
      then have "?\<sigma> i = \<mu> v" using inv by simp
      moreover have "\<mu> v \<noteq> None" using v(2) dom\<mu> by (metis domIff)
      ultimately show ?thesis using True by (simp add: domIff)
    qed simp
    then have "dom ?\<sigma> = m ` ?V" by blast
    then have "?\<sigma> \<in> ?A"
      using terms_are_solutions [of ?\<sigma> m tps T] \<mu> \<open>?f ?\<sigma> = \<mu>\<close> by simp
    from imageI [OF this, of ?f] show "\<mu> \<in> ?f ` ?A" by (simp only: \<open>?f ?\<sigma> = \<mu>\<close>)
  qed
qed

lemma count_terms:
  assumes "inj_on m (patterns_vars tps)" and "set vs \<subseteq> patterns_vars tps"
  shows "card {\<sigma> \<in> einsum_terms (map (pattern_operand m T) tps). row_of \<sigma> (map m vs) = k} =
         card {\<mu> \<in> pattern_solutions T tps. row_of \<mu> vs = k}"
    and "(\<lambda>\<sigma>. row_of \<sigma> (map m vs)) ` einsum_terms (map (pattern_operand m T) tps) =
         (\<lambda>\<mu>. row_of \<mu> vs) ` pattern_solutions T tps"
proof -
  note bij = name_ids_bij [OF assms(1), of T]
  note row = row_name_ids [OF assms(2), of m]
  have "bij_betw (name_ids m (patterns_vars tps))
      {\<sigma> \<in> einsum_terms (map (pattern_operand m T) tps). row_of \<sigma> (map m vs) = k}
      {\<mu> \<in> pattern_solutions T tps. row_of \<mu> vs = k}"
    by (rule bij_betw_subset [OF bij]) (auto simp: row dest: bij_betwE [OF bij, rule_format] simp flip: bij_betw_imp_surj_on [OF bij])
  then show "card {\<sigma> \<in> einsum_terms (map (pattern_operand m T) tps). row_of \<sigma> (map m vs) = k} =
      card {\<mu> \<in> pattern_solutions T tps. row_of \<mu> vs = k}"
    by (rule bij_betw_same_card)
  show "(\<lambda>\<sigma>. row_of \<sigma> (map m vs)) ` einsum_terms (map (pattern_operand m T) tps) =
      (\<lambda>\<mu>. row_of \<mu> vs) ` pattern_solutions T tps"
    using bij_betw_imp_surj_on [OF bij] by (simp add: row image_image flip: bij_betw_imp_surj_on [OF bij])
qed

subsection \<open>Answers\<close>

lemma pattern_operand_length:
  "e \<in> snd (pattern_operand m T tp) \<Longrightarrow> length e = length (pattern_vars tp)"
proof -
  have "length (open_part (map (\<lambda>n. if is_variable n then None else Some n) ns) e) = length (node_vars ns)"
    if "key_matches (map (\<lambda>n. if is_variable n then None else Some n) ns) e" for e and ns :: "'a node list"
    using that
  proof (induction ns arbitrary: e)
    case (Cons n ns)
    then show ?case by (cases e; cases n) auto
  qed simp
  then show "e \<in> snd (pattern_operand m T tp) \<Longrightarrow> length e = length (pattern_vars tp)"
    by (auto simp: pattern_operand_def pattern_vars_def Let_def simp del: nodes_of.simps)
qed

lemma parsed_operands:
  assumes "sparql_parse papi ctx = Inr q" and "trie_contract api"
    and "generate_operands api h (get_slice_keys q) = Inr ops" and "length ops = length (triple_patterns q)"
  shows "zip (operands (odg q)) (map (\<lambda>h. set (entries api h)) ops) =
         map (pattern_operand (\<lambda>v. the (var_to_id q v)) (set (entries api h))) (triple_patterns q)"
    and "i < length ops \<Longrightarrow> e \<in> set (entries api (ops ! i)) \<Longrightarrow> length e = length (operands (odg q) ! i)"
proof -
  let ?m = "\<lambda>v. the (var_to_id q v)"
  let ?T = "set (entries api h)"
  obtain ops' where "generate_operands api h (get_slice_keys q) = Inr ops'"
    "\<forall>i < length ops'. set (entries api (ops' ! i)) =
       open_part (get_slice_keys q ! i) ` {e \<in> ?T. key_matches (get_slice_keys q ! i) e}"
    using operands_denote [OF assms(2), of h q] by blast
  with assms(3,4) have rel: "set (entries api (ops ! i)) = snd (pattern_operand ?m ?T (triple_patterns q ! i))"
    if "i < length (triple_patterns q)" for i
    using that by (simp add: pattern_operand_def get_slice_keys_def Let_def)
  have labels: "operands (odg q) = map (\<lambda>tp. map ?m (pattern_vars tp)) (triple_patterns q)"
    using parse_covered [OF assms(1)] by (simp add: query_covered_def labels_def [abs_def])
  show "zip (operands (odg q)) (map (\<lambda>h. set (entries api h)) ops) =
      map (pattern_operand ?m ?T) (triple_patterns q)"
    using assms(4) by (intro nth_equalityI) (auto simp: labels rel prod_eq_iff pattern_operand_def Let_def)
  show "length e = length (operands (odg q) ! i)" if "i < length ops" "e \<in> set (entries api (ops ! i))"
    using that rel [of i] assms(4) pattern_operand_length [of e ?m ?T] by (simp add: labels)
qed

lemma multiplicity_distinct:
  "distinct ks \<Longrightarrow> multiplicity (map (\<lambda>k. (k, d)) ks) row = (if row \<in> set ks then d else 0)"
  by (induction ks) (auto simp: multiplicity_def)


subsection \<open>A concrete evaluator\<close>

text \<open>A nested-loop join: the terms of the summation, one operand at a time.\<close>

definition extend_by :: "(uint8 \<rightharpoonup> 'l node) \<Rightarrow> uint8 list \<Rightarrow> 'l node list \<Rightarrow> uint8 \<rightharpoonup> 'l node" where
  "extend_by \<sigma> l e = \<sigma> ++ map_of (zip l e)"

definition compatible :: "(uint8 \<rightharpoonup> 'l node) \<Rightarrow> uint8 list \<Rightarrow> 'l node list \<Rightarrow> bool" where
  "compatible \<sigma> l e \<longleftrightarrow>
     map (extend_by \<sigma> l e) l = map Some e \<and> list_all (\<lambda>i. \<sigma> i = None \<or> \<sigma> i = extend_by \<sigma> l e i) l"

fun joins :: "(uint8 list \<times> 'l node list list) list \<Rightarrow> (uint8 \<rightharpoonup> 'l node) list" where
  "joins [] = [Map.empty]"
| "joins ((l, es) # ops) =
     map (\<lambda>(\<sigma>, e). extend_by \<sigma> l e) (filter (\<lambda>(\<sigma>, e). compatible \<sigma> l e) (List.product (joins ops) es))"

definition join_trie :: "(string node list list, string) trie_api" where
  "join_trie = list_trie\<lparr>
     evaluate := (\<lambda>g ops ids t. (map (\<lambda>\<sigma>. (row_of \<sigma> ids, 1)) (joins (zip (operands g) (map remdups ops))), None)),
     evaluate_distinct :=
       (\<lambda>g ops ids t. (remdups (map (\<lambda>\<sigma>. row_of \<sigma> ids) (joins (zip (operands g) (map remdups ops)))), None))\<rparr>"

lemma extend_row:
  assumes "compatible \<sigma> l e"
  shows "row_of (extend_by \<sigma> l e) l = e"
proof -
  have "row_of (extend_by \<sigma> l e) l = map the (map (extend_by \<sigma> l e) l)" by (simp add: row_of_def)
  also have "\<dots> = e" using assms by (simp only: compatible_def) (simp add: comp_def)
  finally show ?thesis .
qed

lemma compatible_length: "compatible \<sigma> l e \<Longrightarrow> length l = length e"
  by (auto simp: compatible_def dest: map_eq_imp_length_eq)

lemma extend_dom: "compatible \<sigma> l e \<Longrightarrow> dom (extend_by \<sigma> l e) = set l \<union> dom \<sigma>"
  by (simp add: extend_by_def compatible_length)

lemma extend_restrict:
  assumes "compatible \<sigma> l e"
  shows "extend_by \<sigma> l e |` dom \<sigma> = \<sigma>"
proof
  fix i
  show "(extend_by \<sigma> l e |` dom \<sigma>) i = \<sigma> i"
  proof (cases "i \<in> set l")
    case True
    then have "\<sigma> i = None \<or> \<sigma> i = extend_by \<sigma> l e i" using assms by (auto simp: compatible_def list_all_iff)
    then show ?thesis by (cases "\<sigma> i") (auto simp: restrict_map_def dom_def)
  next
    case False
    then have "map_of (zip l e) i = None" using compatible_length [OF assms] by simp
    then show ?thesis by (cases "\<sigma> i") (auto simp: extend_by_def restrict_map_def map_add_def dom_def)
  qed
qed

lemma extend_complete:
  assumes "dom \<tau> = set l \<union> D"
  shows "extend_by (\<tau> |` D) l (row_of \<tau> l) = \<tau>" and "compatible (\<tau> |` D) l (row_of \<tau> l)"
proof -
  have "\<tau> i = None" if "i \<notin> set l" "i \<notin> D" for i
    using assms that by (metis UnE domIff)
  moreover have some: "\<tau> i \<noteq> None" if "i \<in> set l" for i
    using assms that by (metis UnI1 domIff)
  ultimately have "extend_by (\<tau> |` D) l (row_of \<tau> l) i = \<tau> i" for i
    by (cases "i \<in> set l"; cases "\<tau> i"; cases "i \<in> D") (auto simp: extend_by_def row_of_def map_of_zip_map map_add_def)
  then show eq: "extend_by (\<tau> |` D) l (row_of \<tau> l) = \<tau>" by (rule ext)
  show "compatible (\<tau> |` D) l (row_of \<tau> l)"
  proof -
    have "map \<tau> l = map Some (row_of \<tau> l)" using some by (simp add: row_of_def)
    then show ?thesis unfolding compatible_def eq by (simp add: list_all_iff restrict_map_def)
  qed
qed

lemma einsum_terms_Cons:
  "\<tau> \<in> einsum_terms ((l, R) # ops) \<longleftrightarrow>
     (\<exists>\<sigma> \<in> einsum_terms ops. \<exists>e \<in> R. compatible \<sigma> l e \<and> \<tau> = extend_by \<sigma> l e)"
proof
  let ?D = "\<Union>(l, R) \<in> set ops. set l"
  have row: "row_of (\<tau> |` ?D) l' = row_of \<tau> l'" if "(l', R') \<in> set ops" for l' R'
  proof -
    have "set l' \<subseteq> ?D" using that by auto
    then show ?thesis by (auto simp: row_of_def subset_iff)
  qed
  assume \<tau>: "\<tau> \<in> einsum_terms ((l, R) # ops)"
  then have dom: "dom \<tau> = set l \<union> ?D" by (simp add: einsum_terms_def)
  then have "dom (\<tau> |` ?D) = ?D" by auto
  moreover have "\<forall>(l', R') \<in> set ops. row_of (\<tau> |` ?D) l' \<in> R'"
    using \<tau> row by (auto simp: einsum_terms_def)
  ultimately have "\<tau> |` ?D \<in> einsum_terms ops" unfolding einsum_terms_def by blast
  moreover have "row_of \<tau> l \<in> R" using \<tau> by (simp add: einsum_terms_def)
  ultimately show "\<exists>\<sigma> \<in> einsum_terms ops. \<exists>e \<in> R. compatible \<sigma> l e \<and> \<tau> = extend_by \<sigma> l e"
    using extend_complete [OF dom] by metis
next
  assume "\<exists>\<sigma> \<in> einsum_terms ops. \<exists>e \<in> R. compatible \<sigma> l e \<and> \<tau> = extend_by \<sigma> l e"
  then obtain \<sigma> e where \<sigma>: "\<sigma> \<in> einsum_terms ops" "e \<in> R" "compatible \<sigma> l e" "\<tau> = extend_by \<sigma> l e" by blast
  have "row_of \<tau> l' = row_of \<sigma> l'" if "(l', R') \<in> set ops" for l' R'
  proof -
    have "set l' \<subseteq> dom \<sigma>" using \<sigma>(1) that by (auto simp: einsum_terms_def)
    then have "row_of \<sigma> l' = row_of (\<tau> |` dom \<sigma>) l'" using extend_restrict [OF \<sigma>(3)] \<sigma>(4) by simp
    also have "\<dots> = row_of \<tau> l'" using \<open>set l' \<subseteq> dom \<sigma>\<close> by (auto simp: row_of_def subset_iff)
    finally show ?thesis by simp
  qed
  then show "\<tau> \<in> einsum_terms ((l, R) # ops)"
    using \<sigma> extend_row [OF \<sigma>(3)] extend_dom [OF \<sigma>(3)] by (auto simp: einsum_terms_def)
qed

lemma joins_exact:
  assumes "\<And>l es. (l, es) \<in> set ops \<Longrightarrow> distinct es"
  shows "distinct (joins ops)" and "set (joins ops) = einsum_terms (map (apsnd set) ops)"
proof -
  have "distinct (joins ops) \<and> set (joins ops) = einsum_terms (map (apsnd set) ops)"
    using assms
  proof (induction ops rule: joins.induct)
    case 1
    show ?case by (auto simp: einsum_terms_def)
  next
    case (2 l es ops)
    have "distinct (joins ops) \<and> set (joins ops) = einsum_terms (map (apsnd set) ops)"
      by (rule "2.IH") (use "2.prems" in auto)
    then have IH: "distinct (joins ops)" "set (joins ops) = einsum_terms (map (apsnd set) ops)" by blast+
    have es: "distinct es" using "2.prems" [of l es] by simp
    have dom: "dom \<sigma> = (\<Union>(l, R) \<in> set (map (apsnd set) ops). set l)" if "\<sigma> \<in> set (joins ops)" for \<sigma>
      using that IH(2) by (simp add: einsum_terms_def)
    have "inj_on (\<lambda>(\<sigma>, e). extend_by \<sigma> l e) {p \<in> set (joins ops) \<times> set es. case p of (\<sigma>, e) \<Rightarrow> compatible \<sigma> l e}"
    proof (rule inj_onI, clarsimp)
      fix \<sigma> e \<sigma>' e'
      assume a: "\<sigma> \<in> set (joins ops)" "\<sigma>' \<in> set (joins ops)" "compatible \<sigma> l e" "compatible \<sigma>' l e'"
        and eq: "extend_by \<sigma> l e = extend_by \<sigma>' l e'"
      have "\<sigma> = \<sigma>'"
        using extend_restrict [OF a(3)] extend_restrict [OF a(4)] dom [OF a(1)] dom [OF a(2)] eq by metis
      moreover have "e = e'" using extend_row [OF a(3)] extend_row [OF a(4)] eq by metis
      ultimately show "\<sigma> = \<sigma>' \<and> e = e'" by blast
    qed
    then have "distinct (joins ((l, es) # ops))"
      using IH(1) es by (simp add: distinct_map distinct_product)
    moreover have "set (joins ((l, es) # ops)) = einsum_terms (map (apsnd set) ((l, es) # ops))"
    proof (rule set_eqI)
      fix \<tau>
      have "\<tau> \<in> set (joins ((l, es) # ops)) \<longleftrightarrow>
          (\<exists>\<sigma> \<in> set (joins ops). \<exists>e \<in> set es. compatible \<sigma> l e \<and> \<tau> = extend_by \<sigma> l e)"
        by auto
      then show "\<tau> \<in> set (joins ((l, es) # ops)) \<longleftrightarrow> \<tau> \<in> einsum_terms (map (apsnd set) ((l, es) # ops))"
        by (simp add: einsum_terms_Cons IH(2) del: joins.simps)
    qed
    ultimately show ?case by blast
  qed
  then show "distinct (joins ops)" "set (joins ops) = einsum_terms (map (apsnd set) ops)" by blast+
qed

lemma multiplicity_ones:
  "distinct js \<Longrightarrow> multiplicity (map (\<lambda>\<sigma>. (f \<sigma>, 1)) js) k = of_nat (card {\<sigma> \<in> set js. f \<sigma> = k})"
proof (induction js)
  case Nil
  show ?case by (simp add: multiplicity_def)
next
  case (Cons j js)
  have "{\<sigma> \<in> set (j # js). f \<sigma> = k} = (if f j = k then insert j {\<sigma> \<in> set js. f \<sigma> = k} else {\<sigma> \<in> set js. f \<sigma> = k})"
    by auto
  with Cons show ?case by (simp add: multiplicity_def)
qed

lemma join_trie_contracts: "trie_contract join_trie" "einsum_contract join_trie"
proof -
  show "trie_contract join_trie"
    using list_trie_contract by (simp add: trie_contract_def join_trie_def)
  show "einsum_contract join_trie"
    unfolding einsum_contract_def Let_def
  proof (intro allI impI)
    fix ls :: "uint8 list list" and ops :: "string node list list list" and ids :: "uint8 list" and t
    assume "length ops = length ls"
    let ?ps = "zip ls (map remdups ops)"
    have rels: "map (apsnd set) ?ps = zip ls (map (\<lambda>h. set (entries join_trie h)) ops)"
      by (rule nth_equalityI) (simp_all add: join_trie_def list_trie_def)
    have "distinct es" if "(l, es) \<in> set ?ps" for l es
      using that by (auto dest!: set_zip_rightD)
    then have exact: "distinct (joins ?ps)"
      "set (joins ?ps) = einsum_terms (zip ls (map (\<lambda>h. set (entries join_trie h)) ops))"
      using joins_exact [of ?ps] unfolding rels by blast+
    have run: "evaluate join_trie (join_graph ls) ops ids t = (map (\<lambda>\<sigma>. (row_of \<sigma> ids, 1)) (joins ?ps), None)"
      "evaluate_distinct join_trie (join_graph ls) ops ids t = (remdups (map (\<lambda>\<sigma>. row_of \<sigma> ids) (joins ?ps)), None)"
      by (simp_all add: join_trie_def)
    show "(\<forall>es. evaluate join_trie (join_graph ls) ops ids t = (es, None) \<longrightarrow>
             (\<forall>k. multiplicity es k =
                of_nat (card {\<sigma> \<in> einsum_terms (zip ls (map (\<lambda>h. set (entries join_trie h)) ops)). row_of \<sigma> ids = k}))) \<and>
          (\<forall>ks. evaluate_distinct join_trie (join_graph ls) ops ids t = (ks, None) \<longrightarrow>
             distinct ks \<and>
             set ks = (\<lambda>\<sigma>. row_of \<sigma> ids) ` einsum_terms (zip ls (map (\<lambda>h. set (entries join_trie h)) ops)))"
      using exact multiplicity_ones [OF exact(1), where f = "\<lambda>\<sigma>. row_of \<sigma> ids"]
      by (simp add: run)
  qed
qed

text \<open>
  Conjunctive queries are answered as SPARQL defines: if the evaluation ends without an exception, the
  rows yielded carry, summed up, exactly the number of assignments of the query's variables that turn
  all its triple patterns into stored triples and are projected to that row (modulo 2 ^ 64); with
  DISTINCT, exactly the rows of such assignments, each once. Parsing, numbering of the variables, slicing
  and the dependency graph together lose or add no solution, for up to 256 patterns and 256 variables.
\<close>

lemma conjunctive_multiplicity:
  assumes "sparql_parse papi ctx = Inr q" and "odg_contract papi" and "length (triple_patterns q) \<le> 256"
    and "selectQuery ctx = Some sc" and "select_whereClause sc = Some w"
    and "groupGraphPatternSub w = Some c" and "ctx_gous c = []" and "ctx_opts c = []"
    and "triple_patterns q \<noteq> []" and "card (dom (var_to_id q)) \<le> 256"
    and "set (projected_variables q) \<subseteq> patterns_vars (triple_patterns q)"
    and "trie_contract api" and "einsum_contract api"
    and "eval_select api h q endtime = (es, None)"
  shows "multiplicity es row =
     (let solutions = pattern_solutions (set (entries api h)) (triple_patterns q);
          rows = (\<lambda>\<mu>. row_of \<mu> (projected_variables q))
      in if distinct_flag q
         then (if row \<in> rows ` solutions then default_entry_value api else 0)
         else of_nat (card {\<mu> \<in> solutions. rows \<mu> = row}))"
proof -
  let ?m = "\<lambda>v. the (var_to_id q v)"
  let ?tps = "triple_patterns q"
  let ?ids = "map ?m (projected_variables q)"
  let ?T = "set (entries api h)"
  let ?ls = "operands (odg q)"
  obtain ops where ops: "generate_operands api h (get_slice_keys q) = Inr ops" "length ops = length ?tps"
    "length ops = length ?ls" and run: "eval_select api h q endtime =
      (if distinct_flag q
       then map_prod (distinct_entries (default_entry_value api) (replicate (length ?ids) NullNode)) id
              (evaluate_distinct api (odg q) ops ?ids endtime)
       else evaluate api (odg q) ops ?ids endtime)"
    using eval_select_calls [OF assms(1,12), of h endtime] unfolding Let_def by blast
  note parsed = parsed_operands [OF assms(1,12) ops(1,2)]
  have ls: "?ls = map (\<lambda>tp. map ?m (pattern_vars tp)) ?tps"
    using parse_covered [OF assms(1)] by (simp add: query_covered_def labels_def [abs_def])
  have graph: "odg q = join_graph ?ls"
    using parse_conjunctive_graph [OF assms(1-8)] ls by simp
  have vars: "patterns_vars ?tps \<subseteq> dom (var_to_id q)"
    using parse_covered [OF assms(1)] by (auto simp: query_covered_def patterns_vars_def)
  have inj: "inj_on ?m (patterns_vars ?tps)"
  proof (rule inj_onI)
    fix v w assume vw: "v \<in> patterns_vars ?tps" "w \<in> patterns_vars ?tps" "?m v = ?m w"
    have "var_to_id q u = Some (?m u)" if "u \<in> patterns_vars ?tps" for u
      using subsetD [OF vars that] by auto
    with vw have "var_to_id q v = var_to_id q w" by metis
    moreover have "inj_on (var_to_id q) (dom (var_to_id q))"
      using variable_ids_inj [OF assms(1)] assms(10) by simp
    ultimately show "v = w" using subsetD [OF vars] vw(1,2) by (simp add: inj_onD)
  qed
  note count = count_terms [OF inj assms(11), of ?T]
  have ids: "set ?ids \<subseteq> set (concat ?ls)"
  proof -
    have "set (concat ?ls) = ?m ` patterns_vars ?tps" by (auto simp: ls patterns_vars_def)
    then show ?thesis using image_mono [OF assms(11), of ?m] by simp
  qed
  have terms: "einsum_terms (zip ?ls (map (\<lambda>h. set (entries api h)) ops)) = einsum_terms (map (pattern_operand ?m ?T) ?tps)"
    by (simp only: parsed(1))
  have lens: "\<forall>i < length ?ls. \<forall>e \<in> set (entries api (ops ! i)). length e = length (?ls ! i)"
    using parsed(2) ops(3) by simp
  have "?ls \<noteq> []" "length ?ls \<le> 256" using ops assms(3,9) by auto
  note contract = assms(13) [unfolded einsum_contract_def Let_def, rule_format, OF this ops(3) ids, of endtime]
  show ?thesis
  proof (cases "distinct_flag q")
    case True
    obtain ks where ks: "evaluate_distinct api (odg q) ops ?ids endtime = (ks, None)"
      "es = distinct_entries (default_entry_value api) (replicate (length ?ids) NullNode) ks"
      using run True assms(14) by (cases "evaluate_distinct api (odg q) ops ?ids endtime") auto
    then have "distinct ks" "set ks = (\<lambda>\<mu>. row_of \<mu> (projected_variables q)) ` pattern_solutions ?T ?tps"
      using contract lens graph terms count(2) by auto
    moreover from this(2) have "es = map (\<lambda>k. (k, default_entry_value api)) ks"
      unfolding ks(2) by (intro distinct_entries_exact) (auto simp: row_of_def)
    ultimately show ?thesis using True by (simp add: multiplicity_distinct Let_def)
  next
    case False
    then have "evaluate api (odg q) ops ?ids endtime = (es, None)" using run assms(14) by simp
    then have "multiplicity es row = of_nat (card {\<sigma> \<in> einsum_terms (map (pattern_operand ?m ?T) ?tps). row_of \<sigma> ?ids = row})"
      using contract lens graph terms by auto
    then show ?thesis using False count(1) by (simp add: Let_def)
  qed
qed

text \<open>The join \<open>?s p ?o. ?o q ?s\<close> on three triples.\<close>

definition sample_triples :: "string node list list" where
  "sample_triples = [ [IRI ''a'', IRI ''p'', IRI ''b''], [IRI ''b'', IRI ''q'', IRI ''a''], [IRI ''a'', IRI ''p'', IRI ''c''] ]"

lemma sample_solutions:
  "pattern_solutions (set sample_triples) (triple_patterns sample_join_result) =
     {[Variable ''s'' False \<mapsto> IRI ''a'', Variable ''o'' False \<mapsto> IRI ''b'']}"
proof -
  let ?s = "Variable ''s'' False" and ?o = "Variable ''o'' False"
  have "\<mu> = [?s \<mapsto> IRI ''a'', ?o \<mapsto> IRI ''b'']" if \<mu>: "\<mu> \<in> pattern_solutions (set sample_triples) (triple_patterns sample_join_result)" for \<mu>
  proof -
    have dom: "dom \<mu> = {?s, ?o}" using \<mu>
      by (auto simp: pattern_solutions_def patterns_vars_def pattern_vars_def sample_join_result_def Let_def)
    then obtain a b where ab: "\<mu> ?s = Some a" "\<mu> ?o = Some b" by (metis domD insertI1 insertI2)
    then have "a = IRI ''a'' \<and> b = IRI ''b''" using \<mu>
      by (auto simp: pattern_solutions_def sample_join_result_def sample_triples_def Let_def)
    moreover have "\<mu> v = None" if "v \<noteq> ?s" "v \<noteq> ?o" for v using dom that by (metis domIff insertE singletonD)
    ultimately show ?thesis using ab by (auto simp: fun_eq_iff)
  qed
  moreover have "[?s \<mapsto> IRI ''a'', ?o \<mapsto> IRI ''b''] \<in> pattern_solutions (set sample_triples) (triple_patterns sample_join_result)"
    by (auto simp: pattern_solutions_def patterns_vars_def pattern_vars_def sample_join_result_def sample_triples_def Let_def)
  ultimately show ?thesis by blast
qed

lemma sample_join_multiplicity:
  "multiplicity (fst (eval_select join_trie sample_triples sample_join_result 0)) [IRI ''a'', IRI ''b''] = 1"
proof -
  define c where "c = GroupGraphPatternSubCtx (Some (one_triple (var_term ''s'') (iri_verb ''p'') (var_term ''o'') @
      one_triple (var_term ''o'') (iri_verb ''q'') (var_term ''s''))) []"
  define es where "es = fst (eval_select join_trie sample_triples sample_join_result 0)"
  have run: "eval_select join_trie sample_triples sample_join_result 0 = (es, None)"
  proof -
    have "\<not> distinct_flag sample_join_result" by (simp add: sample_join_result_def Let_def)
    moreover have "snd (evaluate join_trie g ops ids t) = None" for g ops ids t by (simp add: join_trie_def)
    ultimately have "snd (eval_select join_trie sample_triples sample_join_result 0) = None"
      by - (rule eval_select_calls [OF sample_join_parse join_trie_contracts(1), of sample_triples 0], simp add: Let_def)
    then show ?thesis by (simp add: es_def prod_eq_iff)
  qed
  have dom: "card (dom (var_to_id sample_join_result)) \<le> 256"
    by (simp add: sample_join_result_def Let_def card_insert_if)
  have "multiplicity es [IRI ''a'', IRI ''b''] =
     (let solutions = pattern_solutions (set (entries join_trie sample_triples)) (triple_patterns sample_join_result);
          rows = (\<lambda>\<mu>. row_of \<mu> (projected_variables sample_join_result))
      in if distinct_flag sample_join_result
         then (if [IRI ''a'', IRI ''b''] \<in> rows ` solutions then default_entry_value join_trie else 0)
         else of_nat (card {\<mu> \<in> solutions. rows \<mu> = [IRI ''a'', IRI ''b'']}))"
    by (rule conjunctive_multiplicity [OF sample_join_parse sample_api_contract _ _ _ _ _ _ _ dom _ join_trie_contracts run,
          where sc = "the (selectQuery sample_join)" and w = "GroupGraphPatternCtx False (Some c)" and c = c])
       (auto simp: sample_join_result_def sample_join_def select_star_def triples_group_def c_def Let_def
          ctx_gous_def ctx_opts_def patterns_vars_def pattern_vars_def)
  also have "\<dots> = of_nat (card {\<mu> \<in> pattern_solutions (set sample_triples) (triple_patterns sample_join_result).
      row_of \<mu> (projected_variables sample_join_result) = [IRI ''a'', IRI ''b'']})"
  proof -
    have "\<not> distinct_flag sample_join_result" by (simp add: sample_join_result_def Let_def)
    moreover have "set (entries join_trie sample_triples) = set sample_triples"
      by (simp add: join_trie_def list_trie_def)
    ultimately show ?thesis by (simp only: Let_def if_False)
  qed
  also have "{\<mu> \<in> pattern_solutions (set sample_triples) (triple_patterns sample_join_result).
      row_of \<mu> (projected_variables sample_join_result) = [IRI ''a'', IRI ''b'']} =
      {[Variable ''s'' False \<mapsto> IRI ''a'', Variable ''o'' False \<mapsto> IRI ''b'']}"
    unfolding sample_solutions by (auto simp: row_of_def sample_join_result_def Let_def)
  finally show ?thesis by (simp add: es_def)
qed

end
