(* ===== verification/Sparql_Algebra.thy ===== *)
theory Sparql_Algebra
  imports Conjunctive_Answers "HOL-Library.Multiset"
begin

text \<open>
  What a group graph pattern without optional patterns means in SPARQL, as a multiset of solutions: the
  algebra of the recommendation, with \<open>Join\<close> and \<open>Union\<close> of multisets of assignments. It is an abstract
  specification, defined on the parse tree without distributing anything; \<open>group_solutions_leaves\<close> shows
  that the conjunctive leaves the visitor produces have the same solutions.
\<close>

subsection \<open>Join of solutions\<close>

type_synonym 'l solution = "variable \<rightharpoonup> 'l node"

definition agree :: "'l solution \<Rightarrow> 'l solution \<Rightarrow> bool" where
  "agree \<mu> \<nu> \<longleftrightarrow> (\<forall>v x y. \<mu> v = Some x \<longrightarrow> \<nu> v = Some y \<longrightarrow> x = y)"

definition join :: "'l solution multiset \<Rightarrow> 'l solution multiset \<Rightarrow> 'l solution multiset" where
  "join A B = (\<Sum>\<mu> \<in># A. image_mset ((++) \<mu>) (filter_mset (agree \<mu>) B))"

lemma join_simps [simp]:
  "join {#} B = {#}" "join A {#} = {#}"
  "join (A + A') B = join A B + join A' B" "join A (B + B') = join A B + join A B'"
  by (simp_all add: join_def sum_mset.distrib)

lemma join_single: "join {#\<mu>#} {#\<nu>#} = (if agree \<mu> \<nu> then {#\<mu> ++ \<nu>#} else {#})"
  by (simp add: join_def)

lemma agree_sym: "agree \<mu> \<nu> \<longleftrightarrow> agree \<nu> \<mu>"
  by (auto simp: agree_def)

lemma agree_commute: "agree \<mu> \<nu> \<Longrightarrow> \<mu> ++ \<nu> = \<nu> ++ \<mu>"
  by (rule ext) (auto simp: agree_def map_add_def split: option.split)

lemma join_commute: "join A B = join B A"
proof (induction A)
  case empty
  show ?case by simp
next
  case (add \<mu> A)
  have "join {#\<mu>#} B = join B {#\<mu>#}"
  proof (induction B)
    case (add \<nu> B)
    then show ?case
      using join_simps(4) [of "{#\<mu>#}" "{#\<nu>#}" B] join_simps(3) [of "{#\<nu>#}" B "{#\<mu>#}"]
      by (simp add: join_single agree_sym agree_commute)
  qed simp
  then show ?case
    using add join_simps(3) [of "{#\<mu>#}" A B] join_simps(4) [of B "{#\<mu>#}" A] by simp
qed

lemma join_sum_list:
  "join (\<Sum>x \<leftarrow> xs. f x) B = (\<Sum>x \<leftarrow> xs. join (f x) B)"
  "join A (\<Sum>x \<leftarrow> xs. f x) = (\<Sum>x \<leftarrow> xs. join A (f x))"
  by (induction xs) simp_all

subsection \<open>Basic graph patterns\<close>

lemma instantiate_restrict:
  "set (node_vars ns) \<subseteq> V \<Longrightarrow> map (instantiate (\<mu> |` V)) ns = map (instantiate \<mu>) ns"
  by (induction ns rule: node_vars.induct) auto

lemma solutions_restrict:
  assumes "dom \<mu> = patterns_vars (ps @ qs)"
  shows "\<mu> \<in> pattern_solutions T (ps @ qs) \<longleftrightarrow>
         \<mu> |` patterns_vars ps \<in> pattern_solutions T ps \<and> \<mu> |` patterns_vars qs \<in> pattern_solutions T qs"
proof -
  have restrict: "(\<forall>tp \<in> set rs. map (instantiate (\<mu> |` patterns_vars rs)) (nodes_of tp) \<in> T) \<longleftrightarrow>
      (\<forall>tp \<in> set rs. map (instantiate \<mu>) (nodes_of tp) \<in> T)" for rs
  proof (rule ball_cong [OF refl])
    fix tp assume "tp \<in> set rs"
    then have "set (node_vars (nodes_of tp)) \<subseteq> patterns_vars rs" by (auto simp: patterns_vars_def pattern_vars_def)
    then show "(map (instantiate (\<mu> |` patterns_vars rs)) (nodes_of tp) \<in> T) = (map (instantiate \<mu>) (nodes_of tp) \<in> T)"
      using instantiate_restrict [of "nodes_of tp" "patterns_vars rs" \<mu>] by (simp only:)
  qed
  have "patterns_vars (ps @ qs) = patterns_vars ps \<union> patterns_vars qs" by (auto simp: patterns_vars_def)
  then have "dom (\<mu> |` patterns_vars ps) = patterns_vars ps" "dom (\<mu> |` patterns_vars qs) = patterns_vars qs"
    using assms by auto
  with restrict [of ps] restrict [of qs] assms show ?thesis
    by (simp add: pattern_solutions_def ball_Un)
qed

lemma finite_solutions:
  assumes "finite T"
  shows "finite (pattern_solutions T ps)"
proof (rule finite_subset)
  have "\<mu> \<in> {\<mu>. dom \<mu> = patterns_vars ps \<and> ran \<mu> \<subseteq> (\<Union>e \<in> T. set e)}" if \<mu>: "\<mu> \<in> pattern_solutions T ps" for \<mu>
  proof -
    have "n \<in> (\<Union>e \<in> T. set e)" if "\<mu> v = Some n" for v n
    proof -
      have "v \<in> patterns_vars ps" using \<mu> that by (auto simp: pattern_solutions_def)
      then obtain tp where tp: "tp \<in> set ps" "v \<in> set (node_vars (nodes_of tp))"
        by (auto simp: patterns_vars_def pattern_vars_def)
      then have "n \<in> set (map (instantiate \<mu>) (nodes_of tp))"
        using that image_eqI [of n "instantiate \<mu>" "VarNode v"] by (simp add: set_node_vars)
      moreover have "map (instantiate \<mu>) (nodes_of tp) \<in> T" using \<mu> tp(1) by (simp add: pattern_solutions_def)
      ultimately show ?thesis by blast
    qed
    then show ?thesis using \<mu> by (auto simp: pattern_solutions_def ran_def)
  qed
  then show "pattern_solutions T ps \<subseteq> {\<mu>. dom \<mu> = patterns_vars ps \<and> ran \<mu> \<subseteq> (\<Union>e \<in> T. set e)}" by blast
  have "finite (patterns_vars ps)" by (simp add: patterns_vars_def)
  moreover have "finite (\<Union>e \<in> T. set e)" using assms by simp
  ultimately show "finite {\<mu>. dom \<mu> = patterns_vars ps \<and> ran \<mu> \<subseteq> (\<Union>e \<in> T. set e)}"
    by (rule finite_set_of_finite_maps)
qed

definition bgp :: "'l node list set \<Rightarrow> 'l triple_pattern list \<Rightarrow> 'l solution multiset" where
  "bgp T ps = mset_set (pattern_solutions T ps)"

lemma count_image_filter:
  assumes "finite Y"
  shows "count (image_mset f (filter_mset P (mset_set Y))) y = card {x \<in> Y. P x \<and> f x = y}"
proof -
  have "count (image_mset f (filter_mset P (mset_set Y))) y = (\<Sum>x | x \<in> Y \<and> P x \<and> y = f x. 1)"
    using assms by (simp add: count_image_mset' conj_ac count_mset_set' flip: filter_mset_mset_set)
  also have "\<dots> = card {x \<in> Y. P x \<and> y = f x}" by simp
  also have "{x \<in> Y. P x \<and> y = f x} = {x \<in> Y. P x \<and> f x = y}" by auto
  finally show ?thesis .
qed

lemma count_join_sets:
  assumes "finite X" and "finite Y" and "\<And>\<mu>. \<mu> \<in> X \<Longrightarrow> dom \<mu> = V" and "\<And>\<nu>. \<nu> \<in> Y \<Longrightarrow> dom \<nu> = W"
  shows "count (join (mset_set X) (mset_set Y)) \<kappa> =
           (if dom \<kappa> = V \<union> W \<and> \<kappa> |` V \<in> X \<and> \<kappa> |` W \<in> Y then 1 else 0)"
proof -
  have pair: "agree \<mu> \<nu> \<and> \<mu> ++ \<nu> = \<kappa> \<longleftrightarrow> dom \<kappa> = V \<union> W \<and> \<mu> = \<kappa> |` V \<and> \<nu> = \<kappa> |` W"
    if "\<mu> \<in> X" "\<nu> \<in> Y" for \<mu> \<nu>
  proof
    assume *: "agree \<mu> \<nu> \<and> \<mu> ++ \<nu> = \<kappa>"
    then have "\<nu> ++ \<mu> = \<kappa>" using agree_commute by metis
    with * assms(3) [OF that(1)] assms(4) [OF that(2)] show "dom \<kappa> = V \<union> W \<and> \<mu> = \<kappa> |` V \<and> \<nu> = \<kappa> |` W"
      by (auto simp: map_add_def restrict_map_def fun_eq_iff split: option.splits)
  next
    assume "dom \<kappa> = V \<union> W \<and> \<mu> = \<kappa> |` V \<and> \<nu> = \<kappa> |` W"
    then show "agree \<mu> \<nu> \<and> \<mu> ++ \<nu> = \<kappa>"
      by (auto simp: agree_def restrict_map_def map_add_def fun_eq_iff split: option.splits)
  qed
  have "count (join (mset_set X) (mset_set Y)) \<kappa> =
      (\<Sum>\<mu> \<in> X. card {\<nu> \<in> Y. agree \<mu> \<nu> \<and> \<mu> ++ \<nu> = \<kappa>})"
    by (simp add: join_def count_sum count_image_filter [OF assms(2)] flip: sum_unfold_sum_mset)
  also have "\<dots> = (\<Sum>\<mu> \<in> X. if \<mu> = \<kappa> |` V \<and> dom \<kappa> = V \<union> W \<and> \<kappa> |` W \<in> Y then 1 else 0)"
  proof (rule sum.cong [OF refl])
    fix \<mu> assume "\<mu> \<in> X"
    have "{\<nu> \<in> Y. agree \<mu> \<nu> \<and> \<mu> ++ \<nu> = \<kappa>} = {\<nu> \<in> Y. dom \<kappa> = V \<union> W \<and> \<mu> = \<kappa> |` V \<and> \<nu> = \<kappa> |` W}"
      by (rule Collect_cong, rule conj_cong [OF refl], rule pair [OF \<open>\<mu> \<in> X\<close>])
    also have "\<dots> = (if \<mu> = \<kappa> |` V \<and> dom \<kappa> = V \<union> W \<and> \<kappa> |` W \<in> Y then {\<kappa> |` W} else {})"
      by auto
    finally have set_eq: "{\<nu> \<in> Y. agree \<mu> \<nu> \<and> \<mu> ++ \<nu> = \<kappa>} =
        (if \<mu> = \<kappa> |` V \<and> dom \<kappa> = V \<union> W \<and> \<kappa> |` W \<in> Y then {\<kappa> |` W} else {})" .
    have "card (if b then {\<kappa> |` W} else {}) = (if b then 1 else 0)" for b by simp
    then show "card {\<nu> \<in> Y. agree \<mu> \<nu> \<and> \<mu> ++ \<nu> = \<kappa>} =
        (if \<mu> = \<kappa> |` V \<and> dom \<kappa> = V \<union> W \<and> \<kappa> |` W \<in> Y then 1 else 0)"
      unfolding set_eq .
  qed
  also have "\<dots> = (if dom \<kappa> = V \<union> W \<and> \<kappa> |` V \<in> X \<and> \<kappa> |` W \<in> Y then 1 else 0)"
  proof (cases "dom \<kappa> = V \<union> W \<and> \<kappa> |` W \<in> Y")
    case True
    then show ?thesis using sum.delta [OF assms(1), of "\<kappa> |` V" "\<lambda>_. 1 :: nat"] by simp
  next
    case False
    then have "(\<Sum>\<mu> \<in> X. if \<mu> = \<kappa> |` V \<and> dom \<kappa> = V \<union> W \<and> \<kappa> |` W \<in> Y then 1 else 0) = (0 :: nat)"
      by (intro sum.neutral ballI if_not_P) blast
    then show ?thesis using False by (simp only: if_False) auto
  qed
  finally show ?thesis .
qed

lemma join_bgp:
  assumes "finite T"
  shows "join (bgp T ps) (bgp T qs) = bgp T (ps @ qs)"
proof (rule multiset_eqI)
  fix \<kappa>
  have vars: "patterns_vars (ps @ qs) = patterns_vars ps \<union> patterns_vars qs" by (auto simp: patterns_vars_def)
  have "count (join (bgp T ps) (bgp T qs)) \<kappa> =
      (if dom \<kappa> = patterns_vars ps \<union> patterns_vars qs \<and> \<kappa> |` patterns_vars ps \<in> pattern_solutions T ps \<and>
          \<kappa> |` patterns_vars qs \<in> pattern_solutions T qs then 1 else 0)"
    unfolding bgp_def using finite_solutions [OF assms]
    by (intro count_join_sets) (auto simp: pattern_solutions_def)
  also have "\<dots> = (if \<kappa> \<in> pattern_solutions T (ps @ qs) then 1 else 0)"
    using solutions_restrict [of \<kappa> ps qs T] vars by (auto simp: pattern_solutions_def)
  also have "\<dots> = count (bgp T (ps @ qs)) \<kappa>"
    using finite_solutions [OF assms] by (simp add: bgp_def count_mset_set')
  finally show "count (join (bgp T ps) (bgp T qs)) \<kappa> = count (bgp T (ps @ qs)) \<kappa>" .
qed

subsection \<open>Group graph patterns\<close>

text \<open>
  \<open>pats\<close> is the translation of a triples block to triple patterns. Triples blocks of a group are one basic
  graph pattern, wherever they stand in the group; every further element is joined in turn, and the
  alternatives of a union add up. Optional patterns are not looked at, see \<open>no_optional\<close>;
  other elements, such as filters, which the visitor skips, are not part of the tree.
\<close>

function group_solutions ::
    "'l node list set \<Rightarrow> (triples_block_ctx \<Rightarrow> 'l triple_pattern list) \<Rightarrow> group_graph_pattern_sub_ctx option \<Rightarrow> 'l solution multiset"
  and union_solutions ::
    "'l node list set \<Rightarrow> (triples_block_ctx \<Rightarrow> 'l triple_pattern list) \<Rightarrow> group_or_union_ctx list \<Rightarrow> 'l solution multiset" where
  "group_solutions T pats None = {#}"
| "group_solutions T pats (Some c) = join (bgp T (concat (map pats (ctx_tbs c)))) (union_solutions T pats (ctx_gous c))"
| "union_solutions T pats gous =
     (if gous = [] then {#Map.empty#}
      else join (union_solutions T pats (butlast gous)) (\<Sum>a \<leftarrow> last gous. group_solutions T pats (groupGraphPatternSub a)))"
  by pat_completeness auto

termination group_solutions
proof (relation "inv_image (less_than <*lex*> less_than)
    (\<lambda>x. den_measure (case x of Inl (T, pats, c) \<Rightarrow> Inl c | Inr (T, pats, gous) \<Rightarrow> Inr gous))", goal_cases)
  case 1
  show ?case by (simp add: wf_inv_image wf_lex_prod)
next
  case (2 T pats c)
  show ?case by (simp add: den_measure_def sub_weight_split)
next
  case (3 T pats gous)
  then have "gous_weight gous = gous_weight (butlast gous @ [last gous])" by simp
  then have "gous_weight (butlast gous) \<le> gous_weight gous" by simp
  then show ?case using 3 by (auto simp: den_measure_def)
next
  case (4 T pats gous a)
  then show ?case using alt_weight_le [of gous a] by (auto simp: den_measure_def)
qed

declare union_solutions.simps [simp del]

definition leaf_solutions :: "'l node list set \<Rightarrow> (triples_block_ctx \<Rightarrow> 'l triple_pattern list) \<Rightarrow> leaf list \<Rightarrow> 'l solution multiset" where
  "leaf_solutions T pats ls = (\<Sum>l \<leftarrow> ls. case l of None \<Rightarrow> {#} | Some (t, p) \<Rightarrow> bgp T (concat (map pats t)))"

lemma leaf_solutions_simps [simp]:
  "leaf_solutions T pats [] = {#}"
  "leaf_solutions T pats (None # ls) = leaf_solutions T pats ls"
  "leaf_solutions T pats (Some (t, p) # ls) = bgp T (concat (map pats t)) + leaf_solutions T pats ls"
  "leaf_solutions T pats (xs @ ys) = leaf_solutions T pats xs + leaf_solutions T pats ys"
  by (simp_all add: leaf_solutions_def)

lemma leaf_solutions_concat: "leaf_solutions T pats (concat xss) = (\<Sum>xs \<leftarrow> xss. leaf_solutions T pats xs)"
  by (induction xss) simp_all

lemma leaf_solutions_extend:
  "finite T \<Longrightarrow> leaf_solutions T pats (Query_Dnf.extend t p ls) = join (bgp T (concat (map pats t))) (leaf_solutions T pats ls)"
proof (induction ls)
  case (Cons l ls)
  then show ?case by (cases l) (auto simp: join_bgp)
qed simp

lemma leaf_solutions_product:
  assumes "finite T"
  shows "leaf_solutions T pats (Query_Dnf.product xs ys) = join (leaf_solutions T pats xs) (leaf_solutions T pats ys)"
proof (induction xs)
  case (Cons x xs)
  then show ?case
    by (cases x) (auto simp: product_def leaf_solutions_extend [OF assms])
qed (simp add: product_def)

lemma bgp_Nil [simp]: "bgp T [] = {#Map.empty#}"
proof -
  have "pattern_solutions T [] = {Map.empty}" by (auto simp: pattern_solutions_def patterns_vars_def)
  then show ?thesis by (simp add: bgp_def)
qed

lemma den_solutions:
  assumes "finite T"
  shows "leaf_solutions T pats (den c) = group_solutions T pats c"
    and "leaf_solutions T pats (den_unions gous) = union_solutions T pats gous"
proof (induction c and gous rule: den_den_unions.induct)
  case 1
  show ?case by simp
next
  case (2 c)
  then show ?case by (simp add: leaf_solutions_extend [OF assms])
next
  case (3 gous)
  show ?case
  proof (cases "gous = []")
    case True
    then show ?thesis by (simp add: union_solutions.simps)
  next
    case False
    then have "leaf_solutions T pats (den_unions gous) =
        join (\<Sum>a \<leftarrow> last gous. leaf_solutions T pats (den (groupGraphPatternSub a))) (leaf_solutions T pats (den_unions (butlast gous)))"
      by (simp add: den_unions.simps [of gous] leaf_solutions_product [OF assms] leaf_solutions_concat comp_def)
    also have "\<dots> = join (\<Sum>a \<leftarrow> last gous. group_solutions T pats (groupGraphPatternSub a)) (union_solutions T pats (butlast gous))"
      using 3 False by (simp cong: map_cong)
    finally show ?thesis
      using False by (simp add: union_solutions.simps [of T pats gous] join_commute)
  qed
qed

lemma group_solutions_leaves:
  assumes "finite T" and "no_optional c"
  shows "group_solutions T pats (Some c) = (\<Sum>t \<leftarrow> leaf_blocks c. bgp T (concat (map pats t)))"
  unfolding den_solutions(1) [OF assms(1), symmetric] no_optional_den [OF assms(2)]
  by (simp add: leaf_solutions_def comp_def del: den.simps)

end
