(* ===== verification/Union_Answers.thy ===== *)
theory Union_Answers
  imports Sparql_Algebra
begin

text \<open>
  What a query with unions answers. \<open>union_contract\<close> names what the code relies on from the evaluator for
  graphs with several components: the entries of the components are added up, and a result label that does
  not occur in a component is left null. \<open>einsum_contract\<close> is its special case for one component.
\<close>

subsection \<open>The contract of the evaluator\<close>

text \<open>The row of a solution that may leave projected variables unbound.\<close>

definition row_or_null :: "('k \<rightharpoonup> 'l node) \<Rightarrow> 'k list \<Rightarrow> 'l node list" where
  "row_or_null \<mu> vs = map (\<lambda>v. case \<mu> v of None \<Rightarrow> NullNode | Some n \<Rightarrow> n) vs"

text \<open>The terms of the summation of every component; the relations of the operands come in one list.\<close>

fun union_terms :: "uint8 list list list \<Rightarrow> 'l node list set list \<Rightarrow> (uint8 \<rightharpoonup> 'l node) set list" where
  "union_terms [] Rs = []"
| "union_terms (ls # lss) Rs = einsum_terms (zip ls Rs) # union_terms lss (drop (length ls) Rs)"

definition union_contract :: "('h, 'l) trie_api \<Rightarrow> bool" where
  "union_contract api \<longleftrightarrow>
     (\<forall>lss ops ids endtime.
        lss \<noteq> [] \<longrightarrow> [] \<notin> set lss \<longrightarrow> length (concat lss) \<le> 256 \<longrightarrow> length ops = length (concat lss) \<longrightarrow>
        set ids \<subseteq> set (concat (concat lss)) \<longrightarrow>
        (\<forall>i < length ops. \<forall>e \<in> set (entries api (ops ! i)). length e = length (concat lss ! i)) \<longrightarrow>
        (let terms = union_terms lss (map (\<lambda>h. set (entries api h)) ops) in
         (\<forall>es. evaluate api (union_graph lss) ops ids endtime = (es, None) \<longrightarrow>
            (\<forall>k. multiplicity es k = of_nat (\<Sum>ts \<leftarrow> terms. card {\<sigma> \<in> ts. row_or_null \<sigma> ids = k}))) \<and>
         (\<forall>ks. evaluate_distinct api (union_graph lss) ops ids endtime = (ks, None) \<longrightarrow>
            distinct ks \<and> set ks = (\<Union>ts \<in> set terms. (\<lambda>\<sigma>. row_or_null \<sigma> ids) ` ts))))"

lemma row_or_null_row: "set vs \<subseteq> dom \<mu> \<Longrightarrow> row_or_null \<mu> vs = row_of \<mu> vs"
  by (auto simp: row_or_null_def row_of_def split: option.split)

lemma terms_dom_labels: "\<sigma> \<in> einsum_terms (zip ls Rs) \<Longrightarrow> length Rs = length ls \<Longrightarrow> dom \<sigma> = set (concat ls)"
proof -
  assume \<sigma>: "\<sigma> \<in> einsum_terms (zip ls Rs)" and len: "length Rs = length ls"
  have "(\<Union>(l, R) \<in> set (zip ls Rs). set l) = (\<Union>l \<in> set (map fst (zip ls Rs)). set l)" by auto
  then show "dom \<sigma> = set (concat ls)" using \<sigma> len by (simp add: einsum_terms_def)
qed

lemma union_contract_einsum:
  assumes "union_contract api"
  shows "einsum_contract api"
  unfolding einsum_contract_def Let_def
proof (intro allI impI)
  fix ls :: "uint8 list list" and ops :: "'a list" and ids :: "uint8 list" and t
  assume ls: "ls \<noteq> []" "length ls \<le> 256" "length ops = length ls" "set ids \<subseteq> set (concat ls)"
    and lens: "\<forall>i < length ls. \<forall>e \<in> set (entries api (ops ! i)). length e = length (ls ! i)"
  let ?terms = "einsum_terms (zip ls (map (\<lambda>h. set (entries api h)) ops))"
  have "row_or_null \<sigma> ids = row_of \<sigma> ids" if "\<sigma> \<in> ?terms" for \<sigma>
    using terms_dom_labels [OF that] ls(3,4) by (intro row_or_null_row) simp
  then have rows: "{\<sigma> \<in> ?terms. row_or_null \<sigma> ids = k} = {\<sigma> \<in> ?terms. row_of \<sigma> ids = k}"
    "(\<lambda>\<sigma>. row_or_null \<sigma> ids) ` ?terms = (\<lambda>\<sigma>. row_of \<sigma> ids) ` ?terms" for k
    by auto
  show "(\<forall>es. evaluate api (join_graph ls) ops ids t = (es, None) \<longrightarrow>
           (\<forall>k. multiplicity es k = of_nat (card {\<sigma> \<in> ?terms. row_of \<sigma> ids = k}))) \<and>
        (\<forall>ks. evaluate_distinct api (join_graph ls) ops ids t = (ks, None) \<longrightarrow>
           distinct ks \<and> set ks = (\<lambda>\<sigma>. row_of \<sigma> ids) ` ?terms)"
    using assms [unfolded union_contract_def, rule_format, of "[ls]" ops ids t] ls lens
    by (simp add: union_graph_single rows Let_def)
qed

subsection \<open>A concrete evaluator\<close>

text \<open>An operand whose declaration is followed by an edge belongs to the component of the one before.\<close>

fun split_graph :: "odg_call list \<Rightarrow> uint8 list list list \<Rightarrow> uint8 list list list" where
  "split_graph [] acc = acc"
| "split_graph (AddOperand l # AddDependency a b x # cs) acc = split_graph cs (butlast acc @ [last acc @ [l]])"
| "split_graph (AddOperand l # cs) acc = split_graph cs (acc @ [ [l] ])"
| "split_graph (AddDependency a b x # cs) acc = split_graph cs acc"

fun union_joins :: "uint8 list list list \<Rightarrow> string node list list list \<Rightarrow> (uint8 \<rightharpoonup> string node) list" where
  "union_joins [] ops = []"
| "union_joins (ls # lss) ops = joins (zip ls (map remdups ops)) @ union_joins lss (drop (length ls) ops)"

definition union_trie :: "(string node list list, string) trie_api" where
  "union_trie = list_trie\<lparr>
     evaluate := (\<lambda>g ops ids t. (map (\<lambda>\<sigma>. (row_or_null \<sigma> ids, 1)) (union_joins (split_graph g []) ops), None)),
     evaluate_distinct := (\<lambda>g ops ids t. (remdups (map (\<lambda>\<sigma>. row_or_null \<sigma> ids) (union_joins (split_graph g []) ops)), None))\<rparr>"

definition edge_first :: "odg_call list \<Rightarrow> bool" where
  "edge_first cs \<longleftrightarrow> (case cs of AddDependency _ _ _ # _ \<Rightarrow> True | _ \<Rightarrow> False)"

lemma edge_first_simps [simp]: "\<not> edge_first []" "\<not> edge_first (AddOperand l # cs)" "edge_first (AddDependency a b x # cs)"
  by (simp_all add: edge_first_def)

lemma split_edges:
  "(\<And>c. c \<in> set cs \<Longrightarrow> \<exists>a b x. c = AddDependency a b x) \<Longrightarrow> split_graph (cs @ rest) acc = split_graph rest acc"
proof (induction cs)
  case (Cons c cs)
  then obtain a b x where "c = AddDependency a b x" by fastforce
  then show ?case using Cons by simp
qed simp

lemma split_new: "\<not> edge_first cs \<Longrightarrow> split_graph (AddOperand l # cs) acc = split_graph cs (acc @ [ [l] ])"
  by (cases cs; cases "hd cs") auto

lemma edges_link: "c \<in> set (link_at m ls k i) \<Longrightarrow> \<exists>a b x. c = AddDependency a b x"
  by (auto simp: link_at_def edge_pair_def split: option.splits)

lemma link_nonempty: "link_at m ls k i \<noteq> []"
proof -
  have "join_labels a b \<noteq> []" for a b
  proof -
    have "nub_acc {} (filter (\<lambda>v. v \<in> set b) a) \<noteq> []" if "set a \<inter> set b \<noteq> {}"
      using that set_nub_acc [of "{}" "filter (\<lambda>v. v \<in> set b) a"] by (auto simp del: set_nub_acc)
    then show ?thesis by (simp add: join_labels_def)
  qed
  then obtain x xs where "join_labels (ls ! k) (ls ! i) = x # xs" by (metis neq_Nil_conv)
  then show ?thesis by (simp add: link_at_def edge_pair_def split: option.split)
qed

lemma split_component:
  assumes "ls \<noteq> []" and "\<not> edge_first rest"
  shows "split_graph (component m ls @ rest) acc = split_graph rest (acc @ [ls])"
  using assms
proof (induction ls arbitrary: rest rule: rev_nonempty_induct)
  case (single l)
  then show ?case by (simp add: component_def split_new)
next
  case (snoc l ls)
  let ?links = "concat (map (link_at m (ls @ [l]) (length ls)) (rev [0..<length ls]))"
  have edges: "\<exists>a b x. c = AddDependency a b x" if "c \<in> set ?links" for c
    using that edges_link by auto
  obtain k where "length ls = Suc k" using snoc(1) by (cases ls) auto
  then have "?links \<noteq> []" using link_nonempty [of m "ls @ [l]" "length ls" k] by simp
  then obtain a b x es where links: "?links = AddDependency a b x # es"
    using edges by (metis list.set_intros(1) neq_Nil_conv)
  have "split_graph (component m (ls @ [l]) @ rest) acc = split_graph (AddOperand l # ?links @ rest) (acc @ [ls])"
    by (simp add: component_snoc snoc.IH)
  also have "\<dots> = split_graph (es @ rest) (acc @ [ls @ [l]])" by (simp add: links)
  also have "\<dots> = split_graph rest (acc @ [ls @ [l]])"
    by (rule split_edges) (use edges links in auto)
  finally show ?case .
qed

lemma union_graph_first: "\<not> edge_first (union_graph_from m lss)"
proof (induction lss arbitrary: m)
  case (Cons ls lss)
  show ?case
  proof (cases ls)
    case (Cons l ls')
    then have "component m ls = AddOperand l # tl (component m ls)"
      by (simp add: component_def upt_conv_Cons del: upt_Suc)
    then show ?thesis by (metis append_Cons edge_first_simps(2) union_graph_from.simps(2))
  qed (use Cons in simp)
qed simp

lemma split_union_graph: "[] \<notin> set lss \<Longrightarrow> split_graph (union_graph lss) [] = lss"
proof -
  have "split_graph (union_graph_from m lss) acc = acc @ lss" if "[] \<notin> set lss" for m acc
    using that by (induction lss arbitrary: m acc) (auto simp: split_component union_graph_first)
  then show "[] \<notin> set lss \<Longrightarrow> split_graph (union_graph lss) [] = lss" by (simp add: union_graph_def)
qed

lemma remdups_joins:
  "distinct (joins (zip ls (map remdups ops)))"
  "set (joins (zip ls (map remdups ops))) = einsum_terms (zip ls (map set ops))"
proof -
  have rels: "map (apsnd set) (zip ls (map remdups ops)) = zip ls (map set ops)"
    by (rule nth_equalityI) simp_all
  have "distinct es" if "(l, es) \<in> set (zip ls (map remdups ops))" for l es
    using that by (auto dest!: set_zip_rightD)
  then show "distinct (joins (zip ls (map remdups ops)))"
    "set (joins (zip ls (map remdups ops))) = einsum_terms (zip ls (map set ops))"
    using joins_exact [of "zip ls (map remdups ops)"] unfolding rels by blast+
qed

lemma multiplicity_append [simp]: "multiplicity (xs @ ys) k = multiplicity xs k + multiplicity ys k"
  by (simp add: multiplicity_def)

lemma union_joins_exact:
  "multiplicity (map (\<lambda>\<sigma>. (f \<sigma>, 1)) (union_joins lss ops)) k =
     of_nat (\<Sum>ts \<leftarrow> union_terms lss (map set ops). card {\<sigma> \<in> ts. f \<sigma> = k})"
  "set (union_joins lss ops) = (\<Union>ts \<in> set (union_terms lss (map set ops)). ts)"
proof (induction lss ops rule: union_joins.induct)
  case (2 ls lss ops)
  {
    case 1
    show ?case using 2 multiplicity_ones [OF remdups_joins(1), of f ls ops k] by (simp add: remdups_joins(2) drop_map)
  next
    case 2
    show ?case using "2.IH" by (simp add: remdups_joins(2) drop_map)
  }
qed (simp_all add: multiplicity_def)

lemma union_trie_contracts: "trie_contract union_trie" "union_contract union_trie" "einsum_contract union_trie"
proof -
  show "trie_contract union_trie"
    using list_trie_contract by (simp add: trie_contract_def union_trie_def)
  show union: "union_contract union_trie"
    unfolding union_contract_def Let_def
  proof (intro allI impI)
    fix lss :: "uint8 list list list" and ops :: "string node list list list" and ids :: "uint8 list" and t
    assume "[] \<notin> set lss"
    note split = split_union_graph [OF this]
    have rels: "map (\<lambda>h. set (entries union_trie h)) ops = map set ops"
      by (simp add: union_trie_def list_trie_def)
    show "(\<forall>es. evaluate union_trie (union_graph lss) ops ids t = (es, None) \<longrightarrow>
             (\<forall>k. multiplicity es k =
                of_nat (\<Sum>ts \<leftarrow> union_terms lss (map (\<lambda>h. set (entries union_trie h)) ops). card {\<sigma> \<in> ts. row_or_null \<sigma> ids = k}))) \<and>
          (\<forall>ks. evaluate_distinct union_trie (union_graph lss) ops ids t = (ks, None) \<longrightarrow>
             distinct ks \<and>
             set ks = (\<Union>ts \<in> set (union_terms lss (map (\<lambda>h. set (entries union_trie h)) ops)). (\<lambda>\<sigma>. row_or_null \<sigma> ids) ` ts))"
      unfolding rels
      by (auto simp: union_trie_def split union_joins_exact(1) union_joins_exact(2))
  qed
  show "einsum_contract union_trie" by (rule union_contract_einsum [OF union])
qed

subsection \<open>Answers of queries with unions\<close>

lemma count_terms_null:
  assumes "inj_on m U" and "patterns_vars tps \<subseteq> U" and "set vs \<subseteq> U"
  shows "card {\<sigma> \<in> einsum_terms (map (pattern_operand m T) tps). row_or_null \<sigma> (map m vs) = k} =
         card {\<mu> \<in> pattern_solutions T tps. row_or_null \<mu> vs = k}"
    and "(\<lambda>\<sigma>. row_or_null \<sigma> (map m vs)) ` einsum_terms (map (pattern_operand m T) tps) =
         (\<lambda>\<mu>. row_or_null \<mu> vs) ` pattern_solutions T tps"
proof -
  let ?V = "patterns_vars tps" and ?A = "einsum_terms (map (pattern_operand m T) tps)"
  note bij = name_ids_bij [OF inj_on_subset [OF assms(1,2)], of T]
  have row: "row_or_null (name_ids m ?V \<sigma>) vs = row_or_null \<sigma> (map m vs)" if \<sigma>: "\<sigma> \<in> ?A" for \<sigma>
  proof -
    have dom: "dom \<sigma> = m ` ?V" using \<sigma> terms_dom [of \<sigma> m T tps] by (simp add: einsum_terms_def)
    have "name_ids m ?V \<sigma> v = \<sigma> (m v)" if "v \<in> set vs" for v
    proof (cases "v \<in> ?V")
      case False
      then have "m v \<notin> m ` ?V" using assms that by (auto simp: inj_on_def subset_iff)
      then have "\<sigma> (m v) = None" using dom by (metis domIff)
      then show ?thesis using False by (simp add: name_ids_def)
    qed (simp add: name_ids_def)
    then show ?thesis by (simp add: row_or_null_def)
  qed
  have "bij_betw (name_ids m ?V) {\<sigma> \<in> ?A. row_or_null \<sigma> (map m vs) = k} {\<mu> \<in> pattern_solutions T tps. row_or_null \<mu> vs = k}"
    by (rule bij_betw_subset [OF bij]) (auto simp: row dest: bij_betwE [OF bij, rule_format] simp flip: bij_betw_imp_surj_on [OF bij])
  then show "card {\<sigma> \<in> ?A. row_or_null \<sigma> (map m vs) = k} = card {\<mu> \<in> pattern_solutions T tps. row_or_null \<mu> vs = k}"
    by (rule bij_betw_same_card)
  show "(\<lambda>\<sigma>. row_or_null \<sigma> (map m vs)) ` ?A = (\<lambda>\<mu>. row_or_null \<mu> vs) ` pattern_solutions T tps"
    unfolding bij_betw_imp_surj_on [OF bij, symmetric] image_image using row by (intro image_cong) simp_all
qed

lemma union_terms_blocks:
  "union_terms (map (map f) pss) (map g (concat pss)) = map (\<lambda>ps. einsum_terms (zip (map f ps) (map g ps))) pss"
  by (induction pss) (simp_all add: zip_append2)

text \<open>The triple patterns of a triples block, for blocks that the visitor accepts.\<close>

definition block_triples :: "'l sparql_api \<Rightarrow> (string \<times> string) list \<Rightarrow> triples_block_ctx \<Rightarrow> 'l triple_pattern list" where
  "block_triples api prefs t = (case block_patterns api prefs t of Inl _ \<Rightarrow> [] | Inr ps \<Rightarrow> ps)"

lemma concat_block_triples:
  "concat_res (block_patterns api prefs) t = Inr ps \<Longrightarrow> concat (map (block_triples api prefs) t) = ps"
proof (induction t arbitrary: ps)
  case (Cons a t)
  then obtain x y where "block_patterns api prefs a = Inr x" "concat_res (block_patterns api prefs) t = Inr y" "ps = x @ y"
    by (cases "concat_res (block_patterns api prefs) t") (auto simp: bind_res_Inr_iff)
  with Cons.IH show ?case by (simp add: block_triples_def)
qed simp

lemma leaf_block_triples:
  "map (concat_res (block_patterns api prefs)) ts = map Inr pss \<Longrightarrow>
   map (\<lambda>t. concat (map (block_triples api prefs) t)) ts = pss"
  by (induction ts arbitrary: pss) (auto simp: concat_block_triples Cons_eq_map_conv)

lemma count_sum_list: "count (\<Sum>x \<leftarrow> xs. f x) k = (\<Sum>x \<leftarrow> xs. count (f x) k)"
  by (induction xs) simp_all

lemma image_sum_list: "image_mset f (\<Sum>x \<leftarrow> xs. g x) = (\<Sum>x \<leftarrow> xs. image_mset f (g x))"
  by (induction xs) simp_all

lemma set_sum_list: "set_mset (\<Sum>x \<leftarrow> xs. g x) = (\<Union>x \<in> set xs. set_mset (g x))"
  by (induction xs) simp_all

lemma count_bgp_image:
  assumes "finite T"
  shows "count (image_mset f (bgp T ps)) k = card {\<mu> \<in> pattern_solutions T ps. f \<mu> = k}"
  using count_image_filter [OF finite_solutions [OF assms], where P = "\<lambda>_. True"] by (simp add: bgp_def)

text \<open>
  The rows of a query without optional patterns are counted as the algebra of SPARQL says, with unbound
  variables null, provided every conjunctive leaf has a triple pattern.
\<close>

lemma union_multiplicity:
  assumes parse: "sparql_parse papi ctx = Inr q" and "odg_contract papi" and "length (triple_patterns q) \<le> 256"
    and "selectQuery ctx = Some sc" and "select_whereClause sc = Some w"
    and "groupGraphPatternSub w = Some c" and "no_optional c"
    and full: "\<And>t. t \<in> set (leaf_blocks c) \<Longrightarrow> concat_res (block_patterns papi (prefixes q)) t \<noteq> Inr []"
    and few: "card (dom (var_to_id q)) \<le> 256"
    and proj: "set (projected_variables q) \<subseteq> patterns_vars (triple_patterns q)"
    and trie: "trie_contract api" and contract: "union_contract api"
    and eval: "eval_select api h q endtime = (es, None)"
    and some: "triple_patterns q \<noteq> []"
  shows "multiplicity es row =
     (let solutions = group_solutions (set (entries api h)) (block_triples papi (prefixes q)) (Some c);
          answers = image_mset (\<lambda>\<mu>. row_or_null \<mu> (projected_variables q)) solutions
      in if distinct_flag q
         then (if row \<in># answers then default_entry_value api else 0)
         else of_nat (count answers row))"
proof -
  let ?m = "\<lambda>v. the (var_to_id q v)" and ?tps = "triple_patterns q" and ?vs = "projected_variables q"
  let ?ids = "map ?m ?vs" and ?T = "set (entries api h)" and ?ls = "operands (odg q)"
  define lab :: "'a triple_pattern \<Rightarrow> uint8 list" where "lab = (\<lambda>tp. map ?m (pattern_vars tp))"
  obtain pss where pss: "map (concat_res (block_patterns papi (prefixes q))) (leaf_blocks c) = map Inr pss"
    "?tps = concat pss" "odg q = union_graph (map (map lab) pss)"
    using parse_union_graph [OF assms(1-7)] unfolding lab_def by blast
  have "[] \<notin> set pss"
  proof
    assume "[] \<in> set pss"
    then have "Inr [] \<in> concat_res (block_patterns papi (prefixes q)) ` set (leaf_blocks c)"
      using arg_cong [OF pss(1), of set] by auto
    then show False using full by (metis imageE)
  qed
  then have comps: "map (map lab) pss \<noteq> []" "[] \<notin> set (map (map lab) pss)"
    using some pss(2) by auto
  obtain ops where ops: "generate_operands api h (get_slice_keys q) = Inr ops" "length ops = length ?tps"
    "length ops = length ?ls" and run: "eval_select api h q endtime =
      (if distinct_flag q
       then map_prod (distinct_entries (default_entry_value api) (replicate (length ?ids) NullNode)) id
              (evaluate_distinct api (odg q) ops ?ids endtime)
       else evaluate api (odg q) ops ?ids endtime)"
    using eval_select_calls [OF parse trie, of h endtime] unfolding Let_def by blast
  note parsed = parsed_operands [OF parse trie ops(1,2)]
  have ls: "?ls = concat (map (map lab) pss)" by (simp add: pss(3))
  have vars: "patterns_vars ?tps \<subseteq> dom (var_to_id q)"
    using parse_covered [OF parse] by (auto simp: query_covered_def patterns_vars_def)
  have "inj_on (var_to_id q) (dom (var_to_id q))" using variable_ids_inj [OF parse] few by simp
  then have inj: "inj_on ?m (dom (var_to_id q))" by (auto simp: inj_on_def dom_def)
  have "set ?ids \<subseteq> set (concat ?ls)"
  proof -
    have "set (concat ?ls) = ?m ` patterns_vars ?tps" by (auto simp: ls pss(2) lab_def patterns_vars_def)
    then show ?thesis using image_mono [OF proj, of ?m] by simp
  qed
  moreover have "\<forall>i < length ops. \<forall>e \<in> set (entries api (ops ! i)). length e = length (?ls ! i)"
    using parsed(2) by simp
  ultimately have pre: "set ?ids \<subseteq> set (concat (concat (map (map lab) pss)))"
    "\<forall>i < length ops. \<forall>e \<in> set (entries api (ops ! i)). length e = length (concat (map (map lab) pss) ! i)"
    "length (concat (map (map lab) pss)) \<le> 256" "length ops = length (concat (map (map lab) pss))"
    using ops(2,3) assms(3) by (simp_all only: ls)
  note both = contract [unfolded union_contract_def Let_def, rule_format, OF comps pre(3,4,1), of endtime, OF pre(2) [rule_format]]
  note exact = both [THEN conjunct1] both [THEN conjunct2]
  have rels: "map (\<lambda>h. set (entries api h)) ops = map (snd \<circ> pattern_operand ?m ?T) (concat pss)"
  proof -
    have "map snd (zip ?ls (map (\<lambda>h. set (entries api h)) ops)) = map (\<lambda>h. set (entries api h)) ops"
      using ops(3) by simp
    then show ?thesis unfolding parsed(1) pss(2) map_map by (rule sym)
  qed
  have "zip (map lab ps) (map (snd \<circ> pattern_operand ?m ?T) ps) = map (pattern_operand ?m ?T) ps" for ps
    by (rule nth_equalityI) (auto simp: lab_def pattern_operand_def Let_def prod_eq_iff)
  then have terms: "union_terms (map (map lab) pss) (map (\<lambda>h. set (entries api h)) ops) =
      map (\<lambda>ps. einsum_terms (map (pattern_operand ?m ?T) ps)) pss"
    unfolding rels union_terms_blocks by simp
  have sub: "patterns_vars ps \<subseteq> dom (var_to_id q)" if "ps \<in> set pss" for ps
    using vars that by (auto simp: pss(2) patterns_vars_def)
  have "set ?vs \<subseteq> dom (var_to_id q)" using proj vars by blast
  note count = count_terms_null [OF inj sub this, of _ ?T]
  have fin: "finite ?T" by simp
  have answers: "image_mset (\<lambda>\<mu>. row_or_null \<mu> ?vs) (group_solutions ?T (block_triples papi (prefixes q)) (Some c)) =
      (\<Sum>ps \<leftarrow> pss. image_mset (\<lambda>\<mu>. row_or_null \<mu> ?vs) (bgp ?T ps))"
    unfolding group_solutions_leaves [OF fin assms(7)] image_sum_list leaf_block_triples [OF pss(1), symmetric]
    by (simp add: comp_def)
  show ?thesis
  proof (cases "distinct_flag q")
    case True
    obtain ks where ks: "evaluate_distinct api (odg q) ops ?ids endtime = (ks, None)"
      "es = distinct_entries (default_entry_value api) (replicate (length ?ids) NullNode) ks"
      using run True eval by (cases "evaluate_distinct api (odg q) ops ?ids endtime") auto
    then have "distinct ks" "set ks = (\<Union>ps \<in> set pss. (\<lambda>\<sigma>. row_or_null \<sigma> ?ids) ` einsum_terms (map (pattern_operand ?m ?T) ps))"
      using exact(2) unfolding pss(3) [symmetric] terms by auto
    then have set_ks: "distinct ks" "set ks = (\<Union>ps \<in> set pss. (\<lambda>\<mu>. row_or_null \<mu> ?vs) ` pattern_solutions ?T ps)"
      using count(2) by (simp_all cong: SUP_cong)
    moreover have "es = map (\<lambda>k. (k, default_entry_value api)) ks"
      unfolding ks(2) by (intro distinct_entries_exact) (auto simp: row_or_null_def set_ks(2))
    moreover have "row \<in># image_mset (\<lambda>\<mu>. row_or_null \<mu> ?vs) (group_solutions ?T (block_triples papi (prefixes q)) (Some c)) \<longleftrightarrow>
        row \<in> set ks"
      unfolding answers set_ks(2) by (simp add: set_sum_list bgp_def finite_solutions)
    ultimately show ?thesis
      using True by (simp only: multiplicity_distinct Let_def if_True)
  next
    case False
    then have "evaluate api (odg q) ops ?ids endtime = (es, None)" using run eval by simp
    then have "multiplicity es row = of_nat (\<Sum>ps \<leftarrow> pss. card {\<sigma> \<in> einsum_terms (map (pattern_operand ?m ?T) ps). row_or_null \<sigma> ?ids = row})"
      using exact(1) unfolding pss(3) [symmetric] terms by (simp add: comp_def)
    also have "(\<Sum>ps \<leftarrow> pss. card {\<sigma> \<in> einsum_terms (map (pattern_operand ?m ?T) ps). row_or_null \<sigma> ?ids = row}) =
        (\<Sum>ps \<leftarrow> pss. card {\<mu> \<in> pattern_solutions ?T ps. row_or_null \<mu> ?vs = row})"
      using count(1) by (intro arg_cong [where f = sum_list] map_cong) auto
    finally show ?thesis
      using False by (simp add: answers count_sum_list count_bgp_image [OF fin] Let_def del: group_solutions.simps)
  qed
qed

end
