(* ===== verification/Endpoints.thy ===== *)
theory Endpoints
  imports Lru_Cache Json_Writer Store_Evaluation
begin

text \<open>
  The HTTP endpoints (\<open>libs/endpoint\<close>): \<open>/sparql\<close>, \<open>/stream\<close> and \<open>/count\<close>, the dispatch of requests to
  worker tasks, and the server's start-up.

  A handler is a function from the request, the deadline, the time it reads and the shared query cache
  to the calls it makes on the HTTP library, the exception that leaves it, if one does, and the cache
  left behind. The libraries it uses, and the store, are the record \<open>server\<close>. Logging is left out.
\<close>

subsection \<open>The libraries, requests and responses\<close>

record ('h, 'l) server =
  sparql_lib :: "'l sparql_api"
  parse_tree :: "string \<Rightarrow> query_ctx"
  trie_lib :: "('h, 'l) trie_api"
  tensor :: 'h
  literal_lib :: "'l literal_api"
  json_text :: json_emit
  parse_query :: "string \<Rightarrow> exn + (string \<times> string) list"
  runtime_library_error :: "string \<Rightarrow> bool"
  format_count :: "size_t \<Rightarrow> string"
  format_duration :: "time \<Rightarrow> string"

record http_request =
  header_query :: string

datatype http_action =
    Respond nat "(string \<times> string) list" string bool
  | StartChunked "(string \<times> string) list"
  | AppendChunk string
  | Flush
  | DoneChunked

type_synonym 'l query_cache = "(string, 'l sparql_query) lru_cache"

text \<open>What \<open>catch (std::runtime_error const &)\<close> catches.\<close>

fun is_runtime_error :: "('h, 'l) server \<Rightarrow> exn \<Rightarrow> bool" where
  "is_runtime_error srv (RuntimeError _) = True"
| "is_runtime_error srv (LibraryError msg) = runtime_library_error srv msg"
| "is_runtime_error srv _ = False"

definition results_header :: "(string \<times> string) list" where
  "results_header = [(''Content-Type'', ''application/sparql-results+json'')]"

subsection \<open>Parsing the query parameter\<close>

definition parse_value :: "('h, 'l) server \<Rightarrow> string \<Rightarrow> exn + 'l sparql_query" where
  "parse_value srv = parse_string (sparql_lib srv) (parse_tree srv)"

text \<open>The result \<open>Inr None\<close> is the null pointer: the request has been answered.\<close>

definition parse_sparql_query_param ::
  "('h, 'l) server \<Rightarrow> http_request option \<Rightarrow> 'l query_cache \<Rightarrow>
   (http_action list \<times> (exn + 'l sparql_query option)) \<times> 'l query_cache" where
  "parse_sparql_query_param srv req qc =
     (case req of
        None \<Rightarrow> (([], Inl NullDeref), qc)
      | Some r \<Rightarrow>
          (case parse_query srv (header_query r) of
             Inl e \<Rightarrow> (([], Inl e), qc)
           | Inr qp \<Rightarrow>
               (case map_of qp ''query'' of
                  None \<Rightarrow> (([Respond 400 [] ''Query parameter 'query' is missing.'' False], Inr None), qc)
                | Some sparql_query_str \<Rightarrow>
                    (case lru_get (parse_value srv) sparql_query_str qc of
                       (Inr q, qc') \<Rightarrow> (([], Inr (Some q)), qc')
                     | (Inl e, qc') \<Rightarrow>
                         if is_std_exception e
                         then (([Respond 400 [] ''Value of query parameter 'query' is not parsable.'' False], Inr None), qc')
                         else (([], Inl e), qc')))))"

definition check_timeout :: "time \<Rightarrow> time \<Rightarrow> exn + unit" where
  "check_timeout timeout now = (if timeout \<le> now then Inl (RuntimeError ''timeout reached'') else Inr ())"

subsection \<open>The three handlers\<close>

definition with_query ::
  "('h, 'l) server \<Rightarrow> http_request option \<Rightarrow> 'l query_cache \<Rightarrow>
   ('l sparql_query \<Rightarrow> http_action list \<times> exn option) \<Rightarrow>
   (http_action list \<times> exn option) \<times> 'l query_cache" where
  "with_query srv req qc body =
     (case parse_sparql_query_param srv req qc of
        ((acts, Inl e), qc') \<Rightarrow> ((acts, Some e), qc')
      | ((acts, Inr None), qc') \<Rightarrow> ((acts, None), qc')
      | ((acts, Inr (Some q)), qc') \<Rightarrow> (body q, qc'))"

definition sparql_body ::
  "('h, 'l) server \<Rightarrow> time \<Rightarrow> time \<Rightarrow> 'l sparql_query \<Rightarrow> http_action list \<times> exn option" where
  "sparql_body srv timeout now q =
     (if ask_flag q
      then (case eval_ask (trie_lib srv) (tensor srv) q timeout of
              Inl e \<Rightarrow> ([], Some e)
            | Inr ask_res \<Rightarrow>
                ([Respond 200 results_header
                    (''{ \"head\" : {}, \"boolean\" : '' @ (if ask_res then ''true'' else ''false'') @ '' }'') False], None))
      else
        (case eval_select (trie_lib srv) (tensor srv) q timeout of
           (es, err) \<Rightarrow>
             (case mfold (json_add (json_text srv) (literal_lib srv)) es
                     (json_writer_new (json_text srv) (projected_variables q) 100000) of
                Inl e \<Rightarrow> ([], Some e)
              | Inr w \<Rightarrow>
                  (case err of
                     Some e \<Rightarrow> ([], Some e)
                   | None \<Rightarrow>
                       (let w' = json_close (json_text srv) w in
                        case check_timeout timeout now of
                          Inl e \<Rightarrow> ([], Some e)
                        | Inr _ \<Rightarrow> ([Respond 200 results_header (string_view w') False], None))))))"

text \<open>
  The loop of the streaming handler. Flushing is asynchronous: \<open>failed k\<close> is whether, after the flush
  number \<open>k\<close>, its call-back has reported a failed write by the time the flag is read. The result is
  \<open>Inr None\<close> if the handler returned because of that.
\<close>

fun stream_entries ::
  "json_emit \<Rightarrow> 'l literal_api \<Rightarrow> (nat \<Rightarrow> bool) \<Rightarrow> nat \<Rightarrow> ('l node list \<times> size_t) list \<Rightarrow> json_writer \<Rightarrow>
   http_action list \<times> (exn + json_writer option)" where
  "stream_entries emit api failed k [] w = ([], Inr (Some w))"
| "stream_entries emit api failed k (e # es) w =
     (case json_add emit api e w of
        Inl x \<Rightarrow> ([], Inl x)
      | Inr w1 \<Rightarrow>
          if json_full w1
          then (if failed k then ([AppendChunk (string_view w1), Flush], Inr None)
                else (case stream_entries emit api failed (Suc k) es (json_clear w1) of
                        (acts, r) \<Rightarrow> (AppendChunk (string_view w1) # Flush # acts, r)))
          else stream_entries emit api failed k es w1)"

definition stream_body ::
  "('h, 'l) server \<Rightarrow> (nat \<Rightarrow> bool) \<Rightarrow> time \<Rightarrow> 'l sparql_query \<Rightarrow> http_action list \<times> exn option" where
  "stream_body srv failed timeout q =
     (case eval_select (trie_lib srv) (tensor srv) q timeout of
        (es, err) \<Rightarrow>
          (case stream_entries (json_text srv) (literal_lib srv) failed 0 es
                  (json_writer_new (json_text srv) (projected_variables q) 100000) of
             (acts, Inl e) \<Rightarrow> (StartChunked results_header # acts, Some e)
           | (acts, Inr None) \<Rightarrow> (StartChunked results_header # acts, None)
           | (acts, Inr (Some w)) \<Rightarrow>
               (case err of
                  Some e \<Rightarrow> (StartChunked results_header # acts, Some e)
                | None \<Rightarrow>
                    (StartChunked results_header # acts @
                       [AppendChunk (string_view (json_close (json_text srv) w)), DoneChunked], None))))"

definition count_body :: "('h, 'l) server \<Rightarrow> time \<Rightarrow> 'l sparql_query \<Rightarrow> http_action list \<times> exn option" where
  "count_body srv timeout q =
     (case count_solutions (trie_lib srv) (tensor srv) q timeout of
        Inl e \<Rightarrow> ([], Some e)
      | Inr count \<Rightarrow> ([Respond 200 [] (format_count srv count) False], None))"

datatype endpoint_kind = SPARQLEndpoint | SPARQLStreamingEndpoint | CountEndpoint

text \<open>The virtual \<open>handle_query\<close>. What the environment decides is one record: the clock and failed writes.\<close>

record environment =
  clock_now :: time
  write_failed :: "nat \<Rightarrow> bool"

definition handle_query ::
  "('h, 'l) server \<Rightarrow> endpoint_kind \<Rightarrow> environment \<Rightarrow> http_request option \<Rightarrow> time \<Rightarrow> 'l query_cache \<Rightarrow>
   (http_action list \<times> exn option) \<times> 'l query_cache" where
  "handle_query srv kind env req timeout qc =
     with_query srv req qc
       (case kind of
          SPARQLEndpoint \<Rightarrow> sparql_body srv timeout (clock_now env)
        | SPARQLStreamingEndpoint \<Rightarrow> stream_body srv (write_failed env) timeout
        | CountEndpoint \<Rightarrow> count_body srv timeout)"

subsection \<open>Dispatch\<close>

record endpoint_cfg =
  port :: "16 word"
  threads :: "16 word"
  opt_timeout_duration :: "time option"

text \<open>\<open>time_point::max()\<close> of a 64-bit signed clock.\<close>

definition time_max :: time where
  "time_max = 2 ^ 63 - 1"

definition request_deadline :: "endpoint_cfg \<Rightarrow> time \<Rightarrow> time" where
  "request_deadline cfg now = (case opt_timeout_duration cfg of Some d \<Rightarrow> now + d | None \<Rightarrow> time_max)"

text \<open>
  Moving a \<open>shared_ptr\<close> leaves the source empty. \<open>handle_query\<close> takes its request by value, so
  \<open>std::move(req)\<close> in the task empties the captured handle before the handler runs.
\<close>

definition move_from :: "'a option \<Rightarrow> 'a option \<times> 'a option" where
  "move_from p = (p, None)"

definition run_task ::
  "('h, 'l) server \<Rightarrow> endpoint_kind \<Rightarrow> endpoint_cfg \<Rightarrow> environment \<Rightarrow> http_request option \<Rightarrow> time \<Rightarrow>
   'l query_cache \<Rightarrow> (http_action list \<times> exn option) \<times> 'l query_cache" where
  "run_task srv kind cfg env req timeout qc =
     (case move_from req of
        (arg, req') \<Rightarrow>
          (case handle_query srv kind env arg timeout qc of
             ((acts, None), qc') \<Rightarrow> ((acts, None), qc')
           | ((acts, Some e), qc') \<Rightarrow>
               if is_runtime_error srv e
               then (case opt_timeout_duration cfg of
                       None \<Rightarrow> ((acts, Some BadOptionalAccess), qc')
                     | Some d \<Rightarrow>
                         (let timeout_message = ''Request processing timed out after '' @ format_duration srv d @ ''.'' in
                          case req' of
                            None \<Rightarrow> ((acts, Some NullDeref), qc')
                          | Some _ \<Rightarrow> ((acts @ [Respond 504 [] timeout_message True], None), qc')))
               else ((acts, Some e), qc')))"

datatype request_status = Accepted | Rejected

definition endpoint_call ::
  "('h, 'l) server \<Rightarrow> endpoint_kind \<Rightarrow> endpoint_cfg \<Rightarrow> nat \<Rightarrow> nat \<Rightarrow> time \<Rightarrow> environment \<Rightarrow> http_request \<Rightarrow>
   'l query_cache \<Rightarrow> request_status \<times> (http_action list \<times> exn option) \<times> 'l query_cache" where
  "endpoint_call srv kind cfg num_topologies num_workers arrival env req qc =
     (let timeout = request_deadline cfg arrival in
      if num_topologies < num_workers
      then (Accepted, run_task srv kind cfg env (Some req) timeout qc)
      else (Rejected, ([], None), qc))"

text \<open>The routes, in the order they are registered; how a path matches a route is the library's.\<close>

definition routes :: "(string \<times> endpoint_kind) list" where
  "routes = [(''/sparql'', SPARQLEndpoint), (''/stream'', SPARQLStreamingEndpoint), (''/count'', CountEndpoint)]"

definition http_route :: "(string \<Rightarrow> string \<Rightarrow> bool) \<Rightarrow> string \<Rightarrow> string \<Rightarrow> endpoint_kind + http_action" where
  "http_route matches http_method path =
     (case if http_method = ''GET'' then find (\<lambda>r. matches (fst r) path) routes else None of
        Some r \<Rightarrow> Inl (snd r)
      | None \<Rightarrow> Inr (Respond 404 [] [] True))"

definition pool_size :: "endpoint_cfg \<Rightarrow> nat" where
  "pool_size cfg = max 4 (unat (threads cfg) div 4)"

end
