(* ===== verification/Endpoint_Behaviour.thy ===== *)
theory Endpoint_Behaviour
  imports Endpoints
begin

text \<open>
  What the endpoints guarantee: the answer of a request depends on the request and the store only, never
  on what the query cache holds; \<open>/sparql\<close> answers with the JSON document of the solutions; \<open>/stream\<close>
  sends the same text in chunks; malformed requests get status 400. And what they do not do: a request
  that times out is never answered, and no ASK query is ever evaluated as one.
\<close>

subsection \<open>Parsing the query parameter\<close>

definition cache_good :: "('h, 'l) server \<Rightarrow> 'l query_cache \<Rightarrow> bool" where
  "cache_good srv qc \<longleftrightarrow> lru_good (parse_value srv) qc"

text \<open>The parameter, without a cache.\<close>

definition param_result ::
  "('h, 'l) server \<Rightarrow> http_request option \<Rightarrow> http_action list \<times> (exn + 'l sparql_query option)" where
  "param_result srv req =
     (case req of
        None \<Rightarrow> ([], Inl NullDeref)
      | Some r \<Rightarrow>
          (case parse_query srv (header_query r) of
             Inl e \<Rightarrow> ([], Inl e)
           | Inr qp \<Rightarrow>
               (case map_of qp ''query'' of
                  None \<Rightarrow> ([Respond 400 [] ''Query parameter 'query' is missing.'' False], Inr None)
                | Some str \<Rightarrow>
                    (case parse_value srv str of
                       Inr q \<Rightarrow> ([], Inr (Some q))
                     | Inl e \<Rightarrow>
                         if is_std_exception e
                         then ([Respond 400 [] ''Value of query parameter 'query' is not parsable.'' False], Inr None)
                         else ([], Inl e)))))"

lemma param_good:
  assumes "cache_good srv qc"
  shows "fst (parse_sparql_query_param srv req qc) = param_result srv req \<and>
         cache_good srv (snd (parse_sparql_query_param srv req qc))"
proof -
  have get: "\<exists>qc'. lru_get (parse_value srv) str qc = (parse_value srv str, qc') \<and> cache_good srv qc'" for str
    using assms lru.get_answer [of "parse_value srv" qc str] lru.get_good [of "parse_value srv" qc str]
    unfolding cache_good_def by (metis prod.collapse)
  show ?thesis
  proof (cases "\<exists>r qp str. req = Some r \<and> parse_query srv (header_query r) = Inr qp \<and> map_of qp ''query'' = Some str")
    case True
    then obtain r qp str where *: "req = Some r" "parse_query srv (header_query r) = Inr qp" "map_of qp ''query'' = Some str"
      by blast
    obtain qc' where "lru_get (parse_value srv) str qc = (parse_value srv str, qc')" "cache_good srv qc'"
      using get by blast
    with * show ?thesis
      by (cases "parse_value srv str") (simp_all add: parse_sparql_query_param_def param_result_def)
  next
    case False
    then show ?thesis
      using assms by (auto simp: parse_sparql_query_param_def param_result_def split: option.split sum.split)
  qed
qed

definition query_result ::
  "('h, 'l) server \<Rightarrow> http_request option \<Rightarrow> ('l sparql_query \<Rightarrow> http_action list \<times> exn option) \<Rightarrow>
   http_action list \<times> exn option" where
  "query_result srv req body =
     (case param_result srv req of
        (acts, Inl e) \<Rightarrow> (acts, Some e)
      | (acts, Inr None) \<Rightarrow> (acts, None)
      | (acts, Inr (Some q)) \<Rightarrow> body q)"

lemma with_query_good:
  assumes "cache_good srv qc"
  shows "fst (with_query srv req qc body) = query_result srv req body \<and>
         cache_good srv (snd (with_query srv req qc body))"
proof -
  obtain acts r qc' where p: "parse_sparql_query_param srv req qc = ((acts, r), qc')"
    by (metis prod.exhaust)
  with param_good [OF assms, of req] have "param_result srv req = (acts, r)" "cache_good srv qc'"
    by simp_all
  with p show ?thesis
    by (auto simp: with_query_def query_result_def split: sum.split option.split)
qed

subsection \<open>Serving requests, as an interface\<close>

text \<open>
  A request and everything else that decides how it is served: the endpoint it is routed to, how busy
  the workers are and what time it is when it arrives, and what the handler observes of its environment.
\<close>

record job =
  job_kind :: endpoint_kind
  job_topologies :: nat
  job_workers :: nat
  job_arrival :: time
  job_env :: environment
  job_request :: http_request

definition serve ::
  "('h, 'l) server \<Rightarrow> endpoint_cfg \<Rightarrow> job \<Rightarrow> 'l query_cache \<Rightarrow>
   (request_status \<times> http_action list \<times> exn option) \<times> 'l query_cache" where
  "serve srv cfg job qc =
     (case endpoint_call srv (job_kind job) cfg (job_topologies job) (job_workers job) (job_arrival job)
             (job_env job) (job_request job) qc of
        (status, r, qc') \<Rightarrow> ((status, r), qc'))"

definition handler_body ::
  "('h, 'l) server \<Rightarrow> endpoint_kind \<Rightarrow> environment \<Rightarrow> time \<Rightarrow> 'l sparql_query \<Rightarrow> http_action list \<times> exn option" where
  "handler_body srv kind env timeout =
     (case kind of
        SPARQLEndpoint \<Rightarrow> sparql_body srv timeout (clock_now env)
      | SPARQLStreamingEndpoint \<Rightarrow> stream_body srv (write_failed env) timeout
      | CountEndpoint \<Rightarrow> count_body srv timeout)"

text \<open>The answer to a request, without a cache. Every runtime error ends in one of two crashes.\<close>

definition task_outcome :: "('h, 'l) server \<Rightarrow> endpoint_cfg \<Rightarrow> http_action list \<times> exn option \<Rightarrow> http_action list \<times> exn option" where
  "task_outcome srv cfg r =
     (case r of
        (acts, None) \<Rightarrow> (acts, None)
      | (acts, Some e) \<Rightarrow>
          (acts, Some (if is_runtime_error srv e
                       then if opt_timeout_duration cfg = None then BadOptionalAccess else NullDeref
                       else e)))"

definition task_answer :: "('h, 'l) server \<Rightarrow> endpoint_cfg \<Rightarrow> job \<Rightarrow> http_action list \<times> exn option" where
  "task_answer srv cfg job =
     task_outcome srv cfg
       (query_result srv (Some (job_request job))
         (handler_body srv (job_kind job) (job_env job) (request_deadline cfg (job_arrival job))))"

definition answer :: "('h, 'l) server \<Rightarrow> endpoint_cfg \<Rightarrow> job \<Rightarrow> request_status \<times> http_action list \<times> exn option" where
  "answer srv cfg job =
     (if job_topologies job < job_workers job then (Accepted, task_answer srv cfg job) else (Rejected, [], None))"

lemma handle_query_eq: "handle_query srv kind env req timeout qc = with_query srv req qc (handler_body srv kind env timeout)"
  by (simp add: handle_query_def handler_body_def)

lemma run_task_outcome:
  "run_task srv kind cfg env req timeout qc =
     map_prod (task_outcome srv cfg) id (handle_query srv kind env req timeout qc)"
  by (auto simp: run_task_def move_from_def task_outcome_def split: prod.split option.split)

lemma serve_good:
  assumes "cache_good srv qc"
  shows "fst (serve srv cfg job qc) = answer srv cfg job \<and> cache_good srv (snd (serve srv cfg job qc))"
proof -
  let ?body = "handler_body srv (job_kind job) (job_env job) (request_deadline cfg (job_arrival job))"
  obtain r qc' where "with_query srv (Some (job_request job)) qc ?body = (r, qc')"
    by (metis prod.exhaust)
  with with_query_good [OF assms, of "Some (job_request job)" ?body] show ?thesis
    using assms by (simp add: serve_def endpoint_call_def answer_def task_answer_def run_task_outcome
        handle_query_eq Let_def split: prod.split)
qed

interpretation requests: memo_cache "serve srv cfg" "answer srv cfg" "cache_good srv" for srv cfg
  by unfold_locales (simp_all add: serve_good)

lemma cache_good_new: "cache_good srv (lru_new m e)"
  by (simp add: cache_good_def lru_good_new)

text \<open>
  Requests do not influence each other through the shared query cache: whatever requests were served
  before, to whatever endpoint, and whatever the size of the cache, a request is answered as by a server
  that has just started.
\<close>

lemma answers_ignore_cache:
  "fst (cache_run (serve srv cfg) jobs (lru_new m e)) =
     map (\<lambda>job. fst (serve srv cfg job (lru_new 1000 100))) jobs"
proof -
  have "fst (serve srv cfg job (lru_new 1000 100)) = answer srv cfg job" for job
    by (rule requests.get_answer [OF cache_good_new])
  then show ?thesis by (simp add: requests.run_answers [OF cache_good_new])
qed

lemma served_answer:
  "fst (serve srv cfg job (snd (cache_run (serve srv cfg) jobs (lru_new m e)))) = answer srv cfg job"
  by (rule requests.get_answer [OF requests.run_good [OF cache_good_new]])

lemma parsed_not_ask: "parse_value srv str = Inr q \<Longrightarrow> \<not> ask_flag q"
  using parse_covered by (fastforce simp: parse_value_def parse_string_def query_covered_def)

lemma param_result_query:
  assumes "parse_query srv (header_query r) = Inr qp" and "map_of qp ''query'' = Some str" and "parse_value srv str = Inr q"
  shows "query_result srv (Some r) body = body q"
  using assms by (simp add: query_result_def param_result_def)

subsection \<open>Answering with the result document\<close>

definition result_text :: "('h, 'l) server \<Rightarrow> variable list \<Rightarrow> ('l node list \<times> size_t) list \<Rightarrow> string" where
  "result_text srv vs es =
     render_from (json_text srv) [] (json_events (results_json (literal_lib srv) (map var_name vs) (rows es)))"

lemma written_text:
  assumes "mfold (json_add (json_text srv) (literal_lib srv)) es (json_writer_new (json_text srv) vs n) = Inr w"
  shows "string_view (json_close (json_text srv) w) = result_text srv vs es"
  using assms
  by (auto simp: json_adds_eq json_writer_new_eq json_close_def string_view_def puts_eq result_text_def
      results_json_events render_from_append split: if_splits)

lemma printable_written:
  assumes "\<not> (\<exists>key \<in> set (rows es). unprintable (map var_name vs) key)"
  shows "\<exists>w. mfold (json_add emit api) es (json_writer_new emit vs n) = Inr w"
  using assms by (simp add: json_adds_eq json_writer_new_eq)

lemma sparql_body_answers:
  assumes "\<not> ask_flag q" and "eval_select (trie_lib srv) (tensor srv) q timeout = (es, None)"
    and "\<not> (\<exists>key \<in> set (rows es). unprintable (map var_name (projected_variables q)) key)" and "now < timeout"
  shows "sparql_body srv timeout now q =
           ([Respond 200 results_header (result_text srv (projected_variables q) es) False], None)"
proof -
  obtain w where "mfold (json_add (json_text srv) (literal_lib srv)) es
      (json_writer_new (json_text srv) (projected_variables q) 100000) = Inr w"
    using printable_written [OF assms(3)] by blast
  then show ?thesis
    using assms written_text by (simp add: sparql_body_def check_timeout_def Let_def)
qed

text \<open>
  C16. A query to \<open>/sparql\<close> that parses and evaluates before its deadline is answered with status 200 and
  the text of the JSON document of its solutions, over the projected variables in order, whatever was
  asked of the server before.
\<close>

theorem sparql_request_answered:
  assumes "job_kind job = SPARQLEndpoint" and "job_topologies job < job_workers job"
    and "parse_query srv (header_query (job_request job)) = Inr qp" and "map_of qp ''query'' = Some str"
    and "parse_value srv str = Inr q"
    and "eval_select (trie_lib srv) (tensor srv) q (request_deadline cfg (job_arrival job)) = (es, None)"
    and "\<not> (\<exists>key \<in> set (rows es). unprintable (map var_name (projected_variables q)) key)"
    and "clock_now (job_env job) < request_deadline cfg (job_arrival job)"
  shows "fst (serve srv cfg job (snd (cache_run (serve srv cfg) jobs (lru_new m e)))) =
           (Accepted,
            [Respond 200 results_header
               (render_from (json_text srv) [] (json_events
                  (results_json (literal_lib srv) (map var_name (projected_variables q)) (rows es)))) False], None)"
  using sparql_body_answers [OF parsed_not_ask [OF assms(5)] assms(6-8)] assms(1,2)
  by (simp add: served_answer answer_def task_answer_def param_result_query [OF assms(3-5)] handler_body_def
      task_outcome_def result_text_def)

text \<open>A server on an empty store whose evaluator knows one solution, of multiplicity two.\<close>

definition sample_server :: "(string node list list, string) server" where
  "sample_server =
     \<lparr>sparql_lib = sample_api, parse_tree = (\<lambda>str. if str = [] then QueryCtx None None None else sample_query),
      trie_lib = list_trie\<lparr>evaluate := (\<lambda>_ _ _ _. ([([IRI ''i'', NullNode], 2)], None))\<rparr>, tensor = [],
      literal_lib = string_literals, json_text = (\<lambda>_ _. ''#''), parse_query = (\<lambda>str. Inr [(''query'', str)]),
      runtime_library_error = (\<lambda>_. False), format_count = (\<lambda>_. ''''), format_duration = (\<lambda>_. '''')\<rparr>"

definition sample_cfg :: endpoint_cfg where
  "sample_cfg = \<lparr>port = 9080, threads = 8, opt_timeout_duration = Some 180\<rparr>"

definition sample_job :: "endpoint_kind \<Rightarrow> string \<Rightarrow> time \<Rightarrow> job" where
  "sample_job kind str now =
     \<lparr>job_kind = kind, job_topologies = 0, job_workers = 8, job_arrival = 0,
      job_env = \<lparr>clock_now = now, write_failed = (\<lambda>_. False)\<rparr>, job_request = \<lparr>header_query = str\<rparr>\<rparr>"

lemmas sample_server_defs = sample_server_def sample_cfg_def sample_job_def request_deadline_def

lemma sample_parse_value: "parse_value sample_server ''q'' = Inr sample_result"
  by (simp add: parse_value_def parse_string_def sample_server_def sample_parse)

lemma sample_select:
  "eval_select (trie_lib sample_server) (tensor sample_server) sample_result t = ([([IRI ''i'', NullNode], 2)], None)"
  by (simp add: eval_select_def sample_server_def sample_result_def list_trie_def generate_operands_def
      get_slice_keys_def generate_operand_def get_trie_def get_fixed_depth_def proj_vars_id_def Let_def)

theorem sparql_request_answered_witness:
  "\<exists>body. fst (serve sample_server sample_cfg (sample_job SPARQLEndpoint ''q'' 5) (lru_new 1000 100)) =
            (Accepted, [Respond 200 results_header body False], None)"
proof -
  have printable: "\<not> (\<exists>key \<in> set (rows [([IRI ''i'', NullNode], 2)]).
      unprintable (map var_name (projected_variables sample_result)) (key :: string node list))"
    by (auto simp: sample_result_def unprintable_def bound_def Let_def)
  show ?thesis
    using sparql_request_answered [of "sample_job SPARQLEndpoint ''q'' 5" sample_server "[(''query'', ''q'')]" "''q''"
        sample_result sample_cfg "[([IRI ''i'', NullNode], 2)]" "[]" 1000 100]
      printable sample_parse_value sample_select
    by (simp add: sample_cfg_def sample_job_def request_deadline_def) (simp add: sample_server_def)
qed

subsection \<open>Malformed requests\<close>

lemma std_exception_runtime: "is_runtime_error srv e \<Longrightarrow> is_std_exception e"
  by (cases e) simp_all

text \<open>
  C29. What becomes of an admitted request, at any endpoint and whatever was asked before, if it is malformed. Without a
  query parameter, and with a query whose parsing throws a standard exception, it is answered with status 400 and the
  text that names the cause, and the server goes on. In two cases it is not answered and the process ends with an
  exception: if the query string of the URL cannot be taken apart, and if parsing the query ends in undefined behaviour,
  such as the dereference of a null pointer. Otherwise the outcome is that of the handler of the endpoint.
\<close>

theorem bad_requests_answered:
  assumes "job_topologies job < job_workers job"
  shows "fst (serve srv cfg job (snd (cache_run (serve srv cfg) jobs (lru_new m e)))) =
           (case parse_query srv (header_query (job_request job)) of
              Inl x \<Rightarrow> (Accepted, [], Some (if is_runtime_error srv x
                                     then if opt_timeout_duration cfg = None then BadOptionalAccess else NullDeref
                                     else x))
            | Inr qp \<Rightarrow>
                (case map_of qp ''query'' of
                   None \<Rightarrow> (Accepted, [Respond 400 [] ''Query parameter 'query' is missing.'' False], None)
                 | Some str \<Rightarrow>
                     (case parse_value srv str of
                        Inl x \<Rightarrow>
                          if is_std_exception x
                          then (Accepted, [Respond 400 [] ''Value of query parameter 'query' is not parsable.'' False], None)
                          else (Accepted, [], Some x)
                      | Inr q \<Rightarrow>
                          (Accepted, task_outcome srv cfg
                             (handler_body srv (job_kind job) (job_env job) (request_deadline cfg (job_arrival job)) q)))))"
  using assms std_exception_runtime
  by (auto simp: served_answer answer_def task_answer_def query_result_def param_result_def task_outcome_def
      split: sum.split option.split)

theorem bad_requests_answered_witness:
  "fst (serve sample_server sample_cfg (sample_job CountEndpoint '''' 5) (lru_new 1000 100)) =
     (Accepted, [Respond 400 [] ''Value of query parameter 'query' is not parsable.'' False], None)"
proof -
  have "parse_value sample_server '''' =
      Inl (RuntimeError ''Only SELECT & ASK queries are supported currently.'')"
    by (simp add: parse_value_def parse_string_def sample_server_def sparql_parse_def)
  moreover have "parse_query sample_server '''' = Inr [(''query'', '''')]" by (simp add: sample_server_def)
  ultimately show ?thesis
    using bad_requests_answered [of "sample_job CountEndpoint '''' 5" sample_server sample_cfg "[]" 1000 100]
    by (simp add: sample_job_def)
qed

subsection \<open>Streaming\<close>

text \<open>The writer behaves the same whatever its buffer holds: clearing it loses nothing but the text.\<close>

definition pre_buffer :: "string \<Rightarrow> json_writer \<Rightarrow> json_writer" where
  "pre_buffer pre w = w\<lparr>buffer := pre @ buffer w\<rparr>"

lemma pre_buffer_simps [simp]:
  "pre_buffer [] w = w" "pre_buffer a (pre_buffer b w) = pre_buffer (a @ b) w"
  "buffer (pre_buffer a w) = a @ buffer w"
  by (simp_all add: pre_buffer_def)

lemma pre_buffer_clear: "pre_buffer (buffer w) (json_clear w) = w"
  by (simp add: pre_buffer_def json_clear_def)

lemma json_add_pre_buffer:
  "json_add emit api e (pre_buffer pre w) = map_res (pre_buffer pre) (json_add emit api e w)"
  by (cases e) (simp add: json_add_eq Let_def pre_buffer_def wrote_def puts_eq)

lemma json_adds_pre_buffer:
  "mfold (json_add emit api) es (pre_buffer pre w) = map_res (pre_buffer pre) (mfold (json_add emit api) es w)"
  by (rule mfold_commute) (rule json_add_pre_buffer)

lemma close_pre_buffer: "json_close emit (pre_buffer pre w) = pre_buffer pre (json_close emit w)"
  by (simp add: json_close_def pre_buffer_def puts_eq)

definition flushed :: "string list \<Rightarrow> http_action list" where
  "flushed chunks = concat (map (\<lambda>c. [AppendChunk c, Flush]) chunks)"

lemma json_add_buffer_size: "json_add emit api e w = Inr w1 \<Longrightarrow> buffer_size w1 = buffer_size w"
  by (cases e) (auto simp: json_add_eq Let_def split: if_splits)

lemma stream_entries_chunks:
  assumes "mfold (json_add emit api) es w = Inr w'"
  shows "\<exists>chunks v. stream_entries emit api (\<lambda>_. False) k es w = (flushed chunks, Inr (Some v)) \<and>
           w' = pre_buffer (concat chunks) v \<and> (\<forall>c \<in> set chunks. unat (buffer_size w) < length c)"
  using assms
proof (induction es arbitrary: k w w')
  case Nil
  then have "stream_entries emit api (\<lambda>_. False) k [] w = (flushed [], Inr (Some w)) \<and> w' = pre_buffer (concat []) w"
    by (simp add: flushed_def)
  then show ?case by (metis empty_iff list.set(1))
next
  case (Cons e es)
  then obtain w1 where w1: "json_add emit api e w = Inr w1" "mfold (json_add emit api) es w1 = Inr w'"
    by auto
  show ?case
  proof (cases "json_full w1")
    case True
    have "map_res (pre_buffer (buffer w1)) (mfold (json_add emit api) es (json_clear w1)) = Inr w'"
      using w1(2) json_adds_pre_buffer [of emit api es "buffer w1" "json_clear w1"] by (simp add: pre_buffer_clear)
    then obtain w2 where w2: "mfold (json_add emit api) es (json_clear w1) = Inr w2" "w' = pre_buffer (buffer w1) w2"
      by (cases "mfold (json_add emit api) es (json_clear w1)") auto
    from Cons.IH [OF w2(1), of "Suc k"] obtain chunks v where
      v: "stream_entries emit api (\<lambda>_. False) (Suc k) es (json_clear w1) = (flushed chunks, Inr (Some v))"
         "w2 = pre_buffer (concat chunks) v" "\<forall>c \<in> set chunks. unat (buffer_size w) < length c"
      using json_add_buffer_size [OF w1(1)] by (auto simp: json_clear_def)
    have "stream_entries emit api (\<lambda>_. False) k (e # es) w = (flushed (buffer w1 # chunks), Inr (Some v)) \<and>
        w' = pre_buffer (concat (buffer w1 # chunks)) v \<and>
        (\<forall>c \<in> set (buffer w1 # chunks). unat (buffer_size w) < length c)"
      using True w1(1) w2(2) v json_add_buffer_size [OF w1(1)]
      by (simp add: string_view_def flushed_def json_full_def)
    then show ?thesis by blast
  next
    case False
    with Cons.IH [OF w1(2), of k] w1(1) json_add_buffer_size [OF w1(1)] show ?thesis by simp
  qed
qed

text \<open>
  C17. Streaming changes the framing only: if no write fails, the chunks \<open>/stream\<close> sends, put together,
  are the body \<open>/sparql\<close> sends for the same query and store; all chunks but the last are larger than the
  buffer size of 100000 bytes, and the last is sent even if it is small.
\<close>

theorem stream_equals_body:
  assumes "parse_value srv str = Inr q" and "sparql_body srv timeout now q = ([Respond 200 h body c], None)"
  shows "\<exists>chunks rest.
           stream_body srv (\<lambda>_. False) timeout q =
             (StartChunked h # concat (map (\<lambda>c. [AppendChunk c, Flush]) chunks) @ [AppendChunk rest, DoneChunked], None) \<and>
           concat chunks @ rest = body \<and> (\<forall>c \<in> set chunks. 100000 < length c)"
proof -
  let ?w = "json_writer_new (json_text srv) (projected_variables q) 100000"
  obtain es w where es: "eval_select (trie_lib srv) (tensor srv) q timeout = (es, None)"
    and w: "mfold (json_add (json_text srv) (literal_lib srv)) es ?w = Inr w"
    and h: "h = results_header" "body = string_view (json_close (json_text srv) w)"
    using assms(2) parsed_not_ask [OF assms(1)]
    by (auto simp: sparql_body_def Let_def split: prod.splits sum.splits option.splits)
  obtain chunks v where v: "stream_entries (json_text srv) (literal_lib srv) (\<lambda>_. False) 0 es ?w =
      (flushed chunks, Inr (Some v))" "w = pre_buffer (concat chunks) v"
    "\<forall>c \<in> set chunks. unat (buffer_size ?w) < length c"
    using stream_entries_chunks [OF w] by blast
  have size: "unat (buffer_size ?w) = 100000"
    by (simp add: json_writer_new_eq)
  have "stream_body srv (\<lambda>_. False) timeout q =
      (StartChunked h # flushed chunks @ [AppendChunk (string_view (json_close (json_text srv) v)), DoneChunked], None)"
    using es v(1) h(1) by (simp add: stream_body_def)
  moreover have "concat chunks @ string_view (json_close (json_text srv) v) = body"
    using h(2) v(2) by (simp add: string_view_def close_pre_buffer)
  ultimately show ?thesis
    using v(3) size unfolding flushed_def by metis
qed

theorem stream_equals_body_witness:
  "\<exists>chunks rest. stream_body sample_server (\<lambda>_. False) 10 sample_result =
     (StartChunked results_header # concat (map (\<lambda>c. [AppendChunk c, Flush]) chunks) @ [AppendChunk rest, DoneChunked], None)"
proof -
  have "sparql_body sample_server 10 5 sample_result =
      ([Respond 200 results_header (result_text sample_server (projected_variables sample_result) [([IRI ''i'', NullNode], 2)]) False], None)"
    by (rule sparql_body_answers [OF parsed_not_ask [OF sample_parse_value] sample_select])
       (auto simp: sample_result_def unprintable_def bound_def Let_def)
  from stream_equals_body [OF sample_parse_value this] show ?thesis by blast
qed

subsection \<open>Counting\<close>

lemma fold_count: "fold (\<lambda>e count. count + snd e) es c = c + of_nat (length (rows es))"
proof (induction es arbitrary: c)
  case Nil
  show ?case by simp
next
  case (Cons e es)
  then show ?case by (cases e) (simp add: add.assoc)
qed

text \<open>
  C18. Except for queries of a single triple pattern, \<open>/count\<close> answers with the number of solutions
  \<open>/sparql\<close> lists, multiplicities counted, modulo 2 ^ 64.
\<close>

theorem count_equals_solutions:
  assumes "length (triple_patterns q) \<noteq> 1"
    and "eval_select (trie_lib srv) (tensor srv) q timeout = (es, None)"
  shows "count_body srv timeout q = ([Respond 200 [] (format_count srv (of_nat (length (rows es)))) False], None)"
  using assms fold_count [of es 0] by (simp add: count_body_def count_solutions_def)

theorem count_equals_solutions_witness:
  "count_body sample_server 10 sample_result = ([Respond 200 [] (format_count sample_server 2) False], None)"
proof -
  have "length (triple_patterns sample_result) \<noteq> 1"
    by (simp add: sample_result_def Let_def)
  from count_equals_solutions [OF this sample_select] show ?thesis by simp
qed

subsection \<open>Timeouts\<close>

definition no_504 :: "http_action list \<Rightarrow> bool" where
  "no_504 acts \<longleftrightarrow> (\<forall>h body c. Respond 504 h body c \<notin> set acts)"

lemma no_504_simps [simp]:
  "no_504 []"
  "no_504 (a # acts) \<longleftrightarrow> (\<forall>h body c. a \<noteq> Respond 504 h body c) \<and> no_504 acts"
  "no_504 (xs @ ys) \<longleftrightarrow> no_504 xs \<and> no_504 ys"
  by (auto simp: no_504_def)

lemma no_504_stream: "no_504 (fst (stream_entries emit api failed k es w))"
  by (induction emit api failed k es w rule: stream_entries.induct)
     (auto simp: case_prod_beta split: sum.split)

lemma no_504_body: "no_504 (fst (handler_body srv kind env timeout q))"
proof (cases kind)
  case SPARQLStreamingEndpoint
  let ?r = "\<lambda>es. stream_entries (json_text srv) (literal_lib srv) (write_failed env) 0 es
      (json_writer_new (json_text srv) (projected_variables q) 100000)"
  have "no_504 (fst (?r es))" for es by (rule no_504_stream)
  then show ?thesis
    unfolding SPARQLStreamingEndpoint
    by (auto simp: handler_body_def stream_body_def split: prod.split sum.split option.split) (metis fst_conv)+
qed (auto simp: handler_body_def sparql_body_def count_body_def Let_def split: prod.split sum.split option.split)

lemma no_504_param: "param_result srv req = (acts, r) \<Longrightarrow> no_504 acts"
  by (auto simp: param_result_def split: option.splits sum.splits if_splits)

lemma no_504_query: "(\<And>q. no_504 (fst (body q))) \<Longrightarrow> no_504 (fst (query_result srv req body))"
  by (auto simp: query_result_def split: prod.split sum.split option.split dest: no_504_param)

text \<open>
  C19. A request that times out, or fails with any other runtime error, is never answered: no response of
  the server has status 504. The handler that should send it runs on a moved-from request, so it
  dereferences a null pointer, unless reading the absent timeout duration has failed before.
\<close>

theorem runtime_errors_crash:
  assumes "handle_query srv kind env (Some req) timeout qc = ((acts, Some e), qc')" and "is_runtime_error srv e"
    and "cache_good srv qc"
  shows "run_task srv kind cfg env (Some req) timeout qc =
           ((acts, Some (if opt_timeout_duration cfg = None then BadOptionalAccess else NullDeref)), qc') \<and>
         \<not> (\<exists>h body c. Respond 504 h body c \<in> set acts)"
proof -
  have "query_result srv (Some req) (handler_body srv kind env timeout) = (acts, Some e)"
    using with_query_good [OF assms(3), of "Some req" "handler_body srv kind env timeout"] assms(1)
    by (simp add: handle_query_eq)
  then have "no_504 acts"
    using no_504_query [of "handler_body srv kind env timeout" srv "Some req"] no_504_body by (metis fst_conv)
  then show ?thesis
    using assms(1,2) by (auto simp: run_task_outcome task_outcome_def no_504_def)
qed

text \<open>The deadline has passed when the solutions are written.\<close>

lemma sample_timeout:
  "\<exists>qc'. handle_query sample_server SPARQLEndpoint (job_env (sample_job SPARQLEndpoint ''q'' 200)) (Some \<lparr>header_query = ''q''\<rparr>)
           180 (lru_new 1000 100) = (([], Some (RuntimeError ''timeout reached'')), qc')"
proof -
  let ?body = "sparql_body sample_server 180 200 :: string sparql_query \<Rightarrow> _"
  have "\<not> (\<exists>key \<in> set (rows [([IRI ''i'', NullNode], 2)]).
      unprintable (map var_name (projected_variables sample_result)) (key :: string node list))"
    by (auto simp: sample_result_def unprintable_def bound_def Let_def)
  then obtain w where "mfold (json_add (json_text sample_server) (literal_lib sample_server)) [([IRI ''i'', NullNode], 2)]
      (json_writer_new (json_text sample_server) (projected_variables sample_result) 100000) = Inr w"
    using printable_written by blast
  then have "?body sample_result = ([], Some (RuntimeError ''timeout reached''))"
    using sample_select [of 180] parsed_not_ask [OF sample_parse_value]
    by (simp add: sparql_body_def check_timeout_def Let_def del: mfold.simps)
  moreover have "fst (with_query sample_server (Some \<lparr>header_query = ''q''\<rparr>) (lru_new 1000 100) ?body) = ?body sample_result"
    using with_query_good [OF cache_good_new, of sample_server "Some \<lparr>header_query = ''q''\<rparr>" 1000 100 ?body]
      param_result_query [of sample_server "\<lparr>header_query = ''q''\<rparr>" "[(''query'', ''q'')]" "''q''" sample_result ?body]
      sample_parse_value
    by (simp add: sample_server_def)
  ultimately show ?thesis
    by (metis handle_query_eq handler_body_def endpoint_kind.case(1) sample_job_def job.select_convs(5)
        environment.select_convs(1) prod.collapse)
qed

theorem runtime_errors_crash_witness:
  "snd (fst (run_task sample_server SPARQLEndpoint sample_cfg (job_env (sample_job SPARQLEndpoint ''q'' 200))
     (Some \<lparr>header_query = ''q''\<rparr>) 180 (lru_new 1000 100))) = Some NullDeref"
proof -
  obtain qc' where "handle_query sample_server SPARQLEndpoint (job_env (sample_job SPARQLEndpoint ''q'' 200))
      (Some \<lparr>header_query = ''q''\<rparr>) 180 (lru_new 1000 100) = (([], Some (RuntimeError ''timeout reached'')), qc')"
    using sample_timeout by blast
  from runtime_errors_crash [OF this _ cache_good_new, of sample_cfg] show ?thesis
    by (simp add: sample_cfg_def)
qed

subsection \<open>ASK queries\<close>

lemma ask_unused:
  "generate_operands (api\<lparr>evaluate_ask := f\<rparr>) h keys = generate_operands api h keys"
  "eval_select (api\<lparr>evaluate_ask := f\<rparr>) h q t = eval_select api h q t"
  "count_solutions (api\<lparr>evaluate_ask := f\<rparr>) h q t = count_solutions api h q t"
proof -
  have "generate_operand (api\<lparr>evaluate_ask := f\<rparr>) h key = generate_operand api h key" for key
    by (simp add: generate_operand_def Let_def cong: if_cong)
  then show ops: "generate_operands (api\<lparr>evaluate_ask := f\<rparr>) h keys = generate_operands api h keys" for keys
    by (simp add: generate_operands_def)
  show select: "eval_select (api\<lparr>evaluate_ask := f\<rparr>) h q t = eval_select api h q t"
    by (simp add: eval_select_def ops cong: sum.case_cong prod.case_cong if_cong)
  show "count_solutions (api\<lparr>evaluate_ask := f\<rparr>) h q t = count_solutions api h q t"
    by (simp add: count_solutions_def select Let_def cong: if_cong)
qed

text \<open>
  ASK is never evaluated: replacing the function that evaluates ASK queries by any other changes no
  answer to any sequence of requests. The flag the handler of \<open>/sparql\<close> tests is set by no parse, so an
  ASK query is evaluated as a SELECT query without variables.
\<close>

lemma ask_evaluator_unused:
  "fst (cache_run (serve (srv\<lparr>trie_lib := (trie_lib srv)\<lparr>evaluate_ask := f\<rparr>\<rparr>) cfg) jobs (lru_new m e)) =
   fst (cache_run (serve srv cfg) jobs (lru_new m e))"
proof -
  let ?srv = "srv\<lparr>trie_lib := (trie_lib srv)\<lparr>evaluate_ask := f\<rparr>\<rparr>"
  have body: "handler_body ?srv kind env t q = handler_body srv kind env t q" if "\<not> ask_flag q" for kind env t q
    using that
    by (cases kind) (simp_all add: handler_body_def sparql_body_def stream_body_def count_body_def ask_unused Let_def
        cong: sum.case_cong prod.case_cong option.case_cong)
  have parse: "parse_value ?srv = parse_value srv"
    by (simp add: parse_value_def)
  have "query_result ?srv req (handler_body ?srv kind env t) = query_result srv req (handler_body srv kind env t)"
    for req kind env t
    by (auto simp: query_result_def param_result_def parse intro!: body dest: parsed_not_ask split: option.split sum.split)
  moreover have "is_runtime_error ?srv x = is_runtime_error srv x" for x
    by (cases x) simp_all
  ultimately have "answer ?srv cfg job = answer srv cfg job" for job
    by (simp add: answer_def task_answer_def task_outcome_def split: prod.split option.split)
  then show ?thesis
    by (simp add: requests.run_answers [OF cache_good_new])
qed

end
