(* ===== verification/Served_Answers.thy ===== *)
theory Served_Answers
  imports Union_Answers Endpoint_Behaviour
begin

text \<open>
  The whole path of a request: query parameter, cache, parser, tensor slices, evaluator, result document and
  response, composed. What a client of \<open>/sparql\<close> reads is SPARQL's answer to its query.
\<close>

lemma count_rows: "of_nat (count_list (rows es) row) = multiplicity es row"
proof (induction es)
  case Nil
  show ?case by (simp add: rows_def multiplicity_def)
next
  case (Cons e es)
  have "count_list (replicate n k) row = (if k = row then n else 0)" for n :: nat and k
    by (induction n) auto
  with Cons show ?case by (cases e) (auto simp: rows_def multiplicity_def)
qed

text \<open>Every query whose evaluation ends in time is answered with the rows of its entries.\<close>

lemma select_answered:
  assumes "job_kind job = SPARQLEndpoint" and "job_topologies job < job_workers job"
    and "parse_query srv (header_query (job_request job)) = Inr qp" and "map_of qp ''query'' = Some str"
    and "sparql_parse (sparql_lib srv) (parse_tree srv str) = Inr q"
    and "eval_select (trie_lib srv) (tensor srv) q (request_deadline cfg (job_arrival job)) = (es, None)"
    and "\<not> (\<exists>key \<in> set (rows es). unprintable (map var_name (projected_variables q)) key)"
    and "clock_now (job_env job) < request_deadline cfg (job_arrival job)"
  shows "fst (serve srv cfg job (snd (cache_run (serve srv cfg) jobs (lru_new m e)))) =
       (Accepted,
        [Respond 200 results_header
           (render_from (json_text srv) [] (json_events
              (results_json (literal_lib srv) (map var_name (projected_variables q)) (rows es)))) False], None)"
proof -
  have "parse_value srv str = Inr q" using assms(5) by (simp add: parse_value_def parse_string_def)
  from sparql_body_answers [OF parsed_not_ask [OF this] assms(6-8)] show ?thesis
    using assms(1,2) \<open>parse_value srv str = Inr q\<close>
    by (simp add: served_answer answer_def task_answer_def param_result_query [OF assms(3,4)] handler_body_def
        task_outcome_def result_text_def)
qed

text \<open>
  A conjunctive query sent to \<open>/sparql\<close>, whose evaluation ends before the deadline, is answered with
  status 200 and the JSON document of a list of rows in which every row occurs as often (modulo 2 ^ 64) as
  there are assignments of the query's variables that turn its triple patterns into stored triples and are
  projected to that row, or, with DISTINCT, once if there is one; whatever was asked of the server before.
\<close>

lemma conjunctive_request_answered:
  assumes "job_kind job = SPARQLEndpoint" and "job_topologies job < job_workers job"
    and "parse_query srv (header_query (job_request job)) = Inr qp" and "map_of qp ''query'' = Some str"
    and "sparql_parse (sparql_lib srv) (parse_tree srv str) = Inr q"
    and "selectQuery (parse_tree srv str) = Some sc" and "select_whereClause sc = Some w"
    and "groupGraphPatternSub w = Some c" and "ctx_gous c = []" and "ctx_opts c = []"
    and "triple_patterns q \<noteq> []" and "length (triple_patterns q) \<le> 256" and "card (dom (var_to_id q)) \<le> 256"
    and "set (projected_variables q) \<subseteq> patterns_vars (triple_patterns q)"
    and "odg_contract (sparql_lib srv)" and "trie_contract (trie_lib srv)" and "einsum_contract (trie_lib srv)"
    and "eval_select (trie_lib srv) (tensor srv) q (request_deadline cfg (job_arrival job)) = (es, None)"
    and "\<not> (\<exists>key \<in> set (rows es). unprintable (map var_name (projected_variables q)) key)"
    and "clock_now (job_env job) < request_deadline cfg (job_arrival job)"
  shows "\<exists>answer_rows.
     fst (serve srv cfg job (snd (cache_run (serve srv cfg) jobs (lru_new m e)))) =
       (Accepted,
        [Respond 200 results_header
           (render_from (json_text srv) [] (json_events
              (results_json (literal_lib srv) (map var_name (projected_variables q)) answer_rows))) False], None) \<and>
     (\<forall>row. of_nat (count_list answer_rows row) =
        (let solutions = pattern_solutions (set (entries (trie_lib srv) (tensor srv))) (triple_patterns q);
             project = (\<lambda>\<mu>. row_of \<mu> (projected_variables q))
         in if distinct_flag q
            then (if row \<in> project ` solutions then default_entry_value (trie_lib srv) else 0)
            else of_nat (card {\<mu> \<in> solutions. project \<mu> = row}) :: size_t))"
proof (intro exI conjI allI)
  show "fst (serve srv cfg job (snd (cache_run (serve srv cfg) jobs (lru_new m e)))) =
       (Accepted,
        [Respond 200 results_header
           (render_from (json_text srv) [] (json_events
              (results_json (literal_lib srv) (map var_name (projected_variables q)) (rows es)))) False], None)"
    by (rule select_answered [OF assms(1-5,18-20)])
next
  fix row
  show "of_nat (count_list (rows es) row) =
        (let solutions = pattern_solutions (set (entries (trie_lib srv) (tensor srv))) (triple_patterns q);
             project = (\<lambda>\<mu>. row_of \<mu> (projected_variables q))
         in if distinct_flag q
            then (if row \<in> project ` solutions then default_entry_value (trie_lib srv) else 0)
            else of_nat (card {\<mu> \<in> solutions. project \<mu> = row}) :: size_t)"
    unfolding count_rows
    by (rule conjunctive_multiplicity [OF assms(5,15,12,6-11,13,14,16,17,18)])
qed

text \<open>The join of \<open>Conjunctive_Answers\<close>, asked over HTTP.\<close>

lemma sample_join_select:
  "eval_select join_trie sample_triples sample_join_result t = ([([IRI ''a'', IRI ''b''], 1)], None)"
  by (simp add: eval_select_def generate_operands_def generate_operand_def get_slice_keys_def get_trie_def get_fixed_depth_def
      proj_vars_id_def sample_join_result_def sample_triples_def join_trie_def list_trie_def Let_def
      compatible_def extend_by_def row_of_def map_add_def)

definition join_server :: "(string node list list, string) server" where
  "join_server = sample_server\<lparr>parse_tree := (\<lambda>_. sample_join), trie_lib := join_trie, tensor := sample_triples\<rparr>"

lemma conjunctive_request_answered_example:
  "\<exists>answer_rows.
     fst (serve join_server sample_cfg (sample_job SPARQLEndpoint ''q'' 5) (lru_new 1000 100)) =
       (Accepted,
        [Respond 200 results_header
           (render_from (json_text join_server) [] (json_events
              (results_json (literal_lib join_server) [''s'', ''o''] answer_rows))) False], None) \<and>
     of_nat (count_list answer_rows [IRI ''a'', IRI ''b'']) = (1 :: size_t) \<and>
     of_nat (count_list answer_rows [IRI ''a'', IRI ''c'']) = (0 :: size_t)"
proof -
  define c where "c = GroupGraphPatternSubCtx (Some (one_triple (var_term ''s'') (iri_verb ''p'') (var_term ''o'') @
      one_triple (var_term ''o'') (iri_verb ''q'') (var_term ''s''))) []"
  let ?job = "sample_job SPARQLEndpoint ''q'' 5"
  have lib: "sparql_lib join_server = sample_api" "parse_tree join_server ''q'' = sample_join"
    "trie_lib join_server = join_trie" "tensor join_server = sample_triples"
    by (simp_all add: join_server_def sample_server_def)
  have q: "projected_variables sample_join_result = [Variable ''s'' False, Variable ''o'' False]"
    "\<not> distinct_flag sample_join_result" "length (triple_patterns sample_join_result) = 2"
    "card (dom (var_to_id sample_join_result)) \<le> 256"
    by (simp_all add: sample_join_result_def Let_def card_insert_if)
  have vars: "set (projected_variables sample_join_result) \<subseteq> patterns_vars (triple_patterns sample_join_result)"
    by (simp add: sample_join_result_def Let_def patterns_vars_def pattern_vars_def)
  have printable: "\<not> (\<exists>key \<in> set (rows [([IRI ''a'', IRI ''b''], 1)]).
      unprintable (map var_name (projected_variables sample_join_result)) (key :: string node list))"
    by (auto simp: q rows_def unprintable_def bound_def)
  have tree: "selectQuery sample_join = Some (the (selectQuery sample_join))"
    "select_whereClause (the (selectQuery sample_join)) = Some (GroupGraphPatternCtx False (Some c))"
    "groupGraphPatternSub (GroupGraphPatternCtx False (Some c)) = Some c" "ctx_gous c = []" "ctx_opts c = []"
    by (simp_all add: sample_join_def select_star_def triples_group_def c_def ctx_gous_def ctx_opts_def)
  have req: "parse_query join_server (header_query (job_request ?job)) = Inr [(''query'', ''q'')]"
    by (simp add: join_server_def sample_server_def sample_job_def)
  have "triple_patterns sample_join_result \<noteq> []" "length (triple_patterns sample_join_result) \<le> 256"
    using q(3) by auto
  note answered = conjunctive_request_answered [where srv = join_server and job = ?job and str = "''q''" and cfg = sample_cfg
      and q = sample_join_result and jobs = "[]" and m = 1000 and e = 100 and es = "[([IRI ''a'', IRI ''b''], 1)]",
      OF _ _ req, unfolded lib, OF _ _ _ sample_join_parse tree this q(4) vars sample_api_contract join_trie_contracts
      sample_join_select printable]
  have sols: "set (entries join_trie sample_triples) = set sample_triples"
    by (simp add: join_trie_def list_trie_def)
  have one: "{\<mu> \<in> {[Variable ''s'' False \<mapsto> IRI ''a'', Variable ''o'' False \<mapsto> IRI ''b'']}.
      row_of \<mu> [Variable ''s'' False, Variable ''o'' False] = [IRI ''a'', IRI ''b'']} =
      {[Variable ''s'' False \<mapsto> IRI ''a'', Variable ''o'' False \<mapsto> IRI ''b'' :: string node]}"
    by (auto simp: row_of_def)
  have none: "{\<mu> \<in> {[Variable ''s'' False \<mapsto> IRI ''a'', Variable ''o'' False \<mapsto> IRI ''b'' :: string node]}.
      row_of \<mu> [Variable ''s'' False, Variable ''o'' False] = [IRI ''a'', IRI ''c'']} = {}"
    by (auto simp: row_of_def)
  obtain answer_rows where rows:
    "fst (serve join_server sample_cfg ?job (lru_new 1000 100)) =
       (Accepted,
        [Respond 200 results_header
           (render_from (json_text join_server) [] (json_events
              (results_json (literal_lib join_server) [''s'', ''o''] answer_rows))) False], None)"
    "\<And>row. of_nat (count_list answer_rows row) = (of_nat (card {\<mu> \<in> pattern_solutions (set sample_triples)
        (triple_patterns sample_join_result). row_of \<mu> [Variable ''s'' False, Variable ''o'' False] = row}) :: size_t)"
    using answered by (auto simp: sample_job_def sample_cfg_def request_deadline_def q sols Let_def)
  have "of_nat (count_list answer_rows [IRI ''a'', IRI ''b'']) = (1 :: size_t)"
    "of_nat (count_list answer_rows [IRI ''a'', IRI ''c'']) = (0 :: size_t)"
    unfolding rows(2) sample_solutions one none by simp_all
  with rows(1) show ?thesis by blast
qed












lemma union_trie_entries [simp]: "entries union_trie h = entries list_trie h"
  by (simp add: union_trie_def)


end
