(* ===== verification/Request_Concurrency.thy ===== *)
theory Request_Concurrency
  imports Endpoint_Behaviour "HOL-Library.Multiset"
begin

text \<open>
  Requests in parallel: the threads of the HTTP server admit requests and hand them to the executor, whose
  tasks share the query cache. The cache is locked during an access, everything else a task does is its
  own, so a request takes four steps: the test in \<open>Endpoint::operator()\<close>, the call of \<open>silent_async\<close>, the access to
  the cache in \<open>parse_sparql_query_param\<close>, and the rest of the handler. Steps of any number of requests interleave.

  \<open>num_topologies\<close> counts the tasks that were handed over and have not finished.
  \<open>answered\<close> records, for every request that was rejected or whose task has ended, the calls made on its response and the
  exception that left the task, whatever they are; that these calls are one complete response is a theorem.
\<close>

subsection \<open>Steps\<close>

datatype 'l task =
    Scheduled job
  | Parsed job "http_action list" "exn + 'l sparql_query option"

record 'l request_state =
  shared_cache :: "'l query_cache"
  accepting :: "job multiset"
  tasks :: "'l task multiset"
  answered :: "(job \<times> (request_status \<times> http_action list \<times> exn option)) list"
  crashed :: bool

definition requests_start :: "size_t \<Rightarrow> size_t \<Rightarrow> 'l request_state" where
  "requests_start m e = \<lparr>shared_cache = lru_new m e, accepting = {#}, tasks = {#}, answered = [], crashed = False\<rparr>"

text \<open>A request as it arrives: the test compares the numbers of this moment.\<close>

definition arriving :: "nat \<Rightarrow> 'l request_state \<Rightarrow> job \<Rightarrow> job" where
  "arriving workers s j = j\<lparr>job_topologies := size (tasks s), job_workers := workers\<rparr>"

text \<open>What a task does after the access to the cache; an exception that leaves the task ends the process.\<close>

definition finish_task ::
  "('h, 'l) server \<Rightarrow> endpoint_cfg \<Rightarrow> job \<Rightarrow> http_action list \<times> (exn + 'l sparql_query option) \<Rightarrow> http_action list \<times> exn option" where
  "finish_task srv cfg j param =
     task_outcome srv cfg
       (case param of
          (acts, Inl e) \<Rightarrow> (acts, Some e)
        | (acts, Inr None) \<Rightarrow> (acts, None)
        | (acts, Inr (Some q)) \<Rightarrow>
            handler_body srv (job_kind j) (job_env j) (request_deadline cfg (job_arrival j)) q)"

inductive arrival :: "nat \<Rightarrow> nat \<Rightarrow> 'l request_state \<Rightarrow> 'l request_state \<Rightarrow> bool" for workers io_threads where
  admit: "\<not> crashed s \<Longrightarrow> size (accepting s) < io_threads \<Longrightarrow> size (tasks s) < workers \<Longrightarrow>
    arrival workers io_threads s (s\<lparr>accepting := add_mset (arriving workers s j) (accepting s)\<rparr>)"
| reject: "\<not> crashed s \<Longrightarrow> size (accepting s) < io_threads \<Longrightarrow> \<not> size (tasks s) < workers \<Longrightarrow>
    arrival workers io_threads s (s\<lparr>answered := answered s @ [(arriving workers s j, (Rejected, [], None))]\<rparr>)"

inductive work :: "('h, 'l) server \<Rightarrow> endpoint_cfg \<Rightarrow> 'l request_state \<Rightarrow> 'l request_state \<Rightarrow> bool" for srv cfg where
  submit: "\<not> crashed s \<Longrightarrow> j \<in># accepting s \<Longrightarrow>
    work srv cfg s (s\<lparr>accepting := accepting s - {#j#}, tasks := add_mset (Scheduled j) (tasks s)\<rparr>)"
| lookup: "\<not> crashed s \<Longrightarrow> Scheduled j \<in># tasks s \<Longrightarrow>
    parse_sparql_query_param srv (Some (job_request j)) (shared_cache s) = ((acts, r), qc) \<Longrightarrow>
    work srv cfg s (s\<lparr>shared_cache := qc, tasks := add_mset (Parsed j acts r) (tasks s - {#Scheduled j#})\<rparr>)"
| finish: "\<not> crashed s \<Longrightarrow> Parsed j acts r \<in># tasks s \<Longrightarrow> finish_task srv cfg j (acts, r) = out \<Longrightarrow>
    work srv cfg s (s\<lparr>tasks := tasks s - {#Parsed j acts r#}, answered := answered s @ [(j, (Accepted, out))],
                      crashed := (snd out \<noteq> None)\<rparr>)"

inductive served :: "('h, 'l) server \<Rightarrow> endpoint_cfg \<Rightarrow> nat \<Rightarrow> nat \<Rightarrow> 'l request_state \<Rightarrow> 'l request_state \<Rightarrow> bool"
  for srv cfg workers io_threads s0 where
  start: "served srv cfg workers io_threads s0 s0"
| arrives: "served srv cfg workers io_threads s0 s \<Longrightarrow> arrival workers io_threads s s' \<Longrightarrow> served srv cfg workers io_threads s0 s'"
| works: "served srv cfg workers io_threads s0 s \<Longrightarrow> work srv cfg s s' \<Longrightarrow> served srv cfg workers io_threads s0 s'"

text \<open>The last two steps of a task, without anything in between, are \<open>run_task\<close>.\<close>

lemma steps_run_task:
  assumes "parse_sparql_query_param srv (Some (job_request j)) qc = (param, qc')"
  shows "run_task srv (job_kind j) cfg (job_env j) (Some (job_request j)) (request_deadline cfg (job_arrival j)) qc =
           (finish_task srv cfg j param, qc')"
  by (cases param)
     (auto simp: run_task_outcome handle_query_eq with_query_def assms finish_task_def split: sum.split option.split)

subsection \<open>Answers\<close>

fun task_ok :: "('h, 'l) server \<Rightarrow> 'l task \<Rightarrow> bool" where
  "task_ok srv (Scheduled j) \<longleftrightarrow> job_topologies j < job_workers j"
| "task_ok srv (Parsed j acts r) \<longleftrightarrow> job_topologies j < job_workers j \<and> (acts, r) = param_result srv (Some (job_request j))"

definition requests_ok :: "('h, 'l) server \<Rightarrow> endpoint_cfg \<Rightarrow> 'l request_state \<Rightarrow> bool" where
  "requests_ok srv cfg s \<longleftrightarrow>
     cache_good srv (shared_cache s) \<and>
     (\<forall>j \<in># accepting s. job_topologies j < job_workers j) \<and>
     (\<forall>t \<in># tasks s. task_ok srv t) \<and>
     (\<forall>(j, r) \<in> set (answered s). r = answer srv cfg j)"

lemma finish_task_answer:
  "finish_task srv cfg j (param_result srv (Some (job_request j))) = task_answer srv cfg j"
  by (simp add: finish_task_def task_answer_def query_result_def)

lemma arrival_ok:
  assumes "arrival workers io_threads s s'" and "requests_ok srv cfg s"
  shows "requests_ok srv cfg s'"
  using assms by cases (auto simp: requests_ok_def arriving_def answer_def)

lemma work_ok:
  assumes "work srv cfg s s'" and "requests_ok srv cfg s"
  shows "requests_ok srv cfg s'"
  using assms(1)
proof cases
  case (submit j)
  then show ?thesis using assms(2) by (auto simp: requests_ok_def dest: in_diffD)
next
  case (lookup j acts r qc)
  have "cache_good srv (shared_cache s)" "task_ok srv (Scheduled j)" using assms(2) lookup(3) by (auto simp: requests_ok_def)
  then have "cache_good srv qc" "task_ok srv (Parsed j acts r)"
    using param_good [of srv "shared_cache s" "Some (job_request j)"] lookup(4) by simp_all
  then show ?thesis using assms(2) by (auto simp: requests_ok_def lookup(1) dest: in_diffD)
next
  case (finish j acts r out)
  then have "task_ok srv (Parsed j acts r)" using assms(2) by (auto simp: requests_ok_def)
  then have "(Accepted, out) = answer srv cfg j"
    using finish(4) finish_task_answer [of srv cfg j] by (simp add: answer_def)
  then show ?thesis using assms(2) by (auto simp: requests_ok_def finish(1) dest: in_diffD)
qed

lemma served_ok:
  assumes "served srv cfg workers io_threads (requests_start m e) s"
  shows "requests_ok srv cfg s"
  using assms
proof induction
  case start
  show ?case by (simp add: requests_ok_def requests_start_def cache_good_new)
qed (auto intro: arrival_ok work_ok)

text \<open>A request whose query does not parse, step by step.\<close>

definition bad_job :: job where
  "bad_job = sample_job CountEndpoint [] 5"

definition bad_answer :: "http_action list" where
  "bad_answer = [Respond 400 [] ''Value of query parameter 'query' is not parsable.'' False]"

definition scheduled_state :: "string request_state" where
  "scheduled_state = (requests_start 1000 100)\<lparr>tasks := {#Scheduled bad_job#}\<rparr>"

definition answered_state :: "string request_state" where
  "answered_state = (requests_start 1000 100)\<lparr>answered := [(bad_job, (Accepted, bad_answer, None))]\<rparr>"

lemma sample_steps:
  "served sample_server sample_cfg 8 4 (requests_start 1000 100) scheduled_state"
  "(work sample_server sample_cfg ^^ 2) scheduled_state answered_state"
proof -
  let ?s = "requests_start 1000 100 :: string request_state" and ?mid = "(requests_start 1000 100)\<lparr>tasks := {#Parsed bad_job bad_answer (Inr None)#}\<rparr>"
  have "arriving 8 ?s bad_job = bad_job" by (simp add: arriving_def requests_start_def bad_job_def sample_job_def)
  then have "arrival 8 4 ?s (?s\<lparr>accepting := {#bad_job#}\<rparr>)"
    using arrival.admit [of ?s 4 8 bad_job] by (simp add: requests_start_def)
  from served.arrives [OF served.start this] have one: "served sample_server sample_cfg 8 4 ?s (?s\<lparr>accepting := {#bad_job#}\<rparr>)" .
  have "work sample_server sample_cfg (?s\<lparr>accepting := {#bad_job#}\<rparr>) scheduled_state"
    using work.submit [of "?s\<lparr>accepting := {#bad_job#}\<rparr>" bad_job] by (simp add: requests_start_def scheduled_state_def)
  from served.works [OF one this] show "served sample_server sample_cfg 8 4 ?s scheduled_state" .
  have "parse_value sample_server [] = Inl (RuntimeError ''Only SELECT & ASK queries are supported currently.'')"
    by (simp add: parse_value_def parse_string_def sample_server_def sparql_parse_def)
  then have "lru_get (parse_value sample_server) [] (lru_new 1000 100) =
      (Inl (RuntimeError ''Only SELECT & ASK queries are supported currently.''), lru_new 1000 100)"
    by (simp add: lru_get_def)
  moreover have "parse_query sample_server (header_query (job_request bad_job)) = Inr [(''query'', [])]"
    by (simp add: sample_server_def bad_job_def sample_job_def)
  ultimately have "parse_sparql_query_param sample_server (Some (job_request bad_job)) (lru_new 1000 100) =
      ((bad_answer, Inr None), lru_new 1000 100)"
    by (simp add: parse_sparql_query_param_def bad_answer_def)
  then have "work sample_server sample_cfg scheduled_state ?mid"
    using work.lookup [of scheduled_state bad_job] by (simp add: requests_start_def scheduled_state_def)
  moreover have "finish_task sample_server sample_cfg bad_job (bad_answer, Inr None) = (bad_answer, None)"
    by (simp add: finish_task_def task_outcome_def)
  then have "work sample_server sample_cfg ?mid answered_state"
    using work.finish [of ?mid bad_job bad_answer "Inr None" sample_server sample_cfg] by (simp add: requests_start_def answered_state_def)
  ultimately show "(work sample_server sample_cfg ^^ 2) scheduled_state answered_state"
    by (auto simp: eval_nat_numeral relcompp_apply)
qed

lemma sample_answered: "served sample_server sample_cfg 8 4 (requests_start 1000 100) answered_state"
proof -
  obtain u where "work sample_server sample_cfg scheduled_state u" "work sample_server sample_cfg u answered_state"
    using sample_steps(2) by (auto simp: eval_nat_numeral relcompp_apply)
  then show ?thesis using sample_steps(1) by (blast intro: served.works)
qed

text \<open>
  C11. Requests served in parallel do not influence each other: whatever the interleaving of their steps,
  whatever arrives, and whatever the size of the cache they share, every request that has been answered
  was answered as the same request, with the same number of busy workers, is by a server that has just started.
\<close>

theorem parallel_requests_answered:
  assumes "served srv cfg workers io_threads (requests_start m e) s" and "(j, r) \<in> set (answered s)"
  shows "r = fst (serve srv cfg j (lru_new 1000 100))"
proof -
  have "r = answer srv cfg j" using served_ok [OF assms(1)] assms(2) by (auto simp: requests_ok_def)
  then show ?thesis using requests.get_answer [OF cache_good_new, of srv cfg j 1000 100] by simp
qed

theorem parallel_requests_answered_witness:
  "fst (serve sample_server sample_cfg bad_job (lru_new 1000 100)) = (Accepted, bad_answer, None)"
  using parallel_requests_answered [OF sample_answered, of bad_job "(Accepted, bad_answer, None)"]
  by (simp add: answered_state_def)

subsection \<open>Admission\<close>

lemma admitted_bound:
  assumes "served srv cfg workers io_threads (requests_start m e) s"
  shows "size (tasks s) + size (accepting s) \<le> workers + io_threads - 1"
  using assms
proof induction
  case start
  show ?case by (simp add: requests_start_def)
next
  case (arrives s s')
  from arrives(2,3) show ?case by cases auto
next
  case (works s s')
  from works(2) show ?case
  proof cases
    case (submit j)
    then show ?thesis using works(3) by (simp add: size_Diff_singleton) (metis Suc_pred add_Suc_right nonempty_has_size submit(3) empty_iff set_mset_empty)
  next
    case (lookup j acts r qc)
    then have "0 < size (tasks s)" by (auto simp: nonempty_has_size [symmetric])
    then show ?thesis using works(3) lookup by (simp add: size_Diff_singleton)
  next
    case (finish j acts r out)
    then show ?thesis using works(3) by (simp add: size_Diff_singleton)
  qed
qed

text \<open>States that admission alone can lead to, with a given number of tasks and of threads about to submit one.\<close>

definition fills :: "('h, 'l) server \<Rightarrow> endpoint_cfg \<Rightarrow> nat \<Rightarrow> nat \<Rightarrow> 'l request_state \<Rightarrow> nat \<Rightarrow> nat \<Rightarrow> bool" where
  "fills srv cfg workers io_threads s0 n a \<longleftrightarrow>
     (\<exists>s. served srv cfg workers io_threads s0 s \<and> \<not> crashed s \<and> size (tasks s) = n \<and> size (accepting s) = a)"

lemma fills_admit:
  assumes "fills srv cfg workers io_threads s0 n a" and "n < workers" and "a < io_threads"
  shows "fills srv cfg workers io_threads s0 n (Suc a)"
proof -
  obtain s where s: "served srv cfg workers io_threads s0 s" "\<not> crashed s" "size (tasks s) = n" "size (accepting s) = a"
    using assms(1) by (auto simp: fills_def)
  then have "arrival workers io_threads s (s\<lparr>accepting := add_mset (arriving workers s j) (accepting s)\<rparr>)" for j
    using assms(2,3) by (intro arrival.admit) simp_all
  from served.arrives [OF s(1) this] show ?thesis using s unfolding fills_def by fastforce
qed

lemma fills_submit:
  assumes "fills srv cfg workers io_threads s0 n (Suc a)"
  shows "fills srv cfg workers io_threads s0 (Suc n) a"
proof -
  obtain s where s: "served srv cfg workers io_threads s0 s" "\<not> crashed s" "size (tasks s) = n" "size (accepting s) = Suc a"
    using assms(1) by (auto simp: fills_def)
  then obtain j where j: "j \<in># accepting s" by (metis size_eq_Suc_imp_elem)
  from served.works [OF s(1) work.submit [OF s(2) this]] show ?thesis
    using s j unfolding fills_def by (fastforce simp: size_Diff_singleton)
qed

lemma fills_all:
  assumes "0 < io_threads" and "n < workers" and "a \<le> io_threads"
  shows "fills srv cfg workers io_threads (requests_start m e) n a"
proof -
  have "fills srv cfg workers io_threads (requests_start m e) n 0"
    using assms(2)
  proof (induction n)
    case 0
    show ?case unfolding fills_def by (intro exI [of _ "requests_start m e"] conjI served.start) (simp_all add: requests_start_def)
  next
    case (Suc n)
    then show ?case using assms(1) by (intro fills_submit fills_admit) simp_all
  qed
  then show ?thesis using assms(3)
    by (induction a) (use assms(2) in \<open>auto intro!: fills_admit\<close>)
qed

lemma fills_submit_all: "fills srv cfg workers io_threads s0 n a \<Longrightarrow> fills srv cfg workers io_threads s0 (n + a) 0"
proof (induction a arbitrary: n)
  case (Suc a)
  from Suc.IH [OF fills_submit [OF Suc.prems]] show ?case by simp
qed simp

text \<open>
  C12. The executor may be given more tasks than it has workers, although a request is admitted only if there
  are fewer: the test and the hand-over are two steps. There are never more than the workers and the threads of
  the HTTP server less one, and that number is reached.
\<close>

theorem admission_bound:
  assumes "0 < workers" and "0 < io_threads"
  shows "(\<forall>s. served srv cfg workers io_threads (requests_start m e) s \<longrightarrow> size (tasks s) \<le> workers + io_threads - 1) \<and>
         (\<exists>s. served srv cfg workers io_threads (requests_start m e) s \<and> size (tasks s) = workers + io_threads - 1)"
proof (intro conjI allI impI)
  fix s assume "served srv cfg workers io_threads (requests_start m e) s"
  from admitted_bound [OF this] show "size (tasks s) \<le> workers + io_threads - 1" by simp
next
  have "fills srv cfg workers io_threads (requests_start m e) (workers - 1 + io_threads) 0"
    using assms by (intro fills_submit_all fills_all) simp_all
  then show "\<exists>s. served srv cfg workers io_threads (requests_start m e) s \<and> size (tasks s) = workers + io_threads - 1"
    using assms(1) by (auto simp: fills_def)
qed

theorem admission_bound_witness:
  "\<exists>s. served sample_server sample_cfg 8 4 (requests_start 1000 100) s \<and> size (tasks s) = 11"
  using admission_bound [of 8 4 sample_server sample_cfg 1000 100] by simp

subsection \<open>Every request is answered\<close>

fun task_job :: "'l task \<Rightarrow> job" where
  "task_job (Scheduled j) = j"
| "task_job (Parsed j acts r) = j"

fun task_steps :: "'l task \<Rightarrow> nat" where
  "task_steps (Scheduled j) = 2"
| "task_steps (Parsed j acts r) = 1"

definition steps_left :: "'l request_state \<Rightarrow> nat" where
  "steps_left s = 3 * size (accepting s) + (\<Sum>t \<in># tasks s. task_steps t)"

text \<open>All requests that were admitted or answered.\<close>

definition all_jobs :: "'l request_state \<Rightarrow> job multiset" where
  "all_jobs s = accepting s + image_mset task_job (tasks s) + mset (map fst (answered s))"

lemma work_step:
  assumes "work srv cfg s s'"
  shows "steps_left s = Suc (steps_left s')" and "all_jobs s' = all_jobs s"
  using assms
proof (atomize (full), cases)
  case (submit j)
  then obtain A where "accepting s = add_mset j A" by (metis mset_add)
  then show "steps_left s = Suc (steps_left s') \<and> all_jobs s' = all_jobs s"
    by (simp add: submit(1) steps_left_def all_jobs_def)
next
  case (lookup j acts r qc)
  then obtain A where "tasks s = add_mset (Scheduled j) A" by (metis mset_add)
  then show "steps_left s = Suc (steps_left s') \<and> all_jobs s' = all_jobs s"
    by (simp add: lookup(1) steps_left_def all_jobs_def)
next
  case (finish j acts r out)
  then obtain A where "tasks s = add_mset (Parsed j acts r) A" by (metis mset_add)
  then show "steps_left s = Suc (steps_left s') \<and> all_jobs s' = all_jobs s"
    by (simp add: finish(1) steps_left_def all_jobs_def)
qed

lemma work_possible:
  assumes "\<not> crashed s" and "steps_left s \<noteq> 0"
  shows "\<exists>s'. work srv cfg s s'"
proof (cases "accepting s = {#}")
  case False
  then obtain j where "j \<in># accepting s" by auto
  then show ?thesis using work.submit [OF assms(1)] by blast
next
  case True
  then have "tasks s \<noteq> {#}" using assms(2) by (auto simp: steps_left_def)
  then obtain t where t: "t \<in># tasks s" by auto
  show ?thesis
  proof (cases t)
    case (Scheduled j)
    obtain acts r qc where "parse_sparql_query_param srv (Some (job_request j)) (shared_cache s) = ((acts, r), qc)"
      by (metis prod.exhaust)
    then show ?thesis using work.lookup [OF assms(1)] t Scheduled by blast
  next
    case (Parsed j acts r)
    then show ?thesis using work.finish [OF assms(1), of j acts r] t by blast
  qed
qed

lemma steps_left_zero:
  fixes s :: "'l request_state"
  assumes "steps_left s = 0"
  shows "tasks s = {#}" and "accepting s = {#}"
proof -
  have positive: "(task_steps t = 0) = False" for t :: "'l task" by (cases t) simp_all
  show "tasks s = {#}" using assms by (cases "tasks s") (auto simp: steps_left_def positive)
  show "accepting s = {#}" using assms by (simp add: steps_left_def)
qed

text \<open>
  A complete response: one response with its body, or a chunked one that is ended by \<open>done()\<close>. The stream of a handler
  that has noticed a failed write stops after a flush.
\<close>

fun chunks_done :: "http_action list \<Rightarrow> bool" where
  "chunks_done [AppendChunk c, DoneChunked] = True"
| "chunks_done (AppendChunk c # Flush # acts) = chunks_done acts"
| "chunks_done acts = False"

fun chunks_aborted :: "http_action list \<Rightarrow> bool" where
  "chunks_aborted [AppendChunk c, Flush] = True"
| "chunks_aborted (AppendChunk c # Flush # acts) = chunks_aborted acts"
| "chunks_aborted acts = False"

fun response_complete :: "http_action list \<Rightarrow> bool" where
  "response_complete [Respond status h body close] = True"
| "response_complete (StartChunked h # acts) = chunks_done acts"
| "response_complete acts = False"

fun response_aborted :: "http_action list \<Rightarrow> bool" where
  "response_aborted (StartChunked h # acts) = chunks_aborted acts"
| "response_aborted acts = False"

text \<open>What a request may have been sent in the end.\<close>

definition responded :: "job \<Rightarrow> http_action list \<Rightarrow> bool" where
  "responded j acts \<longleftrightarrow>
     response_complete acts \<or>
     job_kind j = SPARQLStreamingEndpoint \<and> (\<exists>i. write_failed (job_env j) i) \<and> response_aborted acts"

lemma stream_entries_done:
  "stream_entries emit api failed k es w = (acts, Inr (Some v)) \<Longrightarrow> chunks_done (acts @ [AppendChunk c, DoneChunked])"
proof (induction emit api failed k es w arbitrary: acts rule: stream_entries.induct)
  case (2 emit api failed k e es w)
  then show ?case by (fastforce split: sum.splits if_splits prod.splits)
qed simp

lemma stream_entries_aborted:
  "stream_entries emit api failed k es w = (acts, Inr None) \<Longrightarrow> chunks_aborted acts \<and> (\<exists>i. failed i)"
proof (induction emit api failed k es w arbitrary: acts rule: stream_entries.induct)
  case (2 emit api failed k e es w)
  show ?case
  proof (cases "json_add emit api e w")
    case (Inl x)
    then show ?thesis using 2(3) by simp
  next
    case (Inr w1)
    show ?thesis
    proof (cases "json_full w1 \<and> \<not> failed k")
      case True
      then obtain as where as: "stream_entries emit api failed (Suc k) es (json_clear w1) = (as, Inr None)"
        "acts = AppendChunk (string_view w1) # Flush # as"
        using 2(3) Inr by (auto split: prod.splits)
      then have "chunks_aborted as \<and> (\<exists>i. failed i)" using 2(1) Inr True by blast
      then show ?thesis using as(2) by (cases as) auto
    next
      case False
      then show ?thesis using 2(2,3) Inr by (auto split: if_splits)
    qed
  qed
qed simp

lemma handler_responds:
  assumes "handler_body srv kind env timeout q = (acts, None)"
  shows "response_complete acts \<or> kind = SPARQLStreamingEndpoint \<and> (\<exists>i. write_failed env i) \<and> response_aborted acts"
proof (cases kind)
  case SPARQLStreamingEndpoint
  then show ?thesis
    using assms stream_entries_done stream_entries_aborted
    by (fastforce simp: handler_body_def stream_body_def split: prod.splits sum.splits option.splits)
qed (use assms in \<open>auto simp: handler_body_def sparql_body_def count_body_def Let_def split: prod.splits sum.splits option.splits if_splits\<close>)

lemma task_responds:
  assumes "task_answer srv cfg j = (acts, None)"
  shows "responded j acts"
proof -
  have result: "query_result srv (Some (job_request j))
      (handler_body srv (job_kind j) (job_env j) (request_deadline cfg (job_arrival j))) = (acts, None)"
    using assms by (auto simp: task_answer_def task_outcome_def split: prod.splits option.splits)
  show ?thesis
  proof (cases "param_result srv (Some (job_request j))")
    case (Pair as r)
    show ?thesis
    proof (cases "\<exists>q. r = Inr (Some q)")
      case True
      then obtain q where "handler_body srv (job_kind j) (job_env j) (request_deadline cfg (job_arrival j)) q = (acts, None)"
        using result Pair by (auto simp: query_result_def)
      from handler_responds [OF this] show ?thesis by (simp add: responded_def)
    next
      case False
      then have "as = acts" "r = Inr None" using result Pair by (auto simp: query_result_def split: sum.splits option.splits)
      then have "response_complete acts"
        using Pair by (auto simp: param_result_def split: option.splits sum.splits if_splits)
      then show ?thesis by (simp add: responded_def)
    qed
  qed
qed

text \<open>An exception that leaves a task ends the process, and nothing is answered after that.\<close>

lemma answered_exceptions:
  assumes "served srv cfg workers io_threads (requests_start m e) s" and "\<not> crashed s" and "(j, status, acts, x) \<in> set (answered s)"
  shows "x = None"
  using assms
proof (induction)
  case start
  then show ?case by (simp add: requests_start_def)
next
  case (arrives s s')
  from arrives(2,1,3-5) show ?case by cases auto
next
  case (works s s')
  from works(2,1,3-5) show ?case by cases auto
qed

lemma served_works:
  "(work srv cfg ^^ n) s s' \<Longrightarrow> served srv cfg workers io_threads s0 s \<Longrightarrow> served srv cfg workers io_threads s0 s'"
  by (induction n arbitrary: s') (auto intro: served.works)

lemma works_steps:
  assumes "(work srv cfg ^^ n) s s'"
  shows "steps_left s = n + steps_left s'" and "all_jobs s' = all_jobs s"
  using assms
proof (atomize (full), induction n arbitrary: s')
  case (Suc n)
  then obtain u where "(work srv cfg ^^ n) s u" "work srv cfg u s'" by auto
  with Suc.IH show ?case using work_step by fastforce
qed simp

lemma steps_left_le:
  fixes s :: "'l request_state"
  shows "steps_left s \<le> 3 * (size (accepting s) + size (tasks s))"
proof -
  have three: "task_steps t \<le> 3" for t :: "'l task" by (cases t) simp_all
  have "(\<Sum>t \<in># T. task_steps t) \<le> 3 * size T" for T :: "'l task multiset"
    by (induction T) (use three in \<open>simp_all add: add_le_mono\<close>)
  then show ?thesis by (simp add: steps_left_def)
qed

text \<open>
  C13. Every request that was admitted gets its response, unless the process crashes. From any state the server
  reaches, when no more requests arrive, the tasks come to an end after at most three steps per admitted request, however
  they interleave. Then, unless an exception has left a task, exactly the requests admitted before have been answered in
  addition; and every request that was admitted has been sent exactly one response that is complete, a response with its
  body or a chunked response that has been ended, except that a stream stops after a flush if a write to its client
  failed. So no handler returns without having responded.
\<close>

theorem admitted_requests_answered:
  assumes "served srv cfg workers io_threads (requests_start m e) s" and "(work srv cfg ^^ n) s s'"
  shows "n \<le> 3 * (size (accepting s) + size (tasks s)) \<and>
         ((\<nexists>s''. work srv cfg s' s'') \<longrightarrow>
            crashed s' \<or>
            accepting s' = {#} \<and> tasks s' = {#} \<and>
            mset (map fst (answered s')) = accepting s + image_mset task_job (tasks s) + mset (map fst (answered s)) \<and>
            (\<forall>j status acts x. (j, status, acts, x) \<in> set (answered s') \<longrightarrow>
               x = None \<and> (if status = Accepted then responded j acts else acts = [])))"
proof (intro conjI impI)
  show "n \<le> 3 * (size (accepting s) + size (tasks s))" using works_steps(1) [OF assms(2)] steps_left_le [of s] by linarith
next
  assume stuck: "\<nexists>s''. work srv cfg s' s''"
  have served: "served srv cfg workers io_threads (requests_start m e) s'" by (rule served_works [OF assms(2,1)])
  show "crashed s' \<or> accepting s' = {#} \<and> tasks s' = {#} \<and>
      mset (map fst (answered s')) = accepting s + image_mset task_job (tasks s) + mset (map fst (answered s)) \<and>
      (\<forall>j status acts x. (j, status, acts, x) \<in> set (answered s') \<longrightarrow>
         x = None \<and> (if status = Accepted then responded j acts else acts = []))"
  proof (cases "crashed s'")
    case False
    then have zero: "steps_left s' = 0" using work_possible stuck by blast
    have "mset (map fst (answered s')) = all_jobs s" 
      using works_steps(2) [OF assms(2)] steps_left_zero [OF zero] by (simp add: all_jobs_def)
    moreover have "\<forall>j status acts x. (j, status, acts, x) \<in> set (answered s') \<longrightarrow>
        x = None \<and> (if status = Accepted then responded j acts else acts = [])"
    proof (intro allI impI)
      fix j status acts x
      assume that: "(j, status, acts, x) \<in> set (answered s')"
      have "x = None" by (rule answered_exceptions [OF served False that])
      moreover have "(status, acts, x) = answer srv cfg j" using served_ok [OF served] that by (auto simp: requests_ok_def)
      ultimately show "x = None \<and> (if status = Accepted then responded j acts else acts = [])"
        using task_responds [of srv cfg j acts] by (auto simp: answer_def split: if_splits)
    qed
    moreover have "all_jobs s = accepting s + image_mset task_job (tasks s) + mset (map fst (answered s))"
      by (rule all_jobs_def)
    ultimately show ?thesis using steps_left_zero [OF zero] by (intro disjI2 conjI) (assumption | simp only:)+
  qed simp
qed

theorem admitted_requests_answered_witness:
  "(work sample_server sample_cfg ^^ 2) scheduled_state answered_state \<and>
   mset (map fst (answered answered_state)) = {#bad_job#} \<and> response_complete bad_answer"
proof -
  have "steps_left answered_state = 0" by (simp add: answered_state_def steps_left_def requests_start_def)
  then have stuck: "\<nexists>u. work sample_server sample_cfg answered_state u" using work_step(1) by fastforce
  have parts: "\<not> crashed answered_state" "accepting scheduled_state = {#}" "tasks scheduled_state = {#Scheduled bad_job#}"
    "answered scheduled_state = []" "job_kind bad_job = CountEndpoint"
    "(bad_job, Accepted, bad_answer, None) \<in> set (answered answered_state)"
    by (simp_all add: answered_state_def scheduled_state_def requests_start_def bad_job_def sample_job_def)
  with admitted_requests_answered [OF sample_steps] stuck
  have "responded bad_job bad_answer" by fastforce
  moreover have "mset (map fst (answered answered_state)) = {#bad_job#}"
    using admitted_requests_answered [OF sample_steps] stuck parts(1-4) by (simp only: simp_thms) simp
  ultimately show ?thesis using sample_steps(2) parts(5) by (simp add: responded_def)
qed

end
