(* ===== verification/Server_Loop.thy ===== *)
theory Server_Loop
  imports Endpoints
begin

text \<open>
  \<open>HTTPServer\<close> (\<open>libs/endpoint\<close>): what the server is started with, and its main loop as a step relation.

  \<^item> The constructor, the registration of the routes and the settings handed to restinio.
  \<^item> The loop: the main thread starts the server, installs the signal handlers, waits in \<open>pause()\<close> for a
    signal, stops the server and waits for the tasks of the executor. Signals are delivered at any time,
    by POSIX to the main thread or to any other; requests start tasks as long as the server accepts them.

  restinio, its threads and the executor are libraries. \<open>server->stop()\<close> only asks the server to end; restinio
  documents that it calls the clean-up function, here \<open>executor_.wait_for_all()\<close>, when the server has ended
  its work, so that no handler is called from then on, and that \<open>server->wait()\<close> returns after that. In between
  handlers are called and tasks begin as before.
\<close>

subsection \<open>The server and its settings\<close>

record express_router =
  get_routes :: "(string \<times> endpoint_kind) list"
  non_matched :: "http_action option"

record 'l http_server =
  query_cache :: "'l query_cache"
  router :: "express_router option"
  server_cfg :: endpoint_cfg

definition http_server_new :: "endpoint_cfg \<Rightarrow> 'l http_server" where
  "http_server_new cfg =
     \<lparr>query_cache = lru_new 1000 100, router = Some \<lparr>get_routes = [], non_matched = None\<rparr>, server_cfg = cfg\<rparr>"

text \<open>The accessor \<open>router()\<close> dereferences the pointer, which is null once the server has been started.\<close>

definition server_router :: "'l http_server \<Rightarrow> exn + express_router" where
  "server_router srv = (case router srv of None \<Rightarrow> Inl NullDeref | Some r \<Rightarrow> Inr r)"

definition http_get :: "string \<Rightarrow> endpoint_kind \<Rightarrow> express_router \<Rightarrow> express_router" where
  "http_get path kind r = r\<lparr>get_routes := get_routes r @ [(path, kind)]\<rparr>"

definition register_routes :: "express_router \<Rightarrow> express_router" where
  "register_routes r =
     (http_get ''/count'' CountEndpoint (http_get ''/stream'' SPARQLStreamingEndpoint (http_get ''/sparql'' SPARQLEndpoint r)))
       \<lparr>non_matched := Some (Respond 404 [] [] True)\<rparr>"

record server_settings =
  max_parallel_connections :: nat
  handle_request_timeout :: time
  read_next_http_message_timelimit :: time
  write_http_response_timelimit :: time
  max_pipelined_requests :: nat
  address :: string
  listen_port :: "16 word"
  request_handler :: express_router
  thread_pool :: nat

text \<open>\<open>scale\<close> is the multiplication of a duration by 0.95 in double precision, rounded towards zero.\<close>

definition time_limit :: "(time \<Rightarrow> time) \<Rightarrow> endpoint_cfg \<Rightarrow> time" where
  "time_limit scale cfg = (case opt_timeout_duration cfg of Some d \<Rightarrow> scale d | None \<Rightarrow> time_max)"

definition settings_of :: "(time \<Rightarrow> time) \<Rightarrow> endpoint_cfg \<Rightarrow> express_router \<Rightarrow> server_settings" where
  "settings_of scale cfg r =
     \<lparr>max_parallel_connections = unat (threads cfg), handle_request_timeout = time_limit scale cfg,
      read_next_http_message_timelimit = 1000000000, write_http_response_timelimit = time_limit scale cfg,
      max_pipelined_requests = 1, address = ''0.0.0.0'', listen_port = port cfg, request_handler = r,
      thread_pool = pool_size cfg\<rparr>"

text \<open>The router is moved into the settings: the server cannot be started twice.\<close>

definition http_server_start :: "(time \<Rightarrow> time) \<Rightarrow> 'l http_server \<Rightarrow> exn + server_settings \<times> 'l http_server" where
  "http_server_start scale srv =
     (case router srv of
        None \<Rightarrow> Inl NullDeref
      | Some r \<Rightarrow> Inr (settings_of scale (server_cfg srv) (register_routes r), srv\<lparr>router := None\<rparr>))"

lemma started_server:
  "\<exists>st srv. http_server_start scale (http_server_new cfg) = Inr (st, srv) \<and>
     get_routes (request_handler st) = routes \<and> http_server_start scale srv = Inl NullDeref \<and> server_router srv = Inl NullDeref"
  by (simp add: http_server_start_def server_router_def http_server_new_def settings_of_def register_routes_def http_get_def routes_def)

text \<open>
  \<open>restinio_spd_logger_t\<close> builds every message and hands it to spdlog at its level, also if that level is
  switched off.
\<close>

datatype log_level = LevelTrace | LevelInfo | LevelWarn | LevelError

definition logger_trace :: "(unit \<Rightarrow> string) \<Rightarrow> log_level \<times> string" where
  "logger_trace mb = (LevelTrace, mb ())"

definition logger_info :: "(unit \<Rightarrow> string) \<Rightarrow> log_level \<times> string" where
  "logger_info mb = (LevelInfo, mb ())"

definition logger_warn :: "(unit \<Rightarrow> string) \<Rightarrow> log_level \<times> string" where
  "logger_warn mb = (LevelWarn, mb ())"

definition logger_error :: "(unit \<Rightarrow> string) \<Rightarrow> log_level \<times> string" where
  "logger_error mb = (LevelError, mb ())"

subsection \<open>The main loop\<close>

datatype signal = SIGINT | SIGHUP | SIGTERM

fun signum :: "signal \<Rightarrow> int" where
  "signum SIGHUP = 1"
| "signum SIGINT = 2"
| "signum SIGTERM = 15"

text \<open>
  Where the main thread is: \<open>AtTest\<close> at the condition of the loop, \<open>AtPause\<close> behind the condition but not
  yet in \<open>pause()\<close>, \<open>InPause\<close> suspended there.
\<close>

datatype main_pc =
    AtRun | AtSigint | AtSighup | AtTest | AtPause | InPause | AtStop | AtWait | Finished | Killed

text \<open>\<open>serving\<close>: threads of restinio may call request handlers; \<open>cleaned_up\<close>: the clean-up function has returned.\<close>

record http_loop =
  loop_pc :: main_pc
  signal_received :: int
  installed :: "signal set"
  serving :: bool
  stop_requested :: bool
  cleaned_up :: bool
  running_tasks :: nat

datatype action =
    MainStep
  | SignalTo bool signal
  | TaskBegins
  | TaskEnds
  | ServerEnds
  | CleanUp

definition loop_start :: http_loop where
  "loop_start = \<lparr>loop_pc = AtRun, signal_received = 0, installed = {}, serving = False, stop_requested = False,
     cleaned_up = False, running_tasks = 0\<rparr>"

text \<open>
  \<open>SignalTo main sig\<close> is the delivery of a signal, to the main thread or to another one. A signal without a
  handler ends the process.
\<close>

inductive loop_step :: "action \<Rightarrow> http_loop \<Rightarrow> http_loop \<Rightarrow> bool" where
  run_async: "loop_pc s = AtRun \<Longrightarrow> loop_step MainStep s (s\<lparr>loop_pc := AtSigint, serving := True\<rparr>)"
| sigaction_int: "loop_pc s = AtSigint \<Longrightarrow>
    loop_step MainStep s (s\<lparr>loop_pc := AtSighup, installed := insert SIGINT (installed s)\<rparr>)"
| sigaction_hup: "loop_pc s = AtSighup \<Longrightarrow>
    loop_step MainStep s (s\<lparr>loop_pc := AtTest, installed := insert SIGHUP (installed s)\<rparr>)"
| test: "loop_pc s = AtTest \<Longrightarrow>
    loop_step MainStep s (s\<lparr>loop_pc := (if signal_received s = 0 then AtPause else AtStop)\<rparr>)"
| pause: "loop_pc s = AtPause \<Longrightarrow> loop_step MainStep s (s\<lparr>loop_pc := InPause\<rparr>)"
| stop: "loop_pc s = AtStop \<Longrightarrow> loop_step MainStep s (s\<lparr>loop_pc := AtWait, stop_requested := True\<rparr>)"
| wait: "loop_pc s = AtWait \<Longrightarrow> cleaned_up s \<Longrightarrow> loop_step MainStep s (s\<lparr>loop_pc := Finished\<rparr>)"
| handled: "loop_pc s \<noteq> Killed \<Longrightarrow> sig \<in> installed s \<Longrightarrow>
    loop_step (SignalTo main sig) s
      (s\<lparr>signal_received := signum sig, loop_pc := (if main \<and> loop_pc s = InPause then AtTest else loop_pc s)\<rparr>)"
| killed: "loop_pc s \<noteq> Killed \<Longrightarrow> sig \<notin> installed s \<Longrightarrow> loop_step (SignalTo main sig) s (s\<lparr>loop_pc := Killed\<rparr>)"
| task_begins: "loop_pc s \<noteq> Killed \<Longrightarrow> serving s \<Longrightarrow>
    loop_step TaskBegins s (s\<lparr>running_tasks := Suc (running_tasks s)\<rparr>)"
| task_ends: "loop_pc s \<noteq> Killed \<Longrightarrow> running_tasks s = Suc n \<Longrightarrow> loop_step TaskEnds s (s\<lparr>running_tasks := n\<rparr>)"
| server_ends: "loop_pc s \<noteq> Killed \<Longrightarrow> stop_requested s \<Longrightarrow> serving s \<Longrightarrow> loop_step ServerEnds s (s\<lparr>serving := False\<rparr>)"
| clean_up: "loop_pc s \<noteq> Killed \<Longrightarrow> stop_requested s \<Longrightarrow> \<not> serving s \<Longrightarrow> \<not> cleaned_up s \<Longrightarrow> running_tasks s = 0 \<Longrightarrow>
    loop_step CleanUp s (s\<lparr>cleaned_up := True\<rparr>)"

inductive_cases loop_stepE: "loop_step a s s'"
inductive_cases main_stepE: "loop_step MainStep s s'"
inductive_simps main_step_simps: "loop_step MainStep s s'"

inductive loop_run :: "action list \<Rightarrow> http_loop \<Rightarrow> http_loop \<Rightarrow> bool" where
  run_nil: "loop_run [] s s"
| run_snoc: "loop_run as s t \<Longrightarrow> loop_step a t u \<Longrightarrow> loop_run (as @ [a]) s u"

definition loop_reachable :: "http_loop \<Rightarrow> bool" where
  "loop_reachable s \<longleftrightarrow> (\<exists>as. loop_run as loop_start s)"

subsection \<open>The invariant\<close>

text \<open>What holds where the main thread is.\<close>

fun ok_at :: "main_pc \<Rightarrow> http_loop \<Rightarrow> bool" where
  "ok_at AtRun s \<longleftrightarrow> installed s = {} \<and> \<not> stop_requested s \<and> \<not> cleaned_up s"
| "ok_at AtSigint s \<longleftrightarrow> installed s = {} \<and> serving s \<and> \<not> stop_requested s \<and> \<not> cleaned_up s"
| "ok_at AtSighup s \<longleftrightarrow> installed s = {SIGINT} \<and> serving s \<and> \<not> stop_requested s \<and> \<not> cleaned_up s"
| "ok_at AtStop s \<longleftrightarrow>
     installed s = {SIGHUP, SIGINT} \<and> serving s \<and> \<not> stop_requested s \<and> \<not> cleaned_up s \<and> signal_received s \<noteq> 0"
| "ok_at AtWait s \<longleftrightarrow>
     installed s = {SIGHUP, SIGINT} \<and> stop_requested s \<and> signal_received s \<noteq> 0 \<and>
     (cleaned_up s \<longrightarrow> \<not> serving s \<and> running_tasks s = 0)"
| "ok_at Finished s \<longleftrightarrow>
     installed s = {SIGHUP, SIGINT} \<and> stop_requested s \<and> signal_received s \<noteq> 0 \<and>
     cleaned_up s \<and> \<not> serving s \<and> running_tasks s = 0"
| "ok_at Killed s \<longleftrightarrow> True"
| "ok_at _ s \<longleftrightarrow> installed s = {SIGHUP, SIGINT} \<and> serving s \<and> \<not> stop_requested s \<and> \<not> cleaned_up s"

definition loop_ok :: "http_loop \<Rightarrow> bool" where
  "loop_ok s \<longleftrightarrow> ok_at (loop_pc s) s"

lemma signum_nonzero [simp]: "signum sig \<noteq> 0"
  by (cases sig) simp_all

lemma loop_ok_start: "loop_ok loop_start"
  by (simp add: loop_ok_def loop_start_def)

lemma loop_ok_step:
  assumes "loop_step a s s'" and "loop_ok s"
  shows "loop_ok s'"
  using assms unfolding loop_ok_def by cases ((cases "loop_pc s"; simp)+)

lemma loop_ok_run: "loop_run as s s' \<Longrightarrow> loop_ok s \<Longrightarrow> loop_ok s'"
  by (induction rule: loop_run.induct) (auto intro: loop_ok_step)

lemma reachable_loop_ok: "loop_reachable s \<Longrightarrow> loop_ok s"
  by (auto simp: loop_reachable_def intro: loop_ok_run loop_ok_start)

lemma handled_signals:
  "loop_ok s \<Longrightarrow> loop_pc s \<notin> {AtRun, AtSigint, AtSighup, Killed} \<Longrightarrow> sig \<noteq> SIGTERM \<Longrightarrow> sig \<in> installed s"
  by (cases "loop_pc s"; cases sig) (simp_all add: loop_ok_def)

text \<open>
  C20. The server shuts down gracefully. Once started it serves until a SIGINT or SIGHUP has been received and
  \<open>stop()\<close> has been called; when \<open>operator()\<close> returns, no request handler is called any more, no task is running,
  and neither changes afterwards. The process is ended by SIGINT only before the first \<open>sigaction\<close> has returned, by
  SIGHUP only before the second has; of the three signals of the model only SIGTERM, which has no handler, can end it later.
\<close>

theorem graceful_shutdown:
  assumes "loop_reachable s"
  shows "(loop_pc s \<notin> {AtRun, Killed} \<and> \<not> serving s \<longrightarrow> signal_received s \<noteq> 0 \<and> loop_pc s \<in> {AtWait, Finished}) \<and>
         (loop_pc s = Finished \<longrightarrow> \<not> serving s \<and> running_tasks s = 0 \<and>
            (\<forall>a s'. loop_step a s s' \<longrightarrow> \<not> serving s' \<and> running_tasks s' = 0)) \<and>
         (\<forall>a s'. loop_step a s s' \<and> loop_pc s' = Killed \<longrightarrow>
            (\<exists>main sig. a = SignalTo main sig \<and>
               (sig = SIGINT \<longrightarrow> loop_pc s \<in> {AtRun, AtSigint}) \<and> (sig = SIGHUP \<longrightarrow> loop_pc s \<in> {AtRun, AtSigint, AtSighup})))"
proof (intro conjI impI allI)
  have ok: "ok_at (loop_pc s) s" using reachable_loop_ok [OF assms] by (simp add: loop_ok_def)
  show "signal_received s \<noteq> 0" "loop_pc s \<in> {AtWait, Finished}" if "loop_pc s \<notin> {AtRun, Killed} \<and> \<not> serving s"
    using ok that by (cases "loop_pc s"; simp)+
  show "\<not> serving s" "running_tasks s = 0" if "loop_pc s = Finished"
    using ok that by simp_all
  show "\<not> serving s'" "running_tasks s' = 0" if "loop_pc s = Finished" "loop_step a s s'" for a s'
    using that(2,1) ok by (cases rule: loop_step.cases; simp)+
  show "\<exists>main sig. a = SignalTo main sig \<and> (sig = SIGINT \<longrightarrow> loop_pc s \<in> {AtRun, AtSigint}) \<and>
      (sig = SIGHUP \<longrightarrow> loop_pc s \<in> {AtRun, AtSigint, AtSighup})" if "loop_step a s s' \<and> loop_pc s' = Killed" for a s'
    using conjunct1 [OF that] conjunct2 [OF that]
  proof (cases rule: loop_step.cases)
    case (killed sig main)
    then show ?thesis using ok by (cases "loop_pc s") auto
  qed (simp_all split: if_splits)
qed

text \<open>A run: the server starts, a request comes in, and an interrupt arrives while the main thread is suspended.\<close>

definition sample_run_state :: "main_pc \<Rightarrow> int \<Rightarrow> bool \<Rightarrow> http_loop" where
  "sample_run_state pc sig stopped =
     \<lparr>loop_pc = pc, signal_received = sig, installed = {SIGHUP, SIGINT}, serving = True, stop_requested = stopped,
      cleaned_up = False, running_tasks = 0\<rparr>"

lemma run_step: "loop_run as s t \<Longrightarrow> loop_step a t u \<Longrightarrow> bs = as @ [a] \<Longrightarrow> loop_run bs s u"
  by (simp add: run_snoc)

lemma run_to_pause: "loop_run (replicate 4 MainStep) loop_start (sample_run_state AtPause 0 False)"
proof -
  have "loop_run [] loop_start loop_start" by (rule run_nil)
  then have "loop_run [MainStep] loop_start (loop_start\<lparr>loop_pc := AtSigint, serving := True\<rparr>)"
    by (rule run_step) (simp_all add: main_step_simps loop_start_def)
  then have "loop_run [MainStep, MainStep] loop_start
      (loop_start\<lparr>loop_pc := AtSighup, serving := True, installed := {SIGINT}\<rparr>)"
    by (rule run_step) (simp_all add: main_step_simps loop_start_def)
  then have "loop_run [MainStep, MainStep, MainStep] loop_start (sample_run_state AtTest 0 False)"
    by (rule run_step) (auto simp: main_step_simps loop_start_def sample_run_state_def)
  then show ?thesis
    by (rule run_step) (simp_all add: main_step_simps sample_run_state_def eval_nat_numeral)
qed

lemma signal_step:
  "sig \<noteq> SIGTERM \<Longrightarrow> pc \<noteq> Killed \<Longrightarrow>
   loop_step (SignalTo main sig) (sample_run_state pc n st)
     (sample_run_state (if main \<and> pc = InPause then AtTest else pc) (signum sig) st)"
  using handled [of "sample_run_state pc n st" sig main] by (cases sig) (simp_all add: sample_run_state_def cong: if_cong)

lemma run_to_suspended: "loop_run (replicate 5 MainStep) loop_start (sample_run_state InPause 0 False)"
  by (rule run_step [OF run_to_pause]) (simp_all add: main_step_simps sample_run_state_def eval_nat_numeral)

lemma run_to_test: "loop_run (replicate 5 MainStep @ [SignalTo True SIGINT]) loop_start (sample_run_state AtTest 2 False)"
  by (rule run_step [OF run_to_suspended]) (use signal_step [of SIGINT InPause True 0 False] in simp_all)

lemma run_to_stop: "loop_run [MainStep] (sample_run_state AtTest 2 False) (sample_run_state AtStop 2 False)"
  by (rule run_step [OF run_nil]) (simp_all add: main_step_simps sample_run_state_def)

lemma run_to_wait: "loop_run [MainStep, MainStep] (sample_run_state AtTest 2 False) (sample_run_state AtWait 2 True)"
  by (rule run_step [OF run_to_stop]) (simp_all add: main_step_simps sample_run_state_def)

lemma loop_run_append: "loop_run bs t u \<Longrightarrow> loop_run as s t \<Longrightarrow> loop_run (as @ bs) s u"
  by (induction rule: loop_run.induct) (simp_all add: run_snoc flip: append_assoc)

lemma run_to_finish:
  "loop_run [MainStep, MainStep, ServerEnds, CleanUp, MainStep] (sample_run_state AtTest 2 False)
     ((sample_run_state Finished 2 True)\<lparr>serving := False, cleaned_up := True\<rparr>)"
proof -
  let ?w = "sample_run_state AtWait 2 True"
  have "loop_run [MainStep, MainStep, ServerEnds] (sample_run_state AtTest 2 False) (?w\<lparr>serving := False\<rparr>)"
    by (rule run_step [OF run_to_wait]) (use server_ends [of ?w] in \<open>simp_all add: sample_run_state_def\<close>)
  then have "loop_run [MainStep, MainStep, ServerEnds, CleanUp] (sample_run_state AtTest 2 False) (?w\<lparr>serving := False, cleaned_up := True\<rparr>)"
    by (rule run_step) (use clean_up [of "?w\<lparr>serving := False\<rparr>"] in \<open>simp_all add: sample_run_state_def\<close>)
  then show ?thesis
    by (rule run_step) (simp_all add: main_step_simps sample_run_state_def)
qed

theorem graceful_shutdown_witness:
  "\<exists>as s. loop_run as loop_start s \<and> loop_pc s = Finished \<and> \<not> serving s \<and> running_tasks s = 0"
proof -
  let ?s = "(sample_run_state Finished 2 True)\<lparr>serving := False, cleaned_up := True\<rparr>"
  have run: "loop_run ((replicate 5 MainStep @ [SignalTo True SIGINT]) @ [MainStep, MainStep, ServerEnds, CleanUp, MainStep]) loop_start ?s"
    by (rule loop_run_append [OF run_to_finish run_to_test])
  then have "loop_reachable ?s" unfolding loop_reachable_def by blast
  moreover have "loop_pc ?s = Finished" by (simp add: sample_run_state_def)
  ultimately have "\<not> serving ?s \<and> running_tasks ?s = 0" using graceful_shutdown by blast
  with run \<open>loop_pc ?s = Finished\<close> show ?thesis by blast
qed

subsection \<open>A signal leads to the end\<close>

text \<open>How many steps the main thread still has to make once a signal has been noticed.\<close>

fun steps_left :: "main_pc \<Rightarrow> nat" where
  "steps_left AtTest = 3"
| "steps_left AtStop = 2"
| "steps_left AtWait = 1"
| "steps_left _ = 0"

definition main_steps :: "action list \<Rightarrow> nat" where
  "main_steps as = length (filter (\<lambda>a. a = MainStep) as)"

definition closing :: "http_loop \<Rightarrow> bool" where
  "closing s \<longleftrightarrow> signal_received s \<noteq> 0 \<and> loop_pc s \<in> {AtTest, AtStop, AtWait, Finished} \<and> loop_ok s"

lemma closing_step:
  assumes "loop_step a s s'" and "closing s" and "\<forall>main. a \<noteq> SignalTo main SIGTERM"
  shows "closing s' \<and> steps_left (loop_pc s) = steps_left (loop_pc s') + main_steps [a]"
proof -
  have "loop_ok s'" using assms loop_ok_step by (simp add: closing_def)
  with assms(1,2) show ?thesis
  proof (cases rule: loop_step.cases)
    case (killed sig main)
    then show ?thesis using assms(2,3) handled_signals [of s sig] by (auto simp: closing_def)
  qed (auto simp: closing_def main_steps_def)
qed

lemma closing_run:
  "loop_run as s s' \<Longrightarrow> closing s \<Longrightarrow> \<forall>main. SignalTo main SIGTERM \<notin> set as \<Longrightarrow>
   closing s' \<and> steps_left (loop_pc s) = steps_left (loop_pc s') + main_steps as"
proof (induction rule: loop_run.induct)
  case (run_nil s)
  then show ?case by (simp add: main_steps_def)
next
  case (run_snoc as s t a u)
  have signals: "\<forall>main. SignalTo main SIGTERM \<notin> set as" "\<forall>main. a \<noteq> SignalTo main SIGTERM"
    using run_snoc.prems(2) by auto
  have "closing t \<and> steps_left (loop_pc s) = steps_left (loop_pc t) + main_steps as"
    by (rule run_snoc.IH [OF run_snoc.prems(1) signals(1)])
  moreover from this have "closing u \<and> steps_left (loop_pc t) = steps_left (loop_pc u) + main_steps [a]"
    using closing_step [OF run_snoc.hyps(2) _ signals(2)] by blast
  moreover have "main_steps (as @ [a]) = main_steps as + main_steps [a]" by (simp add: main_steps_def)
  ultimately show ?case by linarith
qed

lemma closing_progress:
  assumes "closing s"
  shows "loop_pc s = Finished \<or> (\<exists>a s'. a \<in> {MainStep, ServerEnds, CleanUp} \<and> loop_step a s s') \<or>
         loop_pc s = AtWait \<and> \<not> serving s \<and> 0 < running_tasks s \<and> (\<exists>s'. loop_step TaskEnds s s')"
proof (cases "loop_pc s = AtWait")
  case True
  then have stop: "stop_requested s" "loop_pc s \<noteq> Killed" using assms by (auto simp: closing_def loop_ok_def)
  show ?thesis
  proof (cases "serving s")
    case True
    then show ?thesis using server_ends [OF stop(2,1)] by blast
  next
    case idle: False
    show ?thesis
    proof (cases "cleaned_up s")
      case True
      then show ?thesis using wait [OF \<open>loop_pc s = AtWait\<close>] by blast
    next
      case False
      show ?thesis
      proof (cases "running_tasks s")
        case 0
        then show ?thesis using clean_up [OF stop(2,1) idle False] by blast
      next
        case (Suc n)
        then have "\<exists>s'. loop_step TaskEnds s s'" using task_ends [OF stop(2)] by blast
        with Suc idle \<open>loop_pc s = AtWait\<close> show ?thesis by simp
      qed
    qed
  qed
next
  case False
  then consider "loop_pc s = Finished" | "loop_pc s = AtTest" | "loop_pc s = AtStop"
    using assms unfolding closing_def by blast
  then show ?thesis
  proof cases
    case 1
    then show ?thesis by (rule disjI1)
  next
    case 2
    have "\<exists>s'. loop_step MainStep s s'" by (rule exI) (rule test [OF 2])
    then show ?thesis by blast
  next
    case 3
    have "\<exists>s'. loop_step MainStep s s'" by (rule exI) (rule stop [OF 3])
    then show ?thesis by blast
  qed
qed

text \<open>
  C21. A SIGINT or SIGHUP that arrives at the right time shuts the server down: if it is delivered to the main
  thread while that is suspended in \<open>pause()\<close>, or to any thread while the main thread is about to test the flag,
  then whatever else happens, requests and further signals other than SIGTERM included, the main thread is done after
  three more steps; until then it can make its next step, or restinio can end the server, or the clean-up function
  can return, or the server has ended and a task that still runs can end.
\<close>

theorem signal_shuts_down:
  assumes "loop_reachable r" and "loop_step (SignalTo main sig) r s" and "sig \<noteq> SIGTERM"
    and "loop_pc r = AtTest \<or> main \<and> loop_pc r = InPause"
    and "loop_run as s s'" and "\<forall>main. SignalTo main SIGTERM \<notin> set as"
  shows "main_steps as \<le> 3 \<and> (main_steps as = 3 \<longleftrightarrow> loop_pc s' = Finished) \<and>
         (loop_pc s' = Finished \<or> (\<exists>a s''. a \<in> {MainStep, ServerEnds, CleanUp} \<and> loop_step a s' s'') \<or>
          loop_pc s' = AtWait \<and> \<not> serving s' \<and> 0 < running_tasks s' \<and> (\<exists>s''. loop_step TaskEnds s' s''))"
proof -
  have ok: "loop_ok r" by (rule reachable_loop_ok [OF assms(1)])
  have "closing s \<and> loop_pc s = AtTest"
    using assms(2)
  proof (cases rule: loop_step.cases)
    case handled
    then show ?thesis using assms(4) loop_ok_step [OF assms(2) ok] by (auto simp: closing_def)
  next
    case killed
    then show ?thesis using assms(4) handled_signals [OF ok _ assms(3)] by auto
  qed
  then have "closing s'" "3 = steps_left (loop_pc s') + main_steps as"
    using closing_run [OF assms(5) _ assms(6)] by auto
  moreover have "steps_left (loop_pc s') = 0 \<longleftrightarrow> loop_pc s' = Finished"
    using \<open>closing s'\<close> by (auto simp: closing_def)
  ultimately show ?thesis using closing_progress [of s'] by auto
qed

theorem signal_shuts_down_witness:
  "main_steps [MainStep, MainStep, ServerEnds, CleanUp, MainStep] = 3 \<and>
   (\<exists>as s. loop_run as (sample_run_state AtTest 2 False) s \<and> main_steps as = 3 \<and> loop_pc s = Finished)"
proof -
  let ?r = "sample_run_state InPause 0 False" and ?s = "sample_run_state AtTest 2 False"
  let ?as = "[MainStep, MainStep, ServerEnds, CleanUp, MainStep]"
  have "loop_reachable ?r" unfolding loop_reachable_def using run_to_suspended by blast
  moreover have "loop_step (SignalTo True SIGINT) ?r ?s"
    using signal_step [of SIGINT InPause True 0 False] by simp
  moreover have "loop_pc ?r = InPause" by (simp add: sample_run_state_def)
  ultimately have "main_steps ?as = 3 \<longleftrightarrow> loop_pc ((sample_run_state Finished 2 True)\<lparr>serving := False, cleaned_up := True\<rparr>) = Finished"
    using signal_shuts_down [of ?r True SIGINT ?s ?as] run_to_finish by auto
  moreover have "loop_pc ((sample_run_state Finished 2 True)\<lparr>serving := False, cleaned_up := True\<rparr>) = Finished"
    by (simp add: sample_run_state_def)
  ultimately show ?thesis using run_to_finish by blast
qed

subsection \<open>A signal can be lost\<close>

text \<open>The flag is set, but the main thread has tested it before, or is suspended and was not the one to be interrupted.\<close>

definition lost :: "int \<Rightarrow> http_loop \<Rightarrow> bool" where
  "lost n s \<longleftrightarrow> signal_received s = n \<and> loop_pc s \<in> {AtPause, InPause} \<and> serving s \<and> \<not> stop_requested s"

lemma lost_step: "loop_step a s s' \<Longrightarrow> lost n s \<Longrightarrow> \<forall>main sig. a \<noteq> SignalTo main sig \<Longrightarrow> lost n s'"
  by (erule loop_step.cases) (auto simp: lost_def)

lemma lost_run: "loop_run as s s' \<Longrightarrow> lost n s \<Longrightarrow> \<forall>main sig. SignalTo main sig \<notin> set as \<Longrightarrow> lost n s'"
  by (induction rule: loop_run.induct) (auto intro: lost_step)

text \<open>
  C22. A signal can be lost. There is a window, which the server does reach, between the test of the flag and the
  call of \<open>pause()\<close>: a SIGINT or SIGHUP delivered in it, to whatever thread, sets the flag, but the main thread
  goes on into \<open>pause()\<close> and, until a further signal arrives, never leaves it: the server goes on serving whatever
  else happens. The same holds if the main thread is already suspended and the signal is delivered to another thread.
\<close>

theorem lost_wakeup:
  "(\<exists>r. loop_reachable r \<and> loop_pc r = AtPause) \<and>
   (\<forall>r main sig s as s'. loop_reachable r \<and> (loop_pc r = AtPause \<or> loop_pc r = InPause \<and> \<not> main) \<and> sig \<noteq> SIGTERM \<and>
      loop_step (SignalTo main sig) r s \<and> loop_run as s s' \<and> (\<forall>main sig. SignalTo main sig \<notin> set as) \<longrightarrow>
      signal_received s' = signum sig \<and> loop_pc s' \<in> {AtPause, InPause} \<and> serving s')"
proof (intro conjI [of "\<exists>r. loop_reachable r \<and> loop_pc r = AtPause"] allI impI)
  show "\<exists>r. loop_reachable r \<and> loop_pc r = AtPause"
    using run_to_pause by (auto simp: loop_reachable_def sample_run_state_def intro!: exI [of _ "sample_run_state AtPause 0 False"])
next
  fix r main sig s as s'
  assume h: "loop_reachable r \<and> (loop_pc r = AtPause \<or> loop_pc r = InPause \<and> \<not> main) \<and> sig \<noteq> SIGTERM \<and>
    loop_step (SignalTo main sig) r s \<and> loop_run as s s' \<and> (\<forall>main sig. SignalTo main sig \<notin> set as)"
  then have ok: "loop_ok r" by (blast intro: reachable_loop_ok)
  then have inst: "sig \<in> installed r" using h by (intro handled_signals) auto
  have step: "loop_step (SignalTo main sig) r s" using h by blast
  have "lost (signum sig) s"
    using step inst h ok by cases (auto simp: lost_def loop_ok_def)
  then have "lost (signum sig) s'" using lost_run [of as s s'] h by blast
  then show "signal_received s' = signum sig \<and> loop_pc s' \<in> {AtPause, InPause} \<and> serving s'" by (auto simp: lost_def)
qed

theorem lost_wakeup_witness:
  "\<exists>s. loop_reachable s \<and> signal_received s = 2 \<and> loop_pc s = InPause \<and> serving s"
proof -
  let ?r = "sample_run_state AtPause 0 False" and ?s = "sample_run_state AtPause 2 False" and ?s' = "sample_run_state InPause 2 False"
  have r: "loop_reachable ?r" "loop_pc ?r = AtPause"
    using run_to_pause by (auto simp: loop_reachable_def sample_run_state_def)
  have step: "loop_step (SignalTo True SIGINT) ?r ?s" using signal_step [of SIGINT AtPause True 0 False] by simp
  have run: "loop_run [MainStep] ?s ?s'"
    by (rule run_step [OF run_nil]) (simp_all add: main_step_simps sample_run_state_def)
  have "signal_received ?s' = signum SIGINT \<and> serving ?s'"
    using lost_wakeup r step run by (force simp del: signum.simps)
  moreover have "loop_reachable ?s'"
    using loop_run_append [OF run run_snoc [OF run_to_pause step]] unfolding loop_reachable_def by blast
  ultimately show ?thesis by (auto simp: sample_run_state_def)
qed

end
