(* ===== verification/Command_Line.thy ===== *)
theory Command_Line
  imports Decimal
begin

text \<open>
  The command lines of the four programs (\<open>execs\<close>): the options each declares, how it reads them back, and
  the logger it sets up from them.

  The parser, cxxopts, is a library. Its result is a value of \<open>parse_result\<close>: how often an option was
  given, and its value, if it has one. \<open>cli_contract\<close> is what it documents for a table of declarations: an
  option that was given has a value of the declared type, one that was not has its default, if the
  default is a text of that type. Reading an option with \<open>as<T>()\<close> throws if it has no value, or a value of
  another type.
\<close>

subsection \<open>Declarations and results\<close>

datatype opt_type = TString | TBool | TUnsigned nat

record option_decl =
  opt_short :: string
  opt_long :: string
  opt_type :: "opt_type option"
  opt_default :: "string option"

abbreviation opt :: "string \<Rightarrow> string \<Rightarrow> opt_type \<Rightarrow> string option \<Rightarrow> option_decl" where
  "opt s l t d \<equiv> \<lparr>opt_short = s, opt_long = l, opt_type = Some t, opt_default = d\<rparr>"

abbreviation flag :: "string \<Rightarrow> string \<Rightarrow> option_decl" where
  "flag s l \<equiv> \<lparr>opt_short = s, opt_long = l, opt_type = None, opt_default = None\<rparr>"

datatype cxx_value = StringValue string | BoolValue bool | UnsignedValue nat nat

fun has_type :: "cxx_value \<Rightarrow> opt_type \<Rightarrow> bool" where
  "has_type (StringValue s) t \<longleftrightarrow> t = TString"
| "has_type (BoolValue b) t \<longleftrightarrow> t = TBool"
| "has_type (UnsignedValue w n) t \<longleftrightarrow> t = TUnsigned w \<and> n < 2 ^ w"

record parse_result =
  opt_count :: "string \<Rightarrow> nat"
  opt_value :: "string \<Rightarrow> cxx_value option"

text \<open>The value of a default: numerals in range, \<open>true\<close> and \<open>false\<close>, and any text as a string.\<close>

fun default_value :: "opt_type \<Rightarrow> string \<Rightarrow> cxx_value option" where
  "default_value TString s = Some (StringValue s)"
| "default_value TBool s =
     (if s = ''true'' then Some (BoolValue True) else if s = ''false'' then Some (BoolValue False) else None)"
| "default_value (TUnsigned w) s =
     (case read_nat s of None \<Rightarrow> None | Some n \<Rightarrow> if n < 2 ^ w then Some (UnsignedValue w n) else None)"

definition decl_contract :: "parse_result \<Rightarrow> option_decl \<Rightarrow> bool" where
  "decl_contract r d \<longleftrightarrow>
     (case opt_type d of
        None \<Rightarrow> True
      | Some t \<Rightarrow>
          if 0 < opt_count r (opt_long d) then \<exists>v. opt_value r (opt_long d) = Some v \<and> has_type v t
          else case opt_default d of
                 None \<Rightarrow> opt_value r (opt_long d) = None
               | Some s \<Rightarrow> default_value t s \<noteq> None \<longrightarrow> opt_value r (opt_long d) = default_value t s)"

definition cli_contract :: "option_decl list \<Rightarrow> parse_result \<Rightarrow> bool" where
  "cli_contract table r \<longleftrightarrow> list_all (decl_contract r) table"

subsection \<open>\<open>as<T>()\<close>\<close>

definition no_value :: exn where
  "no_value = LibraryError ''option_has_no_value''"

definition bad_cast :: exn where
  "bad_cast = LibraryError ''bad_cast''"

definition as_string :: "parse_result \<Rightarrow> string \<Rightarrow> exn + string" where
  "as_string r name =
     (case opt_value r name of None \<Rightarrow> Inl no_value | Some (StringValue s) \<Rightarrow> Inr s | _ \<Rightarrow> Inl bad_cast)"

definition as_bool :: "parse_result \<Rightarrow> string \<Rightarrow> exn + bool" where
  "as_bool r name =
     (case opt_value r name of None \<Rightarrow> Inl no_value | Some (BoolValue b) \<Rightarrow> Inr b | _ \<Rightarrow> Inl bad_cast)"

definition as_unsigned :: "nat \<Rightarrow> parse_result \<Rightarrow> string \<Rightarrow> exn + nat" where
  "as_unsigned w r name =
     (case opt_value r name of
        None \<Rightarrow> Inl no_value
      | Some (UnsignedValue w' n) \<Rightarrow> if w' = w then Inr n else Inl bad_cast
      | _ \<Rightarrow> Inl bad_cast)"

lemma decl_readable:
  assumes "decl_contract r (opt s l t d)"
    and "case d of None \<Rightarrow> 0 < opt_count r l | Some x \<Rightarrow> default_value t x \<noteq> None"
  shows "\<exists>v. opt_value r l = Some v \<and> has_type v t"
proof -
  have "has_type v t" if "default_value t x = Some v" for x v
    using that by (cases t) (auto split: if_splits option.splits)
  with assms show ?thesis by (auto simp: decl_contract_def split: if_splits option.splits)
qed

lemma has_type_cases:
  "has_type v TString \<longleftrightarrow> (\<exists>s. v = StringValue s)"
  "has_type v TBool \<longleftrightarrow> (\<exists>b. v = BoolValue b)"
  "has_type v (TUnsigned w) \<longleftrightarrow> (\<exists>n. v = UnsignedValue w n \<and> n < 2 ^ w)"
  by (cases v; auto)+

lemma readable:
  "\<exists>v. opt_value r l = Some v \<and> has_type v TString \<Longrightarrow> \<exists>y. as_string r l = Inr y"
  "\<exists>v. opt_value r l = Some v \<and> has_type v TBool \<Longrightarrow> \<exists>b. as_bool r l = Inr b"
  "\<exists>v. opt_value r l = Some v \<and> has_type v (TUnsigned w) \<Longrightarrow> \<exists>n. as_unsigned w r l = Inr n \<and> n < 2 ^ w"
  by (auto simp: has_type_cases as_string_def as_bool_def as_unsigned_def)

lemma read_declared:
  "decl_contract r (opt s l TString (Some x)) \<Longrightarrow> \<exists>y. as_string r l = Inr y"
  "decl_contract r (opt s l TString None) \<Longrightarrow> 0 < opt_count r l \<Longrightarrow> \<exists>y. as_string r l = Inr y"
  "decl_contract r (opt s l TBool (Some x)) \<Longrightarrow> default_value TBool x \<noteq> None \<Longrightarrow> \<exists>b. as_bool r l = Inr b"
  "decl_contract r (opt s l (TUnsigned w) (Some x)) \<Longrightarrow> default_value (TUnsigned w) x \<noteq> None \<Longrightarrow>
     \<exists>n. as_unsigned w r l = Inr n \<and> n < 2 ^ w"
  by (rule readable, erule decl_readable, simp)+

lemma read_missing:
  "decl_contract r (opt s l TString None) \<Longrightarrow> opt_count r l = 0 \<Longrightarrow> as_string r l = Inl no_value"
  by (simp add: as_string_def decl_contract_def)

text \<open>The result of a command line that gives no option.\<close>

fun defaults :: "option_decl list \<Rightarrow> string \<Rightarrow> cxx_value option" where
  "defaults [] name = None"
| "defaults (d # ds) name =
     (if opt_long d = name
      then case (opt_type d, opt_default d) of (Some t, Some s) \<Rightarrow> default_value t s | _ \<Rightarrow> None
      else defaults ds name)"

definition no_options :: "option_decl list \<Rightarrow> parse_result" where
  "no_options table = \<lparr>opt_count = (\<lambda>name. 0), opt_value = defaults table\<rparr>"

lemma defaults_of: "distinct (map opt_long table) \<Longrightarrow> d \<in> set table \<Longrightarrow>
    defaults table (opt_long d) = (case (opt_type d, opt_default d) of (Some t, Some s) \<Rightarrow> default_value t s | _ \<Rightarrow> None)"
  by (induction table) (auto simp: rev_image_eqI)

lemma no_options_contract: "distinct (map opt_long table) \<Longrightarrow> cli_contract table (no_options table)"
  by (auto simp: cli_contract_def list_all_iff decl_contract_def no_options_def defaults_of split: option.split)

text \<open>
  A main function is what it does, in order, and the exception that ends it, if one does: \<open>reading\<close> uses a
  value or stops at its exception, \<open>calling\<close> does something first.
\<close>

fun reading :: "exn + 'a \<Rightarrow> ('a \<Rightarrow> 'call list \<times> exn option) \<Rightarrow> 'call list \<times> exn option" where
  "reading (Inl e) f = ([], Some e)"
| "reading (Inr x) f = f x"

definition calling :: "'call list \<Rightarrow> 'call list \<times> exn option \<Rightarrow> 'call list \<times> exn option" where
  "calling cs p = (cs @ fst p, snd p)"

lemma calling_simps [simp]: "fst (calling cs p) = cs @ fst p" "snd (calling cs p) = snd p"
  by (simp_all add: calling_def)

subsection \<open>The tables\<close>

text \<open>\<open>cwd\<close> is \<open>fs::current_path()\<close>, \<open>hw\<close> is \<open>std::thread::hardware_concurrency()\<close>. Help texts are left out.\<close>

definition server_options :: "string \<Rightarrow> nat \<Rightarrow> option_decl list" where
  "server_options cwd hw =
     [opt ''s'' ''storage'' TString (Some cwd),
      opt ''t'' ''timeout'' (TUnsigned 32) (Some ''180''),
      opt ''j'' ''threads'' (TUnsigned 16) (Some (show_nat hw)),
      opt ''p'' ''port'' (TUnsigned 16) (Some ''9080''),
      opt ''l'' ''loglevel'' TString (Some ''info''),
      opt '''' ''logfile'' TBool (Some ''true''),
      opt '''' ''logstdout'' TBool (Some ''false''),
      opt '''' ''logfiledir'' TString (Some cwd),
      flag ''v'' ''version'',
      flag ''h'' ''help'']"

definition loader_options :: "string \<Rightarrow> option_decl list" where
  "loader_options cwd =
     [opt ''s'' ''storage'' TString (Some cwd),
      opt ''f'' ''file'' TString None,
      opt ''b'' ''bulksize'' (TUnsigned 32) (Some ''1000000''),
      opt ''l'' ''loglevel'' TString (Some ''info''),
      opt '''' ''logfile'' TBool (Some ''true''),
      opt '''' ''logstdout'' TBool (Some ''false''),
      opt '''' ''logfiledir'' TString (Some cwd),
      flag ''v'' ''version'',
      flag ''h'' ''help'']"

definition deduplicated_nt_options :: "option_decl list" where
  "deduplicated_nt_options =
     [opt ''f'' ''file'' TString None,
      opt ''m'' ''limit'' (TUnsigned 64) (Some (show_nat (2 ^ 64 - 1))),
      opt ''l'' ''loglevel'' TString (Some ''info''),
      flag ''v'' ''version'',
      flag ''h'' ''help'']"

definition rdf2ids_options :: "option_decl list" where
  "rdf2ids_options =
     [opt ''d'' ''distinct'' TBool (Some ''false''),
      opt ''f'' ''file'' TString None,
      opt ''m'' ''limit'' (TUnsigned 64) (Some (show_nat (2 ^ 64 - 1))),
      opt ''l'' ''loglevel'' TString (Some ''info''),
      flag ''v'' ''version'',
      flag ''h'' ''help'']"

lemma default_numeral [simp]:
  "n < 2 ^ w \<Longrightarrow> default_value (TUnsigned w) (show_nat n) = Some (UnsignedValue w n)"
  by simp

lemma numerals [simp]:
  "default_value (TUnsigned 32) ''180'' = Some (UnsignedValue 32 180)"
  "default_value (TUnsigned 16) ''9080'' = Some (UnsignedValue 16 9080)"
  "default_value (TUnsigned 32) ''1000000'' = Some (UnsignedValue 32 1000000)"
  by (simp_all add: read_nat_def digit_value_def)

lemma numerals_readable:
  "default_value (TUnsigned 32) ''180'' \<noteq> None"
  "default_value (TUnsigned 16) ''9080'' \<noteq> None"
  "default_value (TUnsigned 32) ''1000000'' \<noteq> None"
  by (simp_all only: numerals option.distinct not_False_eq_True)

subsection \<open>The logger\<close>

datatype 'level sink =
    RotatingFileSink string nat nat 'level
  | StdoutColorSink 'level
  | StderrColorSink

record 'level logger =
  logger_name :: string
  sinks :: "'level sink list"
  logger_level :: 'level
  log_pattern :: string
  flush_every :: "nat option"

record log_args =
  loglevel_arg :: string
  logfile_arg :: bool
  logstdout_arg :: bool
  logfiledir_arg :: string

definition log_args_of :: "parse_result \<Rightarrow> exn + log_args" where
  "log_args_of r =
     bind_res (as_string r ''loglevel'') (\<lambda>level.
     bind_res (as_bool r ''logfile'') (\<lambda>file.
     bind_res (if file then as_string r ''logfiledir'' else Inr '''') (\<lambda>dir.
     bind_res (as_bool r ''logstdout'') (\<lambda>out.
       Inr \<lparr>loglevel_arg = level, logfile_arg = file, logstdout_arg = out, logfiledir_arg = dir\<rparr>))))"

text \<open>\<open>level_of\<close> is \<open>spdlog::level::from_str\<close>.\<close>

definition init_logger :: "(string \<Rightarrow> 'level) \<Rightarrow> log_args \<Rightarrow> 'level logger" where
  "init_logger level_of a =
     (let log_level = level_of (loglevel_arg a);
          max_size = 1048576 * 5;
          max_files = 10
      in \<lparr>logger_name = ''tentris logger'',
          sinks =
            (if logfile_arg a then [RotatingFileSink (logfiledir_arg a @ ''/tentris.log'') max_size max_files log_level] else []) @
            (if logstdout_arg a then [StdoutColorSink log_level] else []),
          logger_level = log_level, log_pattern = ''%Y-%m-%dT%T.%e%z | %n | %t | %l | %v'', flush_every = Some 5\<rparr>)"

definition init_tool_logger :: "(string \<Rightarrow> 'level) \<Rightarrow> string \<Rightarrow> 'level logger" where
  "init_tool_logger level_of loglevel =
     \<lparr>logger_name = ''rdf2ids logger'', sinks = [StderrColorSink], logger_level = level_of loglevel,
      log_pattern = ''%Y-%m-%dT%T.%e%z | %n | %t | %l | %v'', flush_every = None\<rparr>"

lemma log_args_readable:
  assumes "decl_contract r (opt '''' ''logfile'' TBool (Some ''true''))"
    and "decl_contract r (opt '''' ''logstdout'' TBool (Some ''false''))"
    and "decl_contract r (opt '''' ''logfiledir'' TString (Some cwd))"
    and "decl_contract r (opt ''l'' ''loglevel'' TString (Some ''info''))"
  shows "\<exists>a. log_args_of r = Inr a"
proof -
  obtain level f out dir where "as_string r ''loglevel'' = Inr level" "as_bool r ''logfile'' = Inr f"
    "as_bool r ''logstdout'' = Inr out" "as_string r ''logfiledir'' = Inr dir"
    using read_declared(1) [OF assms(4)] read_declared(3) [OF assms(1)] read_declared(3) [OF assms(2)]
      read_declared(1) [OF assms(3)] by auto
  then show ?thesis by (cases f) (simp_all add: log_args_of_def)
qed

end
