(* ===== verification/Executables.thy ===== *)
theory Executables
  imports Command_Line Triple_Store Server_Loop
begin

text \<open>
  The programs \<open>tentris-server\<close> and \<open>tentris-loader\<close> (\<open>execs\<close>): their main functions from the parsed
  command line on, as the sequence of calls they make on the storage and the server, until they serve,
  finish, exit or throw.

  File access, the RDF parser, the storage and the bulk inserter are libraries. The messages of the logger
  are left out. A storage is closed where the block of its manager ends; neither \<open>exit\<close> nor an exception
  that is not caught runs the destructors of \<open>main\<close>.
\<close>

subsection \<open>The environment\<close>

text \<open>
  The storage: whether there is a consistent one at a path, and how many \<open>rdf-tensor\<close> objects the opened
  one holds. Directories are those of \<open>fs::absolute(path).append("tentris_data")\<close>. \<open>level_of\<close> is
  \<open>spdlog::level::from_str\<close>, \<open>scale\<close> the multiplication of a duration by 0.95, \<open>executor_error\<close> what the
  constructor of taskflow's executor throws for a number of workers, and \<open>bulks\<close> the calls the
  bulk inserter makes on the call-back of the loader, for the file and the bulk size.
\<close>

type_synonym bulk_report = "size_t \<times> size_t \<times> size_t"

record 'level program_env =
  data_directory :: "string \<Rightarrow> string"
  consistent :: "string \<Rightarrow> bool"
  path_exists :: "string \<Rightarrow> bool"
  tensor_count :: nat
  level_of :: "string \<Rightarrow> 'level"
  scale :: "time \<Rightarrow> time"
  executor_error :: "nat \<Rightarrow> exn option"
  bulks :: "string \<Rightarrow> nat \<Rightarrow> bulk_report list"

text \<open>As taskflow documents, its executor can be constructed exactly with at least one worker.\<close>

definition executor_contract :: "'level program_env \<Rightarrow> bool" where
  "executor_contract env \<longleftrightarrow> (\<forall>n. executor_error env n = None \<longleftrightarrow> 0 < n)"

record loading_totals =
  total_processed_entries :: size_t
  total_inserted_entries :: size_t
  final_hypertrie_size_after :: size_t

datatype 'level program_call =
    PrintHelp
  | PrintVersion
  | PrintMessage string
  | ExitSuccess
  | InitLogger "'level logger"
  | CreateStorage string
  | OpenStorage string
  | OpenReadOnly string
  | CloseStorage string
  | Snapshot string string
  | FindOrConstructNodeStore
  | FindTensor
  | FindOrConstructTensor
  | LoadFile string nat
  | ReportTotals loading_totals
  | Serve server_settings

definition help_exit :: "parse_result \<Rightarrow> 'level program_call list option" where
  "help_exit r =
     (if 0 < opt_count r ''help'' then Some [PrintHelp, ExitSuccess]
      else if 0 < opt_count r ''version'' then Some [PrintVersion, ExitSuccess]
      else None)"

subsection \<open>The server\<close>

text \<open>Seconds as the nanoseconds of the clock; zero means no timeout.\<close>

definition timeout_of_arg :: "32 word \<Rightarrow> time option" where
  "timeout_of_arg arg = (if arg = 0 then None else Some (unat arg * 1000000000))"

definition cfg_of_args :: "parse_result \<Rightarrow> exn + endpoint_cfg" where
  "cfg_of_args r =
     bind_res (as_unsigned 16 r ''port'') (\<lambda>p.
     bind_res (as_unsigned 16 r ''threads'') (\<lambda>n.
     bind_res (as_unsigned 32 r ''timeout'') (\<lambda>t.
       Inr \<lparr>port = of_nat p, threads = of_nat n, opt_timeout_duration = timeout_of_arg (of_nat t)\<rparr>)))"

text \<open>The index: opened, or rebuilt from its snapshot, or the program exits.\<close>

definition open_index :: "'level program_env \<Rightarrow> string \<Rightarrow> 'level program_call list \<times> bool" where
  "open_index env storage_path =
     (let snapshot_path = storage_path @ ''_snapshot'' in
      if \<not> consistent env storage_path
      then if consistent env snapshot_path
           then ([OpenStorage snapshot_path, Snapshot snapshot_path storage_path, CloseStorage snapshot_path,
                  OpenStorage storage_path], True)
           else ([PrintMessage ''No snapshot found. Please create a new index using tentris_loader.'', ExitSuccess], False)
      else ([OpenStorage storage_path], True))"

text \<open>The executor is constructed first; the start-up message reads the value of the timeout, before the server is started.\<close>

definition serve :: "'level program_env \<Rightarrow> endpoint_cfg \<Rightarrow> 'level program_call list \<times> exn option" where
  "serve env cfg =
     (case executor_error env (unat (threads cfg)) of
        Some e \<Rightarrow> ([], Some e)
      | None \<Rightarrow>
          let http_server = http_server_new cfg :: unit http_server in
          (case opt_timeout_duration cfg of
             None \<Rightarrow> ([], Some BadOptionalAccess)
           | Some d \<Rightarrow> reading (http_server_start (scale env) http_server) (\<lambda>(st, srv). ([Serve st], None))))"

text \<open>Calls after a part that did not throw.\<close>

definition finishing :: "'level program_call list \<times> exn option \<Rightarrow> 'level program_call list \<Rightarrow> 'level program_call list \<times> exn option" where
  "finishing part calls = (case part of (cs, None) \<Rightarrow> (cs @ calls, None) | (cs, Some e) \<Rightarrow> (cs, Some e))"

definition server_main :: "'level program_env \<Rightarrow> parse_result \<Rightarrow> 'level program_call list \<times> exn option" where
  "server_main env r =
     (case help_exit r of
        Some calls \<Rightarrow> (calls, None)
      | None \<Rightarrow>
          reading (log_args_of r) (\<lambda>a.
          calling [InitLogger (init_logger (level_of env) a)] (
          reading (cfg_of_args r) (\<lambda>cfg.
          reading (as_string r ''storage'') (\<lambda>storage.
            let storage_path = data_directory env storage in
            case open_index env storage_path of
              (calls, False) \<Rightarrow> (calls, None)
            | (calls, True) \<Rightarrow>
                calling (calls @ [FindOrConstructNodeStore, FindTensor])
                  (if tensor_count env \<noteq> 1 then ([ExitSuccess], None)
                   else finishing (serve env cfg) [CloseStorage storage_path]))))))"

subsection \<open>The loader\<close>

definition loader_init :: "string \<Rightarrow> 'level program_call list" where
  "loader_init storage_path =
     [CreateStorage storage_path, CloseStorage storage_path, OpenStorage storage_path,
      FindOrConstructNodeStore, FindOrConstructTensor]"

definition bulk_inserted :: "bulk_report \<Rightarrow> loading_totals \<Rightarrow> loading_totals" where
  "bulk_inserted b totals =
     (case b of (processed_entries, inserted_entries, hypertrie_size_after) \<Rightarrow>
        totals\<lparr>total_processed_entries := processed_entries, total_inserted_entries := inserted_entries,
               final_hypertrie_size_after := hypertrie_size_after\<rparr>)"

definition load_data ::
  "'level program_env \<Rightarrow> (string \<Rightarrow> ('e + 'l triple_pattern \<times> 'l node) list option) \<Rightarrow> string \<Rightarrow> nat \<Rightarrow>
   'level program_call list \<times> exn option" where
  "load_data env read_file file bulksize =
     calling [LoadFile file bulksize] (
     reading (load_ttl read_file file) (\<lambda>added.
       ([ReportTotals (fold bulk_inserted (bulks env file bulksize)
           \<lparr>total_processed_entries = 0, total_inserted_entries = 0, final_hypertrie_size_after = 0\<rparr>)], None)))"

definition loader_finish :: "string \<Rightarrow> 'level program_call list" where
  "loader_finish storage_path =
     [CloseStorage storage_path,
      OpenReadOnly storage_path, Snapshot storage_path (storage_path @ ''_snapshot''), CloseStorage storage_path]"

definition loader_main ::
  "'level program_env \<Rightarrow> (string \<Rightarrow> ('e + 'l triple_pattern \<times> 'l node) list option) \<Rightarrow> parse_result \<Rightarrow>
   'level program_call list \<times> exn option" where
  "loader_main env read_file r =
     (case help_exit r of
        Some calls \<Rightarrow> (calls, None)
      | None \<Rightarrow>
          if opt_count r ''file'' = 0 then ([PrintMessage ''Please provide an RDF file.'', PrintHelp, ExitSuccess], None)
          else
            reading (as_string r ''storage'') (\<lambda>storage.
              let storage_path = data_directory env storage in
              if path_exists env storage_path
              then ([PrintMessage (''Index storage path (-s,--storage) '' @ storage_path @
                       '' already exists. Please provide a different path.''), ExitSuccess], None)
              else
                reading (log_args_of r) (\<lambda>a.
                calling [InitLogger (init_logger (level_of env) a)] (
                reading (as_string r ''file'') (\<lambda>ttl_file.
                calling (loader_init storage_path) (
                reading (as_unsigned 32 r ''bulksize'') (\<lambda>bulksize.
                  finishing (load_data env read_file ttl_file bulksize) (loader_finish storage_path))))))))"

subsection \<open>Starting up\<close>

lemma server_options_read:
  assumes "cli_contract (server_options cwd hw) r" and "hw < 2 ^ 16"
  shows "\<exists>a storage p n t. log_args_of r = Inr a \<and> as_string r ''storage'' = Inr storage \<and>
           as_unsigned 16 r ''port'' = Inr p \<and> p < 2 ^ 16 \<and> as_unsigned 16 r ''threads'' = Inr n \<and> n < 2 ^ 16 \<and>
           as_unsigned 32 r ''timeout'' = Inr t \<and> t < 2 ^ 32"
proof -
  have d: "decl_contract r (opt ''s'' ''storage'' TString (Some cwd))"
    "decl_contract r (opt ''t'' ''timeout'' (TUnsigned 32) (Some ''180''))"
    "decl_contract r (opt ''j'' ''threads'' (TUnsigned 16) (Some (show_nat hw)))"
    "decl_contract r (opt ''p'' ''port'' (TUnsigned 16) (Some ''9080''))"
    "\<exists>a. log_args_of r = Inr a"
    using assms(1) by (auto simp: cli_contract_def server_options_def intro!: log_args_readable)
  have hw: "default_value (TUnsigned 16) (show_nat hw) \<noteq> None" using assms(2) by simp
  show ?thesis
    using read_declared(1) [OF d(1)] read_declared(4) [OF d(2) numerals_readable(1)] read_declared(4) [OF d(3) hw]
      read_declared(4) [OF d(4) numerals_readable(2)] d(5)
    by auto
qed

lemma loader_options_read:
  assumes "cli_contract (loader_options cwd) r"
  shows "\<exists>a storage b. log_args_of r = Inr a \<and> as_string r ''storage'' = Inr storage \<and>
           as_unsigned 32 r ''bulksize'' = Inr b \<and> b < 2 ^ 32 \<and>
           (0 < opt_count r ''file'' \<longrightarrow> (\<exists>f. as_string r ''file'' = Inr f))"
proof -
  have d: "decl_contract r (opt ''s'' ''storage'' TString (Some cwd))"
    "decl_contract r (opt ''b'' ''bulksize'' (TUnsigned 32) (Some ''1000000''))"
    "decl_contract r (opt ''f'' ''file'' TString None)"
    "\<exists>a. log_args_of r = Inr a"
    using assms by (auto simp: cli_contract_def loader_options_def intro!: log_args_readable)
  show ?thesis
    using read_declared(1) [OF d(1)] read_declared(4) [OF d(2) numerals_readable(3)] read_declared(2) [OF d(3)] d(4) by auto
qed

lemma serve_started:
  "serve env cfg =
     (case executor_error env (unat (threads cfg)) of
        Some e \<Rightarrow> ([], Some e)
      | None \<Rightarrow>
          (case opt_timeout_duration cfg of
             None \<Rightarrow> ([], Some BadOptionalAccess)
           | Some d \<Rightarrow> ([Serve (settings_of (scale env) cfg (register_routes \<lparr>get_routes = [], non_matched = None\<rparr>))], None)))"
  by (simp add: serve_def http_server_start_def http_server_new_def split: option.split)

text \<open>An index is found, consistent or rebuilt from a consistent snapshot, and it holds one tensor.\<close>

definition index_ready :: "'level program_env \<Rightarrow> string \<Rightarrow> bool" where
  "index_ready env path \<longleftrightarrow> (consistent env path \<or> consistent env (path @ ''_snapshot'')) \<and> tensor_count env = 1"

lemma open_index_found:
  "snd (open_index env path) \<longleftrightarrow> consistent env path \<or> consistent env (path @ ''_snapshot'')"
  by (simp add: open_index_def Let_def)

lemma open_index_serves: "Serve st \<notin> set (fst (open_index env path))"
  by (simp add: open_index_def Let_def)

lemma help_exit_None: "help_exit r = None \<longleftrightarrow> opt_count r ''help'' = 0 \<and> opt_count r ''version'' = 0"
  by (simp add: help_exit_def)

lemma help_exit_serves: "help_exit r = Some calls \<Longrightarrow> Serve st \<notin> set calls"
  by (auto simp: help_exit_def split: if_splits)

lemma timeout_of_number:
  assumes "t < 2 ^ 32"
  shows "timeout_of_arg (of_nat t) = (if t = 0 then None else Some (t * 1000000000))"
proof -
  have unat: "unat (of_nat t :: 32 word) = t"
    using assms by (simp add: unsigned_of_nat take_bit_nat_eq_self)
  have "(of_nat t :: 32 word) = 0 \<longleftrightarrow> unat (of_nat t :: 32 word) = 0" by (rule unsigned_eq_0_iff [symmetric])
  then show ?thesis by (simp only: timeout_of_arg_def unat)
qed

lemma serve_options:
  assumes "n < 2 ^ 16" and "t < 2 ^ 32"
  shows "serve env \<lparr>port = p, threads = of_nat n, opt_timeout_duration = timeout_of_arg (of_nat t)\<rparr> =
     (if executor_error env n \<noteq> None then ([], executor_error env n)
      else if t = 0 then ([], Some BadOptionalAccess)
      else ([Serve \<lparr>max_parallel_connections = n, handle_request_timeout = scale env (t * 1000000000),
                     read_next_http_message_timelimit = 1000000000,
                     write_http_response_timelimit = scale env (t * 1000000000), max_pipelined_requests = 1,
                     address = ''0.0.0.0'', listen_port = p,
                     request_handler = \<lparr>get_routes = routes, non_matched = Some (Respond 404 [] [] True)\<rparr>,
                     thread_pool = max 4 (n div 4)\<rparr>], None))"
proof -
  have "unat (of_nat n :: 16 word) = n"
    using assms(1) by (simp add: unsigned_of_nat take_bit_nat_eq_self)
  then show ?thesis
    by (simp add: serve_started timeout_of_number [OF assms(2)] settings_of_def time_limit_def pool_size_def
        register_routes_def http_get_def routes_def split: option.split)
qed

definition asked_to_run :: "parse_result \<Rightarrow> bool" where
  "asked_to_run r \<longleftrightarrow> opt_count r ''help'' = 0 \<and> opt_count r ''version'' = 0"

lemma serves_singleton:
  "Serve st \<in> set (fst (finishing (serve env cfg) [CloseStorage p])) \<longleftrightarrow> fst (serve env cfg) = [Serve st]"
  "snd (finishing (serve env cfg) calls) = snd (serve env cfg)"
  by (auto simp: serve_started finishing_def split: option.split)

lemma server_main_outcome:
  assumes read: "log_args_of r = Inr a" "as_string r ''storage'' = Inr storage" "cfg_of_args r = Inr cfg"
  shows "Serve st \<in> set (fst (server_main env r)) \<longleftrightarrow>
           asked_to_run r \<and> index_ready env (data_directory env storage) \<and> fst (serve env cfg) = [Serve st]"
    and "snd (server_main env r) =
           (if asked_to_run r \<and> index_ready env (data_directory env storage) then snd (serve env cfg) else None)"
proof -
  let ?path = "data_directory env storage"
  obtain calls found where open_index: "open_index env ?path = (calls, found)"
    by (cases "open_index env ?path")
  have found: "found \<longleftrightarrow> consistent env ?path \<or> consistent env (?path @ ''_snapshot'')"
    and calls: "Serve st \<notin> set calls" for st
    using open_index open_index_found [of env ?path] open_index_serves [of st env ?path] by simp_all
  have "(Serve st \<in> set (fst (server_main env r)) \<longleftrightarrow>
           asked_to_run r \<and> index_ready env ?path \<and> fst (serve env cfg) = [Serve st]) \<and>
        snd (server_main env r) = (if asked_to_run r \<and> index_ready env ?path then snd (serve env cfg) else None)" for st
  proof (cases "help_exit r :: 'a program_call list option")
    case (Some cs)
    moreover from this have "\<not> asked_to_run r" by (auto simp: help_exit_def asked_to_run_def split: if_splits)
    ultimately show ?thesis by (simp add: server_main_def help_exit_serves)
  next
    case None
    moreover from this have run: "asked_to_run r" by (simp add: help_exit_None asked_to_run_def)
    ultimately have main: "server_main env r = calling [InitLogger (init_logger (level_of env) a)]
        (if found then calling (calls @ [FindOrConstructNodeStore, FindTensor])
           (if tensor_count env \<noteq> 1 then ([ExitSuccess], None) else finishing (serve env cfg) [CloseStorage ?path])
         else (calls, None))"
      by (simp add: server_main_def read open_index)
    show ?thesis
    proof (cases "found \<and> tensor_count env = 1")
      case True
      then show ?thesis
        using run found calls by (simp add: main index_ready_def serves_singleton)
    next
      case False
      then show ?thesis
        using run found calls by (auto simp: main index_ready_def)
    qed
  qed
  then show "Serve st \<in> set (fst (server_main env r)) \<longleftrightarrow>
      asked_to_run r \<and> index_ready env ?path \<and> fst (serve env cfg) = [Serve st]"
    and "snd (server_main env r) = (if asked_to_run r \<and> index_ready env ?path then snd (serve env cfg) else None)"
    by blast+
qed

text \<open>
  C37. The server starts serving exactly if it is neither asked for help nor for its version, there is a
  consistent index or a consistent snapshot to rebuild it from, the index holds one tensor, and neither the number
  of threads nor the timeout of the command line is zero; it then serves its three routes on the port, with the
  number of threads and the limits of the command line. With an index, zero threads, which may also be the default of
  the command line, let it end with the exception of taskflow's executor, and timeout zero, which means no timeout,
  with that of an empty optional. These are the only ways it ends with an exception, since every option can be read.
\<close>

theorem server_start:
  assumes "cli_contract (server_options cwd hw) r" and "hw < 2 ^ 16" and "executor_contract env"
  shows "\<exists>storage p n t. as_string r ''storage'' = Inr storage \<and> as_unsigned 16 r ''port'' = Inr p \<and>
           as_unsigned 16 r ''threads'' = Inr n \<and> as_unsigned 32 r ''timeout'' = Inr t \<and>
           (let ready = (asked_to_run r \<and> index_ready env (data_directory env storage)) in
            (\<forall>st. Serve st \<in> set (fst (server_main env r)) \<longleftrightarrow>
               ready \<and> n \<noteq> 0 \<and> t \<noteq> 0 \<and>
               st = \<lparr>max_parallel_connections = n, handle_request_timeout = scale env (t * 1000000000),
                     read_next_http_message_timelimit = 1000000000,
                     write_http_response_timelimit = scale env (t * 1000000000), max_pipelined_requests = 1,
                     address = ''0.0.0.0'', listen_port = of_nat p,
                     request_handler = \<lparr>get_routes = routes, non_matched = Some (Respond 404 [] [] True)\<rparr>,
                     thread_pool = max 4 (n div 4)\<rparr>) \<and>
            (snd (server_main env r) = None \<longleftrightarrow> \<not> ready \<or> n \<noteq> 0 \<and> t \<noteq> 0) \<and>
            (\<forall>e. snd (server_main env r) = Some e \<longrightarrow> (if n = 0 then executor_error env 0 = Some e else e = BadOptionalAccess)))"
proof -
  obtain a storage p n t where read: "log_args_of r = Inr a" "as_string r ''storage'' = Inr storage"
    "as_unsigned 16 r ''port'' = Inr p" "as_unsigned 16 r ''threads'' = Inr n" "as_unsigned 32 r ''timeout'' = Inr t"
    and bounds: "n < 2 ^ 16" "t < 2 ^ 32"
    using server_options_read [OF assms(1,2)] by blast
  let ?cfg = "\<lparr>port = of_nat p, threads = of_nat n, opt_timeout_duration = timeout_of_arg (of_nat t)\<rparr>"
  have "cfg_of_args r = Inr ?cfg" by (simp add: cfg_of_args_def read)
  note outcome = server_main_outcome [OF read(1,2) this, where env = env, unfolded serve_options [OF bounds]]
  have executor: "executor_error env n \<noteq> None \<longleftrightarrow> n = 0" using assms(3) by (simp add: executor_contract_def)
  show ?thesis
  proof (intro exI conjI, rule read(2), rule read(3), rule read(4), rule read(5))
    show "let ready = (asked_to_run r \<and> index_ready env (data_directory env storage)) in
            (\<forall>st. Serve st \<in> set (fst (server_main env r)) \<longleftrightarrow>
               ready \<and> n \<noteq> 0 \<and> t \<noteq> 0 \<and>
               st = \<lparr>max_parallel_connections = n, handle_request_timeout = scale env (t * 1000000000),
                     read_next_http_message_timelimit = 1000000000,
                     write_http_response_timelimit = scale env (t * 1000000000), max_pipelined_requests = 1,
                     address = ''0.0.0.0'', listen_port = of_nat p,
                     request_handler = \<lparr>get_routes = routes, non_matched = Some (Respond 404 [] [] True)\<rparr>,
                     thread_pool = max 4 (n div 4)\<rparr>) \<and>
            (snd (server_main env r) = None \<longleftrightarrow> \<not> ready \<or> n \<noteq> 0 \<and> t \<noteq> 0) \<and>
            (\<forall>e. snd (server_main env r) = Some e \<longrightarrow> (if n = 0 then executor_error env 0 = Some e else e = BadOptionalAccess))"
      unfolding Let_def outcome executor
      by (cases "n = 0"; cases "t = 0"; use executor in \<open>auto simp only: if_True if_False fst_conv snd_conv list.inject
        list.distinct program_call.inject if_cancel simp_thms option.distinct option.inject split: if_splits\<close>)
  qed
qed

text \<open>The server with the defaults of the command line, on eight hardware threads, with and without an index.\<close>

definition sample_env :: "bool \<Rightarrow> string program_env" where
  "sample_env found =
     \<lparr>data_directory = (\<lambda>p. p @ ''/tentris_data''), consistent = (\<lambda>p. found), path_exists = (\<lambda>p. found), tensor_count = 1,
      level_of = id, scale = id,
      executor_error = (\<lambda>n. if n = 0 then Some (LibraryError ''executor must define at least one worker'') else None),
      bulks = (\<lambda>f b. [(1, 1, 1), (3, 2, 2)])\<rparr>"

lemma sample_executor: "executor_contract (sample_env found)"
  by (simp add: executor_contract_def sample_env_def)

theorem server_start_witness:
  "(\<exists>st. Serve st \<in> set (fst (server_main (sample_env True) (no_options (server_options ''.'' 8)))) \<and>
       listen_port st = 9080 \<and> max_parallel_connections st = 8 \<and> handle_request_timeout st = 180000000000) \<and>
   (\<forall>st. Serve st \<notin> set (fst (server_main (sample_env False) (no_options (server_options ''.'' 8)))))"
proof -
  have contract: "cli_contract (server_options ''.'' 8) (no_options (server_options ''.'' 8))"
    by (rule no_options_contract) (simp add: server_options_def)
  let ?r = "no_options (server_options ''.'' 8)"
  have run: "asked_to_run ?r" by (simp add: asked_to_run_def no_options_def)
  have read: "as_unsigned 16 ?r ''port'' = Inr 9080" "as_unsigned 16 ?r ''threads'' = Inr 8" "as_unsigned 32 ?r ''timeout'' = Inr 180"
    by (simp_all add: as_unsigned_def no_options_def server_options_def del: default_value.simps)
  show ?thesis
    using server_start [OF contract _ sample_executor, of True] server_start [OF contract _ sample_executor, of False]
    by (auto simp: read run index_ready_def sample_env_def Let_def)
qed

subsection \<open>Loading\<close>

lemma load_data_outcome:
  "load_data env read_file file b =
     (if read_file file = None
      then ([LoadFile file b], Some (RuntimeError (''unable to open provided file '' @ file)))
      else ([LoadFile file b, ReportTotals (fold bulk_inserted (bulks env file b)
        \<lparr>total_processed_entries = 0, total_inserted_entries = 0, final_hypertrie_size_after = 0\<rparr>)], None))"
  by (auto simp: load_data_def load_ttl_def calling_def split: option.split)

text \<open>The totals are those of the last bulk.\<close>

lemma totals_of_last_bulk:
  "bs \<noteq> [] \<Longrightarrow> fold bulk_inserted bs totals =
     (case last bs of (p, i, h) \<Rightarrow>
        \<lparr>total_processed_entries = p, total_inserted_entries = i, final_hypertrie_size_after = h\<rparr>)"
proof (induction bs arbitrary: totals)
  case Nil
  then show ?case by simp
next
  case (Cons b bs)
  then show ?case
    by (cases "bs = []") (auto simp: bulk_inserted_def split: prod.split)
qed

text \<open>
  C38. The loader builds an index exactly if it is asked to run, given a file, and there is nothing at the
  storage path yet: it then creates the storage, loads the file into it with the bulk size of the command
  line, and leaves a snapshot behind unless the file cannot be opened. In that case it throws, which is the
  only way it ends with an exception, since every option can be read; the storage it has created stays.
\<close>

theorem loader_builds_index:
  assumes "cli_contract (loader_options cwd) r"
  shows "\<exists>storage b. as_string r ''storage'' = Inr storage \<and> as_unsigned 32 r ''bulksize'' = Inr b \<and>
           (let path = data_directory env storage;
                loads = (asked_to_run r \<and> 0 < opt_count r ''file'' \<and> \<not> path_exists env path);
                main = loader_main env read_file r in
            (\<forall>p. CreateStorage p \<in> set (fst main) \<longleftrightarrow> loads \<and> p = path) \<and>
            (\<forall>f n. LoadFile f n \<in> set (fst main) \<longleftrightarrow> loads \<and> as_string r ''file'' = Inr f \<and> n = b) \<and>
            (\<forall>p p'. Snapshot p p' \<in> set (fst main) \<longleftrightarrow> loads \<and> snd main = None \<and> p = path \<and> p' = path @ ''_snapshot'') \<and>
            (\<forall>e. snd main = Some e \<longleftrightarrow> loads \<and>
               (\<exists>f. as_string r ''file'' = Inr f \<and> read_file f = None \<and> e = RuntimeError (''unable to open provided file '' @ f))))"
proof -
  obtain a storage b where read: "log_args_of r = Inr a" "as_string r ''storage'' = Inr storage" "as_unsigned 32 r ''bulksize'' = Inr b"
    and given: "0 < opt_count r ''file'' \<longrightarrow> (\<exists>f. as_string r ''file'' = Inr f)"
    using loader_options_read [OF assms] by auto
  let ?path = "data_directory env storage"
  consider "\<not> asked_to_run r" | "asked_to_run r" "opt_count r ''file'' = 0 \<or> path_exists env ?path"
    | f where "asked_to_run r" "0 < opt_count r ''file''" "\<not> path_exists env ?path" "as_string r ''file'' = Inr f"
    using given by blast
  then show ?thesis
  proof cases
    case 1
    then show ?thesis
      by (intro exI [of _ storage] exI [of _ b]) (auto simp: read asked_to_run_def loader_main_def help_exit_def Let_def)
  next
    case 2
    then have "help_exit r = (None :: 'a program_call list option)" by (simp add: asked_to_run_def help_exit_None)
    with 2 show ?thesis
      by (intro exI [of _ storage] exI [of _ b]) (auto simp: read loader_main_def Let_def)
  next
    case 3
    then have "help_exit r = (None :: 'a program_call list option)" by (simp add: asked_to_run_def help_exit_None)
    with 3 have "loader_main env read_file r =
        calling [InitLogger (init_logger (level_of env) a)] (calling (loader_init ?path)
          (finishing (load_data env read_file f b) (loader_finish ?path)))"
      by (simp add: loader_main_def read Let_def)
    with 3 show ?thesis
      by (intro exI [of _ storage] exI [of _ b], cases "read_file f = None")
         (auto simp: read load_data_outcome loader_init_def loader_finish_def finishing_def Let_def)
  qed
qed

text \<open>A file that is read, and one that is not there.\<close>

definition sample_load :: "string \<Rightarrow> parse_result" where
  "sample_load f =
     \<lparr>opt_count = (\<lambda>name. if name = ''file'' then 1 else 0),
      opt_value = (\<lambda>name. if name = ''file'' then Some (StringValue f) else defaults (loader_options ''.'') name)\<rparr>"

theorem loader_builds_index_witness:
  "Snapshot ''./tentris_data'' ''./tentris_data_snapshot'' \<in>
     set (fst (loader_main (sample_env False) (\<lambda>f. if f = ''f'' then Some [Inl ''error'' :: string + string triple_pattern \<times> string node] else None) (sample_load ''f''))) \<and>
   snd (loader_main (sample_env False) (\<lambda>f. if f = ''f'' then Some [Inl ''error'' :: string + string triple_pattern \<times> string node] else None) (sample_load ''g'')) =
     Some (RuntimeError ''unable to open provided file g'')"
proof -
  have contract: "cli_contract (loader_options ''.'') (sample_load f)" for f
    by (simp add: sample_load_def cli_contract_def loader_options_def decl_contract_def del: default_value.simps)
  have read: "as_string (sample_load f) ''file'' = Inr f" "as_string (sample_load f) ''storage'' = Inr ''.''"
    "asked_to_run (sample_load f)" "0 < opt_count (sample_load f) ''file''" for f
    by (simp_all add: as_string_def sample_load_def loader_options_def asked_to_run_def)
  let ?files = "\<lambda>f. if f = ''f'' then Some [Inl ''error'' :: string + string triple_pattern \<times> string node] else None"
  have paths: "data_directory (sample_env False) ''.'' = ''./tentris_data''" "path_exists (sample_env False) p \<longleftrightarrow> False" for p
    by (simp_all add: sample_env_def)
  let ?main = "\<lambda>f. loader_main (sample_env False) ?files (sample_load f)"
  have failure: "snd (?main f) = Some e \<longleftrightarrow> ?files f = None \<and> e = RuntimeError (''unable to open provided file '' @ f)"
    and snapshot: "Snapshot p p' \<in> set (fst (?main f)) \<longleftrightarrow>
      snd (?main f) = None \<and> p = ''./tentris_data'' \<and> p' = ''./tentris_data'' @ ''_snapshot''" for f e p p'
    using loader_builds_index [OF contract [of f], of "sample_env False" ?files]
    by (simp_all only: read paths Let_def sum.inject ex_simps simp_thms) blast+
  have "snd (?main ''f'') = None" 
  proof (rule ccontr)
    assume "snd (?main ''f'') \<noteq> None"
    then obtain e where "snd (?main ''f'') = Some e" by blast
    then show False by (simp only: failure) simp
  qed
  then show ?thesis by (simp add: snapshot failure)
qed

end
