(* ===== verification/Index_Lifecycle.thy ===== *)
theory Index_Lifecycle
  imports Executables
begin

text \<open>
  The index on disk across runs of \<open>tentris-loader\<close> and \<open>tentris-server\<close>: what the calls of a run do to
  the storages, when a run ends, exits, throws, or is killed at any point, and what the next run finds.

  The storage library is a parameter, \<open>machine\<close>; \<open>storage_contract\<close> says what is relied on.
\<close>

subsection \<open>Storages\<close>

text \<open>
  What a storage holds of the objects the programs construct: the node store, and the tensor as its set of
  triples. A storage that is open for writing is not consistent until its manager is destructed, and stays
  so if the process ends before; \<open>Damaged\<close> is a copy that was not completed.
\<close>

record ('n, 'l) index_data =
  index_nodes :: "'n option"
  index_tensor :: "'l node list set option"

datatype 'c storage_state = Absent | Damaged | InUse 'c | Closed 'c

text \<open>
  \<open>files\<close> are the quads and errors the RDF parser reads from a file, \<open>new_nodes\<close> an empty node store and
  \<open>intern_nodes\<close> what loading and serving add to it.
\<close>

record ('fs, 'n, 'l, 'e, 'level) machine =
  state_at :: "'fs \<Rightarrow> string \<Rightarrow> ('n, 'l) index_data storage_state"
  create_storage :: "string \<Rightarrow> 'fs \<Rightarrow> 'fs"
  open_storage :: "string \<Rightarrow> 'fs \<Rightarrow> 'fs"
  open_read_only :: "string \<Rightarrow> 'fs \<Rightarrow> 'fs"
  close_storage :: "string \<Rightarrow> 'fs \<Rightarrow> 'fs"
  write_storage :: "string \<Rightarrow> (('n, 'l) index_data \<Rightarrow> ('n, 'l) index_data) \<Rightarrow> 'fs \<Rightarrow> 'fs"
  snapshot_storage :: "string \<Rightarrow> string \<Rightarrow> 'fs \<Rightarrow> 'fs"
  torn_snapshot :: "string \<Rightarrow> string \<Rightarrow> 'fs \<Rightarrow> 'fs"
  files :: "string \<Rightarrow> ('e + 'l triple_pattern \<times> 'l node) list option"
  new_nodes :: 'n
  intern_nodes :: "'level program_call \<Rightarrow> 'n \<Rightarrow> 'n"

definition empty_index :: "('n, 'l) index_data" where
  "empty_index = \<lparr>index_nodes = None, index_tensor = None\<rparr>"

text \<open>
  What metall documents: a storage is consistent if it was closed properly; opening it for writing ends that
  until it is closed, opening it read-only does not; a snapshot is a consistent copy of a storage that is open, also at
  a path where there is an inconsistent one, and is not consistent before it is complete.
\<close>

definition storage_contract :: "('fs, 'n, 'l, 'e, 'level) machine \<Rightarrow> bool" where
  "storage_contract m \<longleftrightarrow>
     (\<forall>fs p. state_at m fs p = Absent \<longrightarrow> state_at m (create_storage m p fs) = (state_at m fs)(p := InUse empty_index)) \<and>
     (\<forall>fs p c. state_at m fs p = Closed c \<longrightarrow>
        state_at m (open_storage m p fs) = (state_at m fs)(p := InUse c) \<and>
        state_at m (open_read_only m p fs) = state_at m fs \<and> state_at m (close_storage m p fs) = state_at m fs) \<and>
     (\<forall>fs p c f. state_at m fs p = InUse c \<longrightarrow>
        state_at m (close_storage m p fs) = (state_at m fs)(p := Closed c) \<and>
        state_at m (write_storage m p f fs) = (state_at m fs)(p := InUse (f c))) \<and>
     (\<forall>fs p q c. state_at m fs p \<in> {InUse c, Closed c} \<longrightarrow> q \<noteq> p \<longrightarrow>
        state_at m (snapshot_storage m p q fs) = (state_at m fs)(q := Closed c) \<and>
        state_at m (torn_snapshot m p q fs) = (state_at m fs)(q := Damaged))"

subsection \<open>Runs\<close>

text \<open>The triples the bulk inserter is given for a file.\<close>

definition file_triples :: "('fs, 'n, 'l, 'e, 'level) machine \<Rightarrow> string \<Rightarrow> 'l node list set" where
  "file_triples m file =
     (case load_ttl (files m) file of
        Inl _ \<Rightarrow> {}
      | Inr calls \<Rightarrow> set (concat (map (\<lambda>c. case c of BulkAdd t \<Rightarrow> [nodes_of t] | ErrorCallback _ \<Rightarrow> []) calls)))"

text \<open>The state of a run: the storage that is open, and the disk.\<close>

fun update_opened ::
  "('fs, 'n, 'l, 'e, 'level) machine \<Rightarrow> (('n, 'l) index_data \<Rightarrow> ('n, 'l) index_data) \<Rightarrow> string option \<times> 'fs \<Rightarrow> string option \<times> 'fs" where
  "update_opened m f (None, fs) = (None, fs)"
| "update_opened m f (Some p, fs) = (Some p, write_storage m p f fs)"

fun perform :: "('fs, 'n, 'l, 'e, 'level) machine \<Rightarrow> 'level program_call \<Rightarrow> string option \<times> 'fs \<Rightarrow> string option \<times> 'fs" where
  "perform m (CreateStorage p) (opened, fs) = (Some p, create_storage m p fs)"
| "perform m (OpenStorage p) (opened, fs) = (Some p, open_storage m p fs)"
| "perform m (OpenReadOnly p) (opened, fs) = (Some p, open_read_only m p fs)"
| "perform m (CloseStorage p) (opened, fs) = (None, close_storage m p fs)"
| "perform m (Snapshot p q) (opened, fs) = (opened, snapshot_storage m p q fs)"
| "perform m FindOrConstructNodeStore s =
     update_opened m (\<lambda>c. c\<lparr>index_nodes := Some (case index_nodes c of None \<Rightarrow> new_nodes m | Some n \<Rightarrow> n)\<rparr>) s"
| "perform m FindOrConstructTensor s =
     update_opened m (\<lambda>c. c\<lparr>index_tensor := Some (case index_tensor c of None \<Rightarrow> {} | Some T \<Rightarrow> T)\<rparr>) s"
| "perform m (LoadFile file n) s =
     update_opened m (\<lambda>c. c\<lparr>index_nodes := map_option (intern_nodes m (LoadFile file n)) (index_nodes c),
                           index_tensor := map_option (\<lambda>T. T \<union> file_triples m file) (index_tensor c)\<rparr>) s"
| "perform m (Serve st) s =
     update_opened m (\<lambda>c. c\<lparr>index_nodes := map_option (intern_nodes m (Serve st)) (index_nodes c)\<rparr>) s"
| "perform m call s = s"

text \<open>
  A run stops after a number of its calls, because it made no more or because it was killed, or inside a
  call. Only a snapshot that is cut short leaves a state that is neither that before nor that after the
  call; the content of a storage in use is irrelevant once the process is gone.
\<close>

datatype stop = After nat | Inside nat

fun calls_made :: "stop \<Rightarrow> 'level program_call list \<Rightarrow> 'level program_call list" where
  "calls_made (After k) calls = take k calls"
| "calls_made (Inside k) calls = take k calls"

definition run_calls :: "('fs, 'n, 'l, 'e, 'level) machine \<Rightarrow> 'level program_call list \<Rightarrow> 'fs \<Rightarrow> string option \<times> 'fs" where
  "run_calls m calls fs = fold (perform m) calls (None, fs)"

fun disk_after :: "('fs, 'n, 'l, 'e, 'level) machine \<Rightarrow> 'level program_call list \<Rightarrow> stop \<Rightarrow> 'fs \<Rightarrow> 'fs" where
  "disk_after m calls (After k) fs = snd (run_calls m (take k calls) fs)"
| "disk_after m calls (Inside k) fs =
     (case drop k calls of
        Snapshot p q # _ \<Rightarrow> torn_snapshot m p q (snd (run_calls m (take k calls) fs))
      | _ \<Rightarrow> snd (run_calls m (take k calls) fs))"

text \<open>The index a start of the server finds, and the environment of a run on a disk.\<close>

definition snapshot_of :: "string \<Rightarrow> string" where
  "snapshot_of path = path @ ''_snapshot''"

definition stored :: "('fs, 'n, 'l, 'e, 'level) machine \<Rightarrow> 'fs \<Rightarrow> string \<Rightarrow> ('n, 'l) index_data option" where
  "stored m fs path =
     (case state_at m fs path of
        Closed c \<Rightarrow> Some c
      | _ \<Rightarrow> (case state_at m fs (snapshot_of path) of Closed c \<Rightarrow> Some c | _ \<Rightarrow> None))"

definition env_at :: "('fs, 'n, 'l, 'e, 'level) machine \<Rightarrow> 'fs \<Rightarrow> string \<Rightarrow> 'level program_env \<Rightarrow> 'level program_env" where
  "env_at m fs path env =
     env\<lparr>consistent := (\<lambda>p. case state_at m fs p of Closed _ \<Rightarrow> True | _ \<Rightarrow> False),
         path_exists := (\<lambda>p. state_at m fs p \<noteq> Absent),
         tensor_count := (case stored m fs path of None \<Rightarrow> 0 | Some c \<Rightarrow> (if index_tensor c = None then 0 else 1))\<rparr>"

definition server_calls :: "('fs, 'n, 'l, 'e, 'level) machine \<Rightarrow> 'level program_env \<Rightarrow> string \<Rightarrow> parse_result \<Rightarrow> 'fs \<Rightarrow> 'level program_call list" where
  "server_calls m env path r fs = fst (server_main (env_at m fs path env) r)"

definition loader_calls :: "('fs, 'n, 'l, 'e, 'level) machine \<Rightarrow> 'level program_env \<Rightarrow> string \<Rightarrow> parse_result \<Rightarrow> 'fs \<Rightarrow> 'level program_call list" where
  "loader_calls m env path r fs = fst (loader_main (env_at m fs path env) (files m) r)"

text \<open>A command line the server can be started with, for the index at \<open>path\<close>.\<close>

definition starts_at :: "'level program_env \<Rightarrow> string \<Rightarrow> parse_result \<Rightarrow> bool" where
  "starts_at env path r \<longleftrightarrow>
     (\<exists>cwd hw storage. cli_contract (server_options cwd hw) r \<and> hw < 2 ^ 16 \<and>
        as_string r ''storage'' = Inr storage \<and> data_directory env storage = path)"

text \<open>A run that is stopped while it has the snapshot open to rebuild the index.\<close>

definition stopped_rebuilding :: "string \<Rightarrow> 'level program_call list \<Rightarrow> bool" where
  "stopped_rebuilding path made \<longleftrightarrow>
     OpenStorage (snapshot_of path) \<in> set made \<and> CloseStorage (snapshot_of path) \<notin> set made"

inductive undisturbed :: "('fs, 'n, 'l, 'e, 'level) machine \<Rightarrow> 'level program_env \<Rightarrow> string \<Rightarrow> 'fs \<Rightarrow> 'fs \<Rightarrow> bool"
  for m env path fs where
  no_run: "undisturbed m env path fs fs"
| server_run: "undisturbed m env path fs fs' \<Longrightarrow> starts_at env path r \<Longrightarrow>
    \<not> stopped_rebuilding path (calls_made e (server_calls m env path r fs')) \<Longrightarrow>
    undisturbed m env path fs (disk_after m (server_calls m env path r fs') e fs')"

subsection \<open>Calls that leave the disk alone, and calls on the open index\<close>

lemma contractD:
  assumes "storage_contract m"
  shows "state_at m fs p = Absent \<Longrightarrow> state_at m (create_storage m p fs) = (state_at m fs)(p := InUse empty_index)"
    and "state_at m fs p = Closed c \<Longrightarrow> state_at m (open_storage m p fs) = (state_at m fs)(p := InUse c)"
    and "state_at m fs p = Closed c \<Longrightarrow> state_at m (open_read_only m p fs) = state_at m fs"
    and "state_at m fs p = Closed c \<Longrightarrow> state_at m (close_storage m p fs) = state_at m fs"
    and "state_at m fs p = InUse c \<Longrightarrow> state_at m (close_storage m p fs) = (state_at m fs)(p := Closed c)"
    and "state_at m fs p = InUse c \<Longrightarrow> state_at m (write_storage m p f fs) = (state_at m fs)(p := InUse (f c))"
    and "state_at m fs p \<in> {InUse c, Closed c} \<Longrightarrow> q \<noteq> p \<Longrightarrow> state_at m (snapshot_storage m p q fs) = (state_at m fs)(q := Closed c)"
    and "state_at m fs p \<in> {InUse c, Closed c} \<Longrightarrow> q \<noteq> p \<Longrightarrow> state_at m (torn_snapshot m p q fs) = (state_at m fs)(q := Damaged)"
proof -
  note c = assms [unfolded storage_contract_def]
  note c1 = conjunct1 [OF c] and c2 = conjunct1 [OF conjunct2 [OF c]]
    and c3 = conjunct1 [OF conjunct2 [OF conjunct2 [OF c]]] and c4 = conjunct2 [OF conjunct2 [OF conjunct2 [OF c]]]
  show "state_at m fs p = Absent \<Longrightarrow> state_at m (create_storage m p fs) = (state_at m fs)(p := InUse empty_index)"
    by (rule c1 [rule_format])
  show "state_at m fs p = Closed c \<Longrightarrow> state_at m (open_storage m p fs) = (state_at m fs)(p := InUse c)"
    "state_at m fs p = Closed c \<Longrightarrow> state_at m (open_read_only m p fs) = state_at m fs"
    "state_at m fs p = Closed c \<Longrightarrow> state_at m (close_storage m p fs) = state_at m fs"
    using c2 by blast+
  show "state_at m fs p = InUse c \<Longrightarrow> state_at m (close_storage m p fs) = (state_at m fs)(p := Closed c)"
    "state_at m fs p = InUse c \<Longrightarrow> state_at m (write_storage m p f fs) = (state_at m fs)(p := InUse (f c))"
    using c3 by blast+
  show "state_at m fs p \<in> {InUse c, Closed c} \<Longrightarrow> q \<noteq> p \<Longrightarrow> state_at m (snapshot_storage m p q fs) = (state_at m fs)(q := Closed c)"
    "state_at m fs p \<in> {InUse c, Closed c} \<Longrightarrow> q \<noteq> p \<Longrightarrow> state_at m (torn_snapshot m p q fs) = (state_at m fs)(q := Damaged)"
    using c4 by blast+
qed

fun quiet :: "'level program_call \<Rightarrow> bool" where
  "quiet PrintHelp = True"
| "quiet PrintVersion = True"
| "quiet (PrintMessage s) = True"
| "quiet ExitSuccess = True"
| "quiet (InitLogger l) = True"
| "quiet FindTensor = True"
| "quiet (ReportTotals t) = True"
| "quiet _ = False"

lemma perform_quiet: "quiet c \<Longrightarrow> perform m c s = s"
  by (cases c; cases s) auto

lemma run_quiet: "list_all quiet calls \<Longrightarrow> fold (perform m) calls s = s"
  by (induction calls arbitrary: s) (auto simp: perform_quiet)

text \<open>The calls the server makes on the index it has opened.\<close>

fun on_index :: "string \<Rightarrow> 'level program_call \<Rightarrow> bool" where
  "on_index path FindOrConstructNodeStore = True"
| "on_index path (Serve st) = True"
| "on_index path (CloseStorage p) \<longleftrightarrow> p = path"
| "on_index path c = quiet c"

lemma snapshot_of_other [simp]: "snapshot_of path \<noteq> path" "path \<noteq> snapshot_of path"
  by (auto simp: snapshot_of_def)

definition index_open :: "('fs, 'n, 'l, 'e, 'level) machine \<Rightarrow> string \<Rightarrow> 'l node list set option \<Rightarrow>
    (string \<Rightarrow> ('n, 'l) index_data storage_state) \<Rightarrow> string option \<times> 'fs \<Rightarrow> bool" where
  "index_open m path T others s \<longleftrightarrow>
     (\<exists>c. index_tensor c = T \<and>
        (fst s = Some path \<and> state_at m (snd s) = others(path := InUse c) \<or>
         fst s = None \<and> state_at m (snd s) = others(path := Closed c)))"

lemma perform_on_index:
  assumes "storage_contract m" and "index_open m path T others s" and "on_index path c"
  shows "index_open m path T others (perform m c s)"
proof -
  note laws = contractD [OF assms(1)]
  obtain d o' fs where s: "s = (o', fs)" "index_tensor d = T"
    "o' = Some path \<and> state_at m fs = others(path := InUse d) \<or> o' = None \<and> state_at m fs = others(path := Closed d)"
    using assms(2) by (cases s) (auto simp: index_open_def)
  then consider (in_use) "o' = Some path" "state_at m fs = others(path := InUse d)"
    | (closed) "o' = None" "state_at m fs = others(path := Closed d)" by blast
  then show ?thesis
  proof cases
    case in_use
    have "state_at m (close_storage m path fs) = others(path := Closed d)"
      "\<And>f. state_at m (write_storage m path f fs) = others(path := InUse (f d))"
      using laws(5) [of fs path d] laws(6) [of fs path d] in_use(2) by simp_all
    moreover have "\<exists>c. index_tensor c = T \<and> others(path := InUse (d\<lparr>index_nodes := x\<rparr>)) = others(path := InUse c)" for x
      using s(2) by (intro exI [of _ "d\<lparr>index_nodes := x\<rparr>"]) simp
    ultimately show ?thesis
      using assms(3) s in_use by (cases c) (auto simp: index_open_def)
  next
    case closed
    have "state_at m (close_storage m path fs) = others(path := Closed d)"
      using laws(4) [of fs path d] closed(2) by simp
    then show ?thesis
      using assms(3) s closed by (cases c) (auto simp: index_open_def)
  qed
qed

lemma run_on_index:
  "storage_contract m \<Longrightarrow> list_all (on_index path) calls \<Longrightarrow> index_open m path T others s \<Longrightarrow>
   index_open m path T others (fold (perform m) calls s)"
proof (induction calls arbitrary: s)
  case (Cons c calls)
  then have "index_open m path T others (perform m c s)" by (intro perform_on_index) simp_all
  then show ?case using Cons by simp
qed simp

subsection \<open>What the server does with its storage\<close>

lemma server_reads:
  assumes "starts_at env path r"
  obtains a storage cfg t n where "log_args_of r = Inr a" "as_string r ''storage'' = Inr storage" "data_directory env storage = path"
    "cfg_of_args r = Inr cfg" "as_unsigned 32 r ''timeout'' = Inr t" "opt_timeout_duration cfg = None \<longleftrightarrow> t = 0"
    "as_unsigned 16 r ''threads'' = Inr n" "unat (threads cfg) = n"
proof -
  from assms obtain cwd hw storage where c: "cli_contract (server_options cwd hw) r" "hw < 2 ^ 16"
    "as_string r ''storage'' = Inr storage" "data_directory env storage = path" by (auto simp: starts_at_def)
  obtain a p n t where read: "log_args_of r = Inr a" "as_unsigned 16 r ''port'' = Inr p" "as_unsigned 16 r ''threads'' = Inr n"
    "n < 2 ^ 16" "as_unsigned 32 r ''timeout'' = Inr t" "t < 2 ^ 32"
    using server_options_read [OF c(1,2)] by blast
  let ?cfg = "\<lparr>port = of_nat p, threads = of_nat n, opt_timeout_duration = timeout_of_arg (of_nat t)\<rparr>"
  have "cfg_of_args r = Inr ?cfg" by (simp add: cfg_of_args_def read)
  moreover have "opt_timeout_duration ?cfg = None \<longleftrightarrow> t = 0" by (simp add: timeout_of_number [OF read(6)])
  moreover have "unat (threads ?cfg) = n" using read(4) by (simp add: unsigned_of_nat take_bit_nat_eq_self)
  ultimately show thesis by (intro that [OF read(1) c(3,4) _ read(5) _ read(3)])
qed

text \<open>Quiet calls, and then, if an index is found, the calls that open it and calls on it.\<close>

lemma server_calls_shape:
  assumes "starts_at env path r"
  obtains (idle) "list_all quiet (server_calls m env path r fs)"
      "\<And>st. Serve st \<notin> set (server_calls m env path r fs)"
    | (serving) pre tail where "list_all quiet pre" "list_all (on_index path) tail" "snd (open_index (env_at m fs path env) path)"
      "server_calls m env path r fs = pre @ fst (open_index (env_at m fs path env) path) @ tail"
proof -
  let ?env = "env_at m fs path env"
  obtain a storage cfg t where read: "log_args_of r = Inr a" "as_string r ''storage'' = Inr storage"
    "data_directory env storage = path" "cfg_of_args r = Inr cfg"
    by (rule server_reads [OF assms])
  have path: "data_directory ?env storage = path" by (simp add: env_at_def read)
  show thesis
  proof (cases "help_exit r :: 'a program_call list option")
    case (Some cs)
    then show thesis by (intro idle) (auto simp: server_calls_def server_main_def help_exit_def split: if_splits)
  next
    case None
    let ?log = "InitLogger (init_logger (level_of ?env) a)"
    have main: "server_calls m env path r fs = ?log # fst (case open_index ?env path of
          (calls, False) \<Rightarrow> (calls, None)
        | (calls, True) \<Rightarrow> calling (calls @ [FindOrConstructNodeStore, FindTensor])
            (if tensor_count ?env \<noteq> 1 then ([ExitSuccess], None) else finishing (serve ?env cfg) [CloseStorage path]))"
      using None by (simp add: server_calls_def server_main_def read path Let_def)
    show thesis
    proof (cases "snd (open_index ?env path)")
      case True
      let ?tail = "[FindOrConstructNodeStore, FindTensor] @
        fst (if tensor_count ?env \<noteq> 1 then ([ExitSuccess], None) else finishing (serve ?env cfg) [CloseStorage path])"
      have "server_calls m env path r fs = [?log] @ fst (open_index ?env path) @ ?tail"
        using True by (cases "open_index ?env path") (simp add: main)
      moreover have "list_all (on_index path) ?tail"
        by (auto simp: serve_started finishing_def split: option.split)
      ultimately show thesis using True by (intro serving [of "[?log]" ?tail]) simp_all
    next
      case False
      then obtain cs where cs: "open_index ?env path = (cs, False)" by (cases "open_index ?env path") auto
      then have "list_all quiet cs" by (auto simp: open_index_def Let_def split: if_splits)
      then show thesis by (intro idle) (auto simp: main cs list_all_iff)
    qed
  qed
qed

lemma env_at_simps [simp]:
  "consistent (env_at m fs path env) p \<longleftrightarrow> (\<exists>c. state_at m fs p = Closed c)"
  "path_exists (env_at m fs path env) p \<longleftrightarrow> state_at m fs p \<noteq> Absent"
  "data_directory (env_at m fs path env) = data_directory env"
  by (auto simp: env_at_def split: storage_state.split)

subsection \<open>One run of the server\<close>

text \<open>The snapshot is consistent and holds the triples \<open>T\<close>, and so does the index if it is consistent.\<close>

definition backed :: "('fs, 'n, 'l, 'e, 'level) machine \<Rightarrow> 'fs \<Rightarrow> string \<Rightarrow> 'l node list set \<Rightarrow> bool" where
  "backed m fs path T \<longleftrightarrow>
     (\<exists>c. state_at m fs (snapshot_of path) = Closed c \<and> index_tensor c = Some T) \<and>
     (\<forall>c. state_at m fs path = Closed c \<longrightarrow> index_tensor c = Some T)"

lemma backed_stored:
  assumes "backed m fs path T"
  obtains c where "stored m fs path = Some c" "index_tensor c = Some T"
  using assms by (cases "state_at m fs path") (auto simp: backed_def stored_def)

lemma backed_cong: "state_at m fs' = state_at m fs \<Longrightarrow> backed m fs' path T \<longleftrightarrow> backed m fs path T"
  by (simp add: backed_def)

lemma stored_cong: "state_at m fs' = state_at m fs \<Longrightarrow> stored m fs' path = stored m fs path"
  by (cases "state_at m fs path") (simp_all add: stored_def)

lemma run_after_quiet: "list_all quiet pre \<Longrightarrow> run_calls m (pre @ calls) fs = run_calls m calls fs"
  by (simp add: run_calls_def run_quiet)

lemma disk_outside_snapshot:
  assumes "\<And>p q cs. drop k calls \<noteq> Snapshot p q # cs" and "e = After k \<or> e = Inside k"
  shows "disk_after m calls e fs = snd (run_calls m (take k calls) fs)"
  using assms by (auto split: list.split program_call.split)

lemma no_snapshot_dropped: "(\<And>p q. Snapshot p q \<notin> set calls) \<Longrightarrow> drop k calls \<noteq> Snapshot p q # cs"
  using in_set_dropD [of "Snapshot p q" k calls] by (metis list.set_intros(1))

lemma disk_without_snapshot:
  assumes "\<And>p q. Snapshot p q \<notin> set calls"
  shows "disk_after m calls e fs = snd (run_calls m (calls_made e calls) fs)"
proof -
  obtain k where "e = After k \<or> e = Inside k" by (cases e) auto
  then show ?thesis using disk_outside_snapshot [OF no_snapshot_dropped [OF assms]] by fastforce
qed

lemma quiet_made: "list_all quiet made \<Longrightarrow> \<not> stopped_rebuilding path made"
  by (auto simp: stopped_rebuilding_def list_all_iff)

lemma quiet_calls: "list_all quiet calls \<Longrightarrow> list_all quiet (calls_made e calls)"
  by (cases e) (auto simp: list_all_iff dest!: in_set_takeD)

lemma disk_quiet:
  assumes "list_all quiet calls"
  shows "disk_after m calls e fs = fs"
proof -
  have "Snapshot p q \<notin> set calls" for p q :: string using assms by (auto simp: list_all_iff)
  then have "disk_after m calls e fs = snd (run_calls m (calls_made e calls) fs)" by (rule disk_without_snapshot)
  moreover have "list_all quiet (calls_made e calls)" by (rule quiet_calls [OF assms])
  ultimately show ?thesis by (simp add: run_calls_def run_quiet)
qed

text \<open>The states of the storages after a run that finds a consistent index.\<close>

lemma states_opened:
  assumes "storage_contract m" and "state_at m fs path = Closed c"
    and "list_all quiet pre" and "list_all (on_index path) tail"
  shows "\<exists>x d. state_at m (disk_after m (pre @ OpenStorage path # tail) e fs) = (state_at m fs)(path := x) \<and>
           (x = InUse d \<or> x = Closed d) \<and> index_tensor d = index_tensor c"
    and "\<not> stopped_rebuilding path (calls_made e (pre @ OpenStorage path # tail))"
proof -
  let ?calls = "pre @ OpenStorage path # tail"
  have "\<not> on_index path (Snapshot p q)" for p q by simp
  then have no: "Snapshot p q \<notin> set ?calls" "OpenStorage (snapshot_of path) \<notin> set ?calls" for p q
    using assms(3,4) by (auto simp: list_all_iff)
  then show "\<not> stopped_rebuilding path (calls_made e ?calls)"
    by (cases e) (auto simp: stopped_rebuilding_def dest!: in_set_takeD)
  obtain k where k: "calls_made e ?calls = take k ?calls" by (cases e) simp_all
  have disk: "disk_after m ?calls e fs = snd (run_calls m (take k ?calls) fs)"
    unfolding k [symmetric] by (rule disk_without_snapshot) (rule no(1))
  show "\<exists>x d. state_at m (disk_after m ?calls e fs) = (state_at m fs)(path := x) \<and>
           (x = InUse d \<or> x = Closed d) \<and> index_tensor d = index_tensor c"
  proof (cases "k \<le> length pre")
    case True
    then have "list_all quiet (take k ?calls)" using assms(3) by (auto simp: list_all_iff dest!: in_set_takeD)
    then show ?thesis
      by (intro exI [of _ "Closed c"] exI [of _ c]) (simp add: disk run_calls_def run_quiet assms(2) fun_upd_idem)
  next
    case False
    then obtain j where j: "k = length pre + Suc j" by (metis add_Suc_right less_natE not_le)
    then have "take k ?calls = pre @ OpenStorage path # take j tail" by simp
    then have run: "run_calls m (take k ?calls) fs = fold (perform m) (take j tail) (Some path, open_storage m path fs)"
      by (simp add: run_after_quiet [OF assms(3)]) (simp add: run_calls_def)
    have "index_open m path (index_tensor c) (state_at m fs) (Some path, open_storage m path fs)"
      using contractD(2) [OF assms(1,2)] by (auto simp: index_open_def)
    moreover have "list_all (on_index path) (take j tail)" using assms(4) by (auto simp: list_all_iff dest!: in_set_takeD)
    ultimately have "index_open m path (index_tensor c) (state_at m fs) (run_calls m (take k ?calls) fs)"
      unfolding run by (intro run_on_index [OF assms(1)])
    then show ?thesis unfolding disk index_open_def by blast
  qed
qed

text \<open>The states of the storages after a run that rebuilds the index from the snapshot, by how far it got.\<close>

definition rebuild_calls :: "string \<Rightarrow> 'level program_call list" where
  "rebuild_calls path =
     [OpenStorage (snapshot_of path), Snapshot (snapshot_of path) path, CloseStorage (snapshot_of path), OpenStorage path]"

lemma prefix_cases:
  fixes k n :: nat
  obtains "k \<le> n" | "k = Suc n" | "k = Suc (Suc n)" | "k = Suc (Suc (Suc n))" | j where "k = n + Suc (Suc (Suc (Suc j)))"
proof -
  consider "k \<le> n" | "k = Suc n" | "k = Suc (Suc n)" | "k = Suc (Suc (Suc n))" | "n + 4 \<le> k" by linarith
  then show thesis
  proof cases
    case 5
    then have "k = n + Suc (Suc (Suc (Suc (k - (n + 4)))))" by simp
    then show thesis by (rule that(5))
  qed (rule that; assumption)+
qed

text \<open>The states after each of its calls, and after a copy that was cut short.\<close>

lemma rebuild_states:
  assumes "storage_contract m" and closed: "state_at m fs (snapshot_of path) = Closed c"
  shows "state_at m (open_storage m (snapshot_of path) fs) = (state_at m fs)(snapshot_of path := InUse c)" (is ?opened)
    and "state_at m (torn_snapshot m (snapshot_of path) path (open_storage m (snapshot_of path) fs)) =
           (state_at m fs)(snapshot_of path := InUse c, path := Damaged)"
    and "state_at m (snd (run_calls m [OpenStorage (snapshot_of path), Snapshot (snapshot_of path) path] fs)) =
           (state_at m fs)(snapshot_of path := InUse c, path := Closed c)" (is ?copied)
    and "state_at m (snd (run_calls m [OpenStorage (snapshot_of path), Snapshot (snapshot_of path) path,
             CloseStorage (snapshot_of path)] fs)) = (state_at m fs)(path := Closed c)" (is ?rebuilt)
    and "index_open m path (index_tensor c) (state_at m fs) (run_calls m (rebuild_calls path) fs)"
proof -
  note laws = contractD [OF assms(1)]
  show opened: ?opened by (rule laws(2) [OF closed])
  show "state_at m (torn_snapshot m (snapshot_of path) path (open_storage m (snapshot_of path) fs)) =
      (state_at m fs)(snapshot_of path := InUse c, path := Damaged)"
    by (subst laws(8) [where c = c]) (simp_all add: opened)
  show copied: ?copied
    by (simp add: run_calls_def) (subst laws(7) [where c = c]; simp add: opened)
  show rebuilt: ?rebuilt
    using copied closed
    by (simp add: run_calls_def) (subst laws(5) [where c = c]; simp add: fun_eq_iff)
  have "state_at m (snd (run_calls m (rebuild_calls path) fs)) = (state_at m fs)(path := InUse c)"
    using rebuilt by (simp add: run_calls_def rebuild_calls_def) (subst laws(2) [where c = c]; simp)
  then show "index_open m path (index_tensor c) (state_at m fs) (run_calls m (rebuild_calls path) fs)"
    by (auto simp: index_open_def run_calls_def rebuild_calls_def)
qed

lemma states_rebuilt:
  assumes contract: "storage_contract m" and closed: "state_at m fs (snapshot_of path) = Closed c"
    and quiet: "list_all quiet pre" and tail: "list_all (on_index path) tail" and calls: "calls = pre @ rebuild_calls path @ tail"
  obtains (before) "state_at m (disk_after m calls e fs) = state_at m fs" "list_all quiet (calls_made e calls)"
    | (opened) x where "calls_made e calls = pre @ [OpenStorage (snapshot_of path)]" "x \<in> {state_at m fs path, Damaged}"
        "state_at m (disk_after m calls e fs) = (state_at m fs)(snapshot_of path := InUse c, path := x)"
    | (copied) "calls_made e calls = pre @ [OpenStorage (snapshot_of path), Snapshot (snapshot_of path) path]"
        "state_at m (disk_after m calls e fs) = (state_at m fs)(snapshot_of path := InUse c, path := Closed c)"
    | (rebuilt) x d where "CloseStorage (snapshot_of path) \<in> set (calls_made e calls)" "x = InUse d \<or> x = Closed d"
        "index_tensor d = index_tensor c" "state_at m (disk_after m calls e fs) = (state_at m fs)(path := x)"
proof -
  let ?snap = "snapshot_of path" and ?n = "length pre"
  note states = rebuild_states [OF contract closed] and run = run_after_quiet [OF quiet]
  obtain k where k: "e = After k \<or> e = Inside k" by (cases e) auto
  then have made: "calls_made e calls = take k calls" by auto
  note disk = disk_outside_snapshot [OF _ k, of calls m fs]
  have no: "Snapshot p q \<notin> set pre" "Snapshot p q \<notin> set tail" for p q using quiet tail by (auto simp: list_all_iff)
  show thesis
  proof (cases k ?n rule: prefix_cases)
    case 1
    then have "drop k calls = drop k pre @ rebuild_calls path @ tail" by (simp add: calls)
    then have "drop k calls \<noteq> Snapshot p q # cs" for p q cs
      using no_snapshot_dropped [OF no(1), of k p q] by (cases "drop k pre") (auto simp: rebuild_calls_def)
    moreover have "list_all quiet (take k calls)" using quiet 1 by (auto simp: calls list_all_iff dest!: in_set_takeD)
    ultimately show thesis by (intro before) (simp_all add: disk made run_calls_def run_quiet)
  next
    case 2
    then have take: "take k calls = pre @ [OpenStorage ?snap]" "drop k calls = Snapshot ?snap path # CloseStorage ?snap # OpenStorage path # tail"
      by (simp_all add: calls rebuild_calls_def)
    then have "snd (run_calls m (take k calls) fs) = open_storage m ?snap fs" by (simp add: run) (simp add: run_calls_def)
    then consider "disk_after m calls e fs = open_storage m ?snap fs"
      | "disk_after m calls e fs = torn_snapshot m ?snap path (open_storage m ?snap fs)"
      using k take by auto
    then show thesis
    proof cases
      case 1
      have "(state_at m fs)(?snap := InUse c, path := state_at m fs path) = (state_at m fs)(?snap := InUse c)"
        by (simp add: fun_eq_iff)
      then show thesis by (intro opened [of "state_at m fs path"]) (simp_all only: made take 1 states(1) insertI1)
    next
      case 2
      show thesis by (rule opened [of Damaged]) (simp_all add: made take 2 states(2))
    qed
  next
    case 3
    then have take: "take k calls = pre @ [OpenStorage ?snap, Snapshot ?snap path]" "drop k calls = CloseStorage ?snap # OpenStorage path # tail"
      by (simp_all add: calls rebuild_calls_def)
    then show thesis using states(3) by (intro copied) (simp_all add: made disk run)
  next
    case 4
    then have take: "take k calls = pre @ [OpenStorage ?snap, Snapshot ?snap path, CloseStorage ?snap]" "drop k calls = OpenStorage path # tail"
      by (simp_all add: calls rebuild_calls_def)
    then show thesis using states(4) by (intro rebuilt [of "Closed c" c]) (simp_all add: made disk run)
  next
    case (5 j)
    then have take: "take k calls = pre @ rebuild_calls path @ take j tail" "drop k calls = drop j tail"
      by (simp_all add: calls rebuild_calls_def eval_nat_numeral)
    then have end_disk: "disk_after m calls e fs = snd (run_calls m (take k calls) fs)"
      using no_snapshot_dropped [OF no(2)] by (intro disk) simp
    have "run_calls m (take k calls) fs = fold (perform m) (take j tail) (run_calls m (rebuild_calls path) fs)"
      unfolding take run by (simp add: run_calls_def)
    moreover have "list_all (on_index path) (take j tail)" using tail by (auto simp: list_all_iff dest!: in_set_takeD)
    ultimately have "index_open m path (index_tensor c) (state_at m fs) (run_calls m (take k calls) fs)"
      using run_on_index [OF contract _ states(5)] by simp
    then obtain d x where "index_tensor d = index_tensor c" "x = InUse d \<or> x = Closed d"
      "state_at m (disk_after m calls e fs) = (state_at m fs)(path := x)"
      unfolding index_open_def end_disk by blast
    moreover have "CloseStorage ?snap \<in> set (calls_made e calls)" by (simp add: made take rebuild_calls_def)
    ultimately show thesis by (intro rebuilt)
  qed
qed

lemma open_index_env:
  "open_index (env_at m fs path env) path =
     (if \<exists>c. state_at m fs path = Closed c then ([OpenStorage path], True)
      else if \<exists>c. state_at m fs (snapshot_of path) = Closed c then (rebuild_calls path, True)
      else ([PrintMessage ''No snapshot found. Please create a new index using tentris_loader.'', ExitSuccess], False))"
  by (simp add: open_index_def rebuild_calls_def Let_def flip: snapshot_of_def)

lemma server_run_backed:
  assumes contract: "storage_contract m" and "starts_at env path r" and backed: "backed m fs path T"
  shows "backed m (disk_after m (server_calls m env path r fs) e fs) path T \<longleftrightarrow>
         \<not> stopped_rebuilding path (calls_made e (server_calls m env path r fs))"
proof (cases rule: server_calls_shape [OF assms(2), of m fs, case_names idle serving])
  case idle
  then show ?thesis using backed by (simp add: disk_quiet quiet_made quiet_calls)
next
  case (serving pre tail)
  from backed obtain s where s: "state_at m fs (snapshot_of path) = Closed s" "index_tensor s = Some T"
    and path: "\<And>c. state_at m fs path = Closed c \<Longrightarrow> index_tensor c = Some T" by (auto simp: backed_def)
  show ?thesis
  proof (cases "\<exists>c. state_at m fs path = Closed c")
    case True
    then obtain c where c: "state_at m fs path = Closed c" by blast
    have calls: "server_calls m env path r fs = pre @ OpenStorage path # tail"
      using serving(4) True by (simp add: open_index_env)
    obtain x d where "state_at m (disk_after m (server_calls m env path r fs) e fs) = (state_at m fs)(path := x)"
      "x = InUse d \<or> x = Closed d" "index_tensor d = index_tensor c"
      using states_opened(1) [OF contract c serving(1,2), of e] unfolding calls by blast
    moreover have "\<not> stopped_rebuilding path (calls_made e (server_calls m env path r fs))"
      unfolding calls by (rule states_opened(2) [OF contract c serving(1,2)])
    ultimately show ?thesis using s path [OF c] by (auto simp: backed_def)
  next
    case False
    then have calls: "server_calls m env path r fs = pre @ rebuild_calls path @ tail"
      using serving(4) s by (simp add: open_index_env)
    show ?thesis
    proof (cases rule: states_rebuilt [OF contract s(1) serving(1,2) calls, of e, case_names before opened copied rebuilt])
      case before
      then show ?thesis using backed quiet_made [OF before(2)] backed_cong [OF before(1)] by blast
    next
      case (opened x)
      then show ?thesis using serving(1) by (auto simp: backed_def stopped_rebuilding_def list_all_iff)
    next
      case copied
      then show ?thesis using serving(1) by (auto simp: backed_def stopped_rebuilding_def list_all_iff)
    next
      case (rebuilt x d)
      then show ?thesis using s by (auto simp: backed_def stopped_rebuilding_def)
    qed
  qed
qed

text \<open>A consistent index is never rebuilt.\<close>

lemma opened_not_rebuilding:
  assumes "storage_contract m" and "starts_at env path r" and "state_at m fs path = Closed c"
  shows "\<not> stopped_rebuilding path (calls_made e (server_calls m env path r fs))"
proof (cases rule: server_calls_shape [OF assms(2), of m fs, case_names idle serving])
  case idle
  then show ?thesis by (simp add: quiet_made quiet_calls)
next
  case (serving pre tail)
  then have "server_calls m env path r fs = pre @ OpenStorage path # tail" using assms(3) by (simp add: open_index_env)
  then show ?thesis using states_opened(2) [OF assms(1,3) serving(1,2)] by simp
qed

lemma undisturbed_backed:
  assumes "undisturbed m env path fs fs'" and "storage_contract m" and "backed m fs path T"
  shows "backed m fs' path T"
  using assms by (induction rule: undisturbed.induct) (simp_all add: server_run_backed)

text \<open>A run that is stopped while rebuilding leaves an index only if the copy was completed.\<close>

lemma stopped_rebuilding_stored:
  assumes contract: "storage_contract m" and "starts_at env path r"
    and stop: "stopped_rebuilding path (calls_made e (server_calls m env path r fs))"
  shows "stored m (disk_after m (server_calls m env path r fs) e fs) path =
         (if Snapshot (snapshot_of path) path \<in> set (calls_made e (server_calls m env path r fs)) then stored m fs path else None)"
proof (cases rule: server_calls_shape [OF assms(2), of m fs, case_names idle serving])
  case idle
  then show ?thesis using stop quiet_made [OF quiet_calls] by blast
next
  case (serving pre tail)
  show ?thesis
  proof (cases "\<exists>c. state_at m fs path = Closed c")
    case True
    then obtain c where c: "state_at m fs path = Closed c" by blast
    have calls: "server_calls m env path r fs = pre @ OpenStorage path # tail"
      using serving(4) True by (simp add: open_index_env)
    then show ?thesis using stop states_opened(2) [OF contract c serving(1,2), of e] by simp
  next
    case False
    then obtain s where s: "state_at m fs (snapshot_of path) = Closed s"
      using serving(3) by (auto simp: open_index_env split: if_splits)
    then have calls: "server_calls m env path r fs = pre @ rebuild_calls path @ tail"
      using serving(4) False by (simp add: open_index_env)
    have found: "stored m fs path = Some s"
      using False s by (auto simp: stored_def split: storage_state.split)
    show ?thesis
    proof (cases rule: states_rebuilt [OF contract s serving(1,2) calls, of e, case_names before opened copied rebuilt])
      case before
      then show ?thesis using stop quiet_made by blast
    next
      case (opened x)
      then show ?thesis using serving(1) False
        by (auto simp: stored_def list_all_iff split: storage_state.split)
    next
      case copied
      then show ?thesis using found by (auto simp: stored_def)
    next
      case (rebuilt x d)
      then show ?thesis using stop by (simp add: stopped_rebuilding_def)
    qed
  qed
qed

text \<open>Without an index, no server serves and nothing changes.\<close>

lemma nothing_stored:
  assumes "starts_at env path r" and "stored m fs path = None"
  shows "list_all quiet (server_calls m env path r fs)" and "Serve st \<notin> set (server_calls m env path r fs)"
proof -
  have "\<not> snd (open_index (env_at m fs path env) path)"
    using assms(2) by (auto simp: open_index_env stored_def split: storage_state.splits)
  then show "list_all quiet (server_calls m env path r fs)" "Serve st \<notin> set (server_calls m env path r fs)"
    by (cases rule: server_calls_shape [OF assms(1), of m fs]; blast)+
qed

text \<open>With an index that has a tensor, a server started with a timeout and threads serves.\<close>

lemma stored_serves:
  assumes "starts_at env path r" and "asked_to_run r" and "as_unsigned 32 r ''timeout'' = Inr t" and "t \<noteq> 0"
    and "as_unsigned 16 r ''threads'' = Inr k" and "executor_error env k = None"
    and "stored m fs path = Some c" and "index_tensor c = Some T"
  shows "\<exists>st. Serve st \<in> set (server_calls m env path r fs)"
proof -
  obtain a storage cfg t' n where read: "log_args_of r = Inr a" "as_string r ''storage'' = Inr storage"
    "data_directory env storage = path" "cfg_of_args r = Inr cfg" "as_unsigned 32 r ''timeout'' = Inr t'"
    "opt_timeout_duration cfg = None \<longleftrightarrow> t' = 0" "as_unsigned 16 r ''threads'' = Inr n" "unat (threads cfg) = n"
    by (rule server_reads [OF assms(1)])
  let ?env = "env_at m fs path env"
  have "index_ready ?env (data_directory ?env storage)"
    using assms(7,8) by (auto simp: index_ready_def read env_at_def stored_def snapshot_of_def split: storage_state.splits)
  moreover have "executor_error ?env (unat (threads cfg)) = None" using read(7,8) assms(5,6) by (simp add: env_at_def)
  then obtain st where "fst (serve ?env cfg) = [Serve st]"
    using read(5,6) assms(3,4) by (auto simp: serve_started split: option.split)
  ultimately show ?thesis
    using server_main_outcome(1) [OF read(1,2,4), of st ?env] assms(2) by (auto simp: server_calls_def)
qed

text \<open>
  A start without timeout or threads throws after it has opened the index, which is left inconsistent although nothing
  was changed; the next start has to rebuild it from the snapshot.
\<close>

lemma failed_start_leaves_open:
  assumes "storage_contract m" and "starts_at env path r" and "asked_to_run r"
    and "as_unsigned 32 r ''timeout'' = Inr 0 \<or> as_unsigned 16 r ''threads'' = Inr 0 \<and> executor_error env 0 \<noteq> None"
    and "state_at m fs path = Closed c" and "index_tensor c = Some T" and "length (server_calls m env path r fs) \<le> n"
  shows "\<exists>d. state_at m (disk_after m (server_calls m env path r fs) (After n) fs) = (state_at m fs)(path := InUse d)"
proof -
  obtain a storage cfg t k where read: "log_args_of r = Inr a" "as_string r ''storage'' = Inr storage"
    "data_directory env storage = path" "cfg_of_args r = Inr cfg" "as_unsigned 32 r ''timeout'' = Inr t"
    "opt_timeout_duration cfg = None \<longleftrightarrow> t = 0" "as_unsigned 16 r ''threads'' = Inr k" "unat (threads cfg) = k"
    by (rule server_reads [OF assms(2)])
  have none: "help_exit r = None" using assms(3) by (simp add: asked_to_run_def help_exit_None)
  have "tensor_count (env_at m fs path env) = 1" using assms(5,6) by (simp add: env_at_def stored_def)
  moreover obtain e where "serve (env_at m fs path env) cfg = ([], Some e)"
    using read(5-8) assms(4) by (cases "executor_error env k") (auto simp: serve_started env_at_def)
  ultimately obtain l where "server_calls m env path r fs = [InitLogger l, OpenStorage path, FindOrConstructNodeStore, FindTensor]"
    using assms(5) by (simp add: server_calls_def server_main_def none read open_index_env finishing_def Let_def calling_def)
  then have "disk_after m (server_calls m env path r fs) (After n) fs = write_storage m path
      (\<lambda>c. c\<lparr>index_nodes := Some (case index_nodes c of None \<Rightarrow> new_nodes m | Some n \<Rightarrow> n)\<rparr>) (open_storage m path fs)"
    using assms(7) by (simp add: run_calls_def)
  then show ?thesis
    using contractD(2) [OF assms(1,5)] contractD(6) [OF assms(1), of "open_storage m path fs" path c] by auto
qed

subsection \<open>The loader\<close>

text \<open>A command line that asks the loader to load \<open>file\<close> into a new index at \<open>path\<close>.\<close>

definition loads_into :: "'level program_env \<Rightarrow> string \<Rightarrow> string \<Rightarrow> parse_result \<Rightarrow> bool" where
  "loads_into env path file r \<longleftrightarrow>
     (\<exists>cwd storage. cli_contract (loader_options cwd) r \<and> asked_to_run r \<and> 0 < opt_count r ''file'' \<and>
        as_string r ''file'' = Inr file \<and> as_string r ''storage'' = Inr storage \<and> data_directory env storage = path)"

lemma loader_calls_shape:
  assumes "loads_into env path file r" and "state_at m fs path = Absent" and "files m file \<noteq> None"
  obtains l b totals where "loader_calls m env path r fs =
    [InitLogger l] @ loader_init path @ [LoadFile file b, ReportTotals totals] @ loader_finish path"
proof -
  from assms(1) obtain cwd storage where c: "cli_contract (loader_options cwd) r" "asked_to_run r" "0 < opt_count r ''file''"
    "as_string r ''file'' = Inr file" "as_string r ''storage'' = Inr storage" "data_directory env storage = path"
    by (auto simp: loads_into_def)
  obtain a b where read: "log_args_of r = Inr a" "as_unsigned 32 r ''bulksize'' = Inr b"
    using loader_options_read [OF c(1)] by auto
  have "help_exit r = (None :: 'a program_call list option)" using c(2) by (simp add: asked_to_run_def help_exit_None)
  with c read assms(2,3) show thesis
    by (auto simp: loader_calls_def loader_main_def load_data_outcome finishing_def Let_def intro!: that)
qed

lemma loader_leaves_index:
  assumes "storage_contract m" and "loads_into env path file r" and "state_at m fs path = Absent" and "files m file \<noteq> None"
    and "length (loader_calls m env path r fs) \<le> n"
  shows "\<exists>c. index_tensor c = Some (file_triples m file) \<and>
           state_at m (disk_after m (loader_calls m env path r fs) (After n) fs) =
             (state_at m fs)(path := Closed c, snapshot_of path := Closed c)"
proof -
  note laws = contractD [OF assms(1)]
  obtain l b totals where calls: "loader_calls m env path r fs =
      [InitLogger l] @ loader_init path @ [LoadFile file b, ReportTotals totals] @ loader_finish path"
    using loader_calls_shape [OF assms(2,3,4)] .
  let ?make = "\<lambda>c. c\<lparr>index_nodes := Some (case index_nodes c of None \<Rightarrow> new_nodes m | Some n \<Rightarrow> n)\<rparr>"
  let ?tensor = "\<lambda>c. c\<lparr>index_tensor := Some (case index_tensor c of None \<Rightarrow> {} | Some T \<Rightarrow> T)\<rparr>"
  let ?load = "\<lambda>c. c\<lparr>index_nodes := map_option (intern_nodes m (LoadFile file b)) (index_nodes c),
                     index_tensor := map_option (\<lambda>T. T \<union> file_triples m file) (index_tensor c)\<rparr>"
  define fs1 where "fs1 = open_storage m path (close_storage m path (create_storage m path fs))"
  define fs2 where "fs2 = write_storage m path ?load (write_storage m path ?tensor (write_storage m path ?make fs1))"
  define fs3 where "fs3 = open_read_only m path (close_storage m path fs2)"
  define fs4 where "fs4 = close_storage m path (snapshot_storage m path (snapshot_of path) fs3)"
  define c where "c = ?load (?tensor (?make empty_index))"
  have "state_at m (create_storage m path fs) = (state_at m fs)(path := InUse empty_index)"
    by (rule laws(1) [OF assms(3)])
  then have "state_at m (close_storage m path (create_storage m path fs)) = (state_at m fs)(path := Closed empty_index)"
    by (subst laws(5) [where c = empty_index]) simp_all
  then have s1: "state_at m fs1 = (state_at m fs)(path := InUse empty_index)"
    unfolding fs1_def by (subst laws(2) [where c = empty_index]) simp_all
  have written: "state_at m (write_storage m path f fs') = (state_at m fs)(path := InUse (f d))"
    if "state_at m fs' = (state_at m fs)(path := InUse d)" for f d fs'
    using that by (subst laws(6) [where c = d]) simp_all
  have s2: "state_at m fs2 = (state_at m fs)(path := InUse c)"
    unfolding fs2_def c_def by (intro written s1)
  then have s: "state_at m (close_storage m path fs2) = (state_at m fs)(path := Closed c)"
    by (subst laws(5) [where c = c]) simp_all
  then have s3: "state_at m fs3 = (state_at m fs)(path := Closed c)"
    unfolding fs3_def by (subst laws(3) [where c = c]) simp_all
  then have s: "state_at m (snapshot_storage m path (snapshot_of path) fs3) = (state_at m fs)(path := Closed c, snapshot_of path := Closed c)"
    by (subst laws(7) [where c = c]) simp_all
  then have s4: "state_at m fs4 = (state_at m fs)(path := Closed c, snapshot_of path := Closed c)"
    unfolding fs4_def by (subst laws(4) [where c = c]) simp_all
  have "disk_after m (loader_calls m env path r fs) (After n) fs = fs4"
    using assms(5)
    by (simp add: calls loader_init_def loader_finish_def run_calls_def fs1_def fs2_def fs3_def fs4_def flip: snapshot_of_def)
  moreover have "index_tensor c = Some (file_triples m file)" by (simp add: c_def empty_index_def)
  ultimately show ?thesis using s4 by blast
qed

lemma loaded_backed:
  assumes "storage_contract m" and "loads_into env path file lr" and "files m file \<noteq> None" and "state_at m fs path = Absent"
    and "length (loader_calls m env path lr fs) \<le> n"
    and "undisturbed m env path (disk_after m (loader_calls m env path lr fs) (After n) fs) fs'"
  shows "backed m fs' path (file_triples m file)"
proof (rule undisturbed_backed [OF assms(6,1)])
  obtain c where "index_tensor c = Some (file_triples m file)"
    "state_at m (disk_after m (loader_calls m env path lr fs) (After n) fs) = (state_at m fs)(path := Closed c, snapshot_of path := Closed c)"
    using loader_leaves_index [OF assms(1,2,4,3,5)] by blast
  then show "backed m (disk_after m (loader_calls m env path lr fs) (After n) fs) path (file_triples m file)"
    by (simp add: backed_def)
qed

subsection \<open>The index across runs\<close>

text \<open>
  C9. What was loaded stays served. After the loader has loaded a file into a new index, and after any number of
  runs of the server, each of which may end, exit, throw or be killed at any point except while it has
  the snapshot open to rebuild the index, every further start with a timeout and a number of threads that taskflow's
  executor accepts finds an index that holds exactly the triples of the file, and serves.
\<close>

theorem loaded_index_served:
  assumes "storage_contract m" and "loads_into env path file lr" and "files m file \<noteq> None" and "state_at m fs path = Absent"
    and "length (loader_calls m env path lr fs) \<le> n"
    and "undisturbed m env path (disk_after m (loader_calls m env path lr fs) (After n) fs) fs'"
    and "starts_at env path r" and "asked_to_run r" and "as_unsigned 32 r ''timeout'' = Inr t" and "t \<noteq> 0"
    and "as_unsigned 16 r ''threads'' = Inr k" and "executor_error env k = None"
  shows "\<exists>c st. stored m fs' path = Some c \<and> index_tensor c = Some (file_triples m file) \<and>
           Serve st \<in> set (server_calls m env path r fs')"
proof -
  obtain d where d: "stored m fs' path = Some d" "index_tensor d = Some (file_triples m file)"
    by (rule backed_stored [OF loaded_backed [OF assms(1-6)]])
  moreover obtain st where "Serve st \<in> set (server_calls m env path r fs')"
    using stored_serves [OF assms(7-12) d] by blast
  ultimately show ?thesis by blast
qed

text \<open>A machine whose disk is a map of the storages, and one file with three triples and an error.\<close>

type_synonym sample_disk = "string \<Rightarrow> (nat, string) index_data storage_state"

definition sample_file_triples :: "string triple_pattern list" where
  "sample_file_triples =
     [(IRI ''a'', IRI ''p'', IRI ''b''), (IRI ''b'', IRI ''q'', IRI ''a''), (IRI ''b'', IRI ''r'', IRI ''c'')]"

definition map_machine :: "(sample_disk, nat, string, string, string) machine" where
  "map_machine =
     \<lparr>state_at = (\<lambda>fs. fs),
      create_storage = (\<lambda>p fs. fs(p := InUse empty_index)),
      open_storage = (\<lambda>p fs. case fs p of Closed c \<Rightarrow> fs(p := InUse c) | _ \<Rightarrow> fs),
      open_read_only = (\<lambda>p fs. fs),
      close_storage = (\<lambda>p fs. case fs p of InUse c \<Rightarrow> fs(p := Closed c) | _ \<Rightarrow> fs),
      write_storage = (\<lambda>p f fs. case fs p of InUse c \<Rightarrow> fs(p := InUse (f c)) | _ \<Rightarrow> fs),
      snapshot_storage = (\<lambda>p q fs. case fs p of InUse c \<Rightarrow> fs(q := Closed c) | Closed c \<Rightarrow> fs(q := Closed c) | _ \<Rightarrow> fs),
      torn_snapshot = (\<lambda>p q fs. fs(q := Damaged)),
      files = (\<lambda>f. if f = ''f'' then Some (Inl ''error'' # map (\<lambda>t. Inr (t, NullNode)) sample_file_triples) else None),
      new_nodes = 0, intern_nodes = (\<lambda>c n. Suc n)\<rparr>"

lemma map_machine_contract: "storage_contract map_machine"
  by (auto simp: storage_contract_def map_machine_def)

abbreviation sample_path :: string where
  "sample_path \<equiv> ''./tentris_data''"

abbreviation sample_server_args :: parse_result where
  "sample_server_args \<equiv> no_options (server_options ''.'' 8)"

lemma sample_args:
  "loads_into (sample_env True) sample_path ''f'' (sample_load ''f'')"
  "starts_at (sample_env True) sample_path sample_server_args"
  "asked_to_run sample_server_args" "as_unsigned 32 sample_server_args ''timeout'' = Inr 180"
  "(180::nat) \<noteq> 0" "as_unsigned 16 sample_server_args ''threads'' = Inr 8" "executor_error (sample_env True) 8 = None"
proof -
  have "cli_contract (loader_options ''.'') (sample_load ''f'')"
    by (simp add: sample_load_def cli_contract_def loader_options_def decl_contract_def del: default_value.simps)
  then show "loads_into (sample_env True) sample_path ''f'' (sample_load ''f'')"
    by (auto simp: loads_into_def as_string_def sample_load_def loader_options_def asked_to_run_def sample_env_def)
  have "cli_contract (server_options ''.'' 8) sample_server_args"
    by (rule no_options_contract) (simp add: server_options_def)
  moreover have "as_string sample_server_args ''storage'' = Inr ''.''" "data_directory (sample_env True) ''.'' = sample_path"
    by (simp_all add: as_string_def no_options_def server_options_def sample_env_def)
  ultimately show "starts_at (sample_env True) sample_path sample_server_args"
    unfolding starts_at_def by (intro exI [of _ "''.''"] exI [of _ "8::nat"] conjI) simp_all
  show "asked_to_run sample_server_args" "as_unsigned 32 sample_server_args ''timeout'' = Inr 180" "(180::nat) \<noteq> 0"
    "as_unsigned 16 sample_server_args ''threads'' = Inr 8" "executor_error (sample_env True) 8 = None"
    by (simp_all add: sample_env_def asked_to_run_def as_unsigned_def no_options_def server_options_def del: default_value.simps)
qed

lemma sample_file_triples_eq: "file_triples map_machine ''f'' = nodes_of ` set sample_file_triples"
  by (simp add: map_machine_def file_triples_def load_ttl_def sample_file_triples_def)

text \<open>The file is loaded, and the first server is killed after four calls, while it serves.\<close>

lemma sample_loaded:
  "files map_machine ''f'' \<noteq> None" "state_at map_machine (\<lambda>_. Absent) sample_path = Absent"
  "length (loader_calls map_machine (sample_env True) sample_path (sample_load ''f'') (\<lambda>_. Absent)) \<le> 12"
  "undisturbed map_machine (sample_env True) sample_path
     (disk_after map_machine (loader_calls map_machine (sample_env True) sample_path (sample_load ''f'') (\<lambda>_. Absent)) (After 12) (\<lambda>_. Absent))
     (disk_after map_machine (server_calls map_machine (sample_env True) sample_path sample_server_args
        (disk_after map_machine (loader_calls map_machine (sample_env True) sample_path (sample_load ''f'') (\<lambda>_. Absent)) (After 12) (\<lambda>_. Absent)))
      (After 4)
      (disk_after map_machine (loader_calls map_machine (sample_env True) sample_path (sample_load ''f'') (\<lambda>_. Absent)) (After 12) (\<lambda>_. Absent)))"
proof -
  let ?m = map_machine and ?env = "sample_env True" and ?fs = "\<lambda>_. Absent"
  let ?load = "loader_calls ?m ?env sample_path (sample_load ''f'') ?fs"
  let ?fs1 = "disk_after ?m ?load (After 12) ?fs"
  show pre: "files ?m ''f'' \<noteq> None" "state_at ?m ?fs sample_path = Absent" by (simp_all add: map_machine_def)
  obtain l b totals where "?load = [InitLogger l] @ loader_init sample_path @ [LoadFile ''f'' b, ReportTotals totals] @ loader_finish sample_path"
    using loader_calls_shape [OF sample_args(1) pre(2,1)] .
  then show len: "length ?load \<le> 12" by (simp add: loader_init_def loader_finish_def)
  obtain c where "state_at ?m ?fs1 sample_path = Closed c"
    using loader_leaves_index [OF map_machine_contract sample_args(1) pre(2,1) len] by auto
  then show "undisturbed ?m ?env sample_path ?fs1 (disk_after ?m (server_calls ?m ?env sample_path sample_server_args ?fs1) (After 4) ?fs1)"
    by (intro undisturbed.intros opened_not_rebuilding [OF map_machine_contract] sample_args(2))
qed

theorem loaded_index_served_witness:
  "let m = map_machine; env = sample_env True;
       fs1 = disk_after m (loader_calls m env sample_path (sample_load ''f'') (\<lambda>_. Absent)) (After 12) (\<lambda>_. Absent);
       fs2 = disk_after m (server_calls m env sample_path sample_server_args fs1) (After 4) fs1
   in \<exists>c st. stored m fs2 sample_path = Some c \<and> index_tensor c = Some (nodes_of ` set sample_file_triples) \<and>
        Serve st \<in> set (server_calls m env sample_path sample_server_args fs2)"
  using loaded_index_served [OF map_machine_contract sample_args(1) sample_loaded sample_args(2-7)]
  by (simp add: sample_file_triples_eq Let_def)

text \<open>
  C10. A server that is stopped while it rebuilds the index, after it has opened the snapshot and before the copy is
  complete, loses the index for good: the snapshot, opened for writing, is no longer consistent, and neither is the
  copy. No later run of the server serves, whatever its options, and none changes this.
\<close>

theorem interrupted_rebuild_loses_index:
  assumes "storage_contract m" and "starts_at env path r0"
    and "stopped_rebuilding path (calls_made e0 (server_calls m env path r0 fs))"
    and "Snapshot (snapshot_of path) path \<notin> set (calls_made e0 (server_calls m env path r0 fs))"
    and "undisturbed m env path (disk_after m (server_calls m env path r0 fs) e0 fs) fs'" and "starts_at env path r"
  shows "stored m fs' path = None \<and> Serve st \<notin> set (server_calls m env path r fs')"
proof -
  have "stored m (disk_after m (server_calls m env path r0 fs) e0 fs) path = None"
    using stopped_rebuilding_stored [OF assms(1-3)] assms(4) by simp
  with assms(5) have "stored m fs' path = None"
  proof (induction rule: undisturbed.induct)
    case (server_run fs' r e)
    have "stored m fs' path = None" using server_run.IH server_run.prems by simp
    then show ?case using disk_quiet [OF nothing_stored(1) [OF server_run.hyps(2)], of m fs' m e fs'] by simp
  qed
  then show ?thesis using nothing_stored(2) [OF assms(6), of m fs' st] by simp
qed

text \<open>Only the snapshot is there, and the server is killed inside the copy.\<close>

theorem interrupted_rebuild_loses_index_witness:
  "let m = map_machine; env = sample_env True; c = \<lparr>index_nodes = Some 0, index_tensor = Some {}\<rparr>;
       fs = (\<lambda>_. Absent)(snapshot_of sample_path := Closed c)
   in stored m fs sample_path = Some c \<and>
      (\<exists>k. let fs' = disk_after m (server_calls m env sample_path sample_server_args fs) (Inside k) fs
           in stored m fs' sample_path = None \<and> (\<forall>st. Serve st \<notin> set (server_calls m env sample_path sample_server_args fs')))"
proof -
  let ?m = map_machine and ?env = "sample_env True" and ?c = "\<lparr>index_nodes = Some 0, index_tensor = Some {}\<rparr>"
  let ?fs = "(\<lambda>_. Absent)(snapshot_of sample_path := Closed ?c)"
  let ?calls = "server_calls ?m ?env sample_path sample_server_args ?fs"
  have stored: "stored ?m ?fs sample_path = Some ?c"
    by (simp add: stored_def map_machine_def)
  have rebuild: "open_index (env_at ?m ?fs sample_path ?env) sample_path = (rebuild_calls sample_path, True)"
    by (simp add: open_index_env) (simp add: map_machine_def)
  obtain st where "Serve st \<in> set ?calls"
    using stored_serves [OF sample_args(2-7) stored] by auto
  then obtain pre tail where pre: "list_all quiet pre" "?calls = pre @ rebuild_calls sample_path @ tail"
    by (cases rule: server_calls_shape [OF sample_args(2), of ?m ?fs]) (auto simp: rebuild)
  let ?e = "Inside (Suc (length pre))"
  have made: "calls_made ?e ?calls = pre @ [OpenStorage (snapshot_of sample_path)]"
    by (simp add: pre(2) rebuild_calls_def)
  have "stopped_rebuilding sample_path (calls_made ?e ?calls)" "Snapshot (snapshot_of sample_path) sample_path \<notin> set (calls_made ?e ?calls)"
    unfolding made using pre(1) by (auto simp: stopped_rebuilding_def list_all_iff)
  from interrupted_rebuild_loses_index [OF map_machine_contract sample_args(2) this undisturbed.no_run sample_args(2)] stored
  show ?thesis by (auto simp: Let_def)
qed

end
