(* ===== verification/Tools.thy ===== *)
theory Tools
  imports Command_Line Triple_Store
begin

text \<open>
  The tools \<open>deduplicated-nt\<close> and \<open>rdf2ids\<close> (\<open>execs/tools\<close>), which filter the triples of a file through a
  set of hashes: their loops, and their main functions from the parsed command line on.

  File access, the RDF parser and hashing are libraries. The messages of the logger are left out; \<open>None\<close>
  for a file is a file that cannot be opened.
\<close>

subsection \<open>The loops\<close>

record ('l, 'e) tool_env =
  read_quads :: "string \<Rightarrow> ('e + 'l triple_pattern \<times> 'l node) list option"
  raw_handle :: "'l node \<Rightarrow> 64 word"
  dice_hash :: "64 word list \<Rightarrow> 64 word"
  node_text :: "'l node \<Rightarrow> string"

datatype ('o, 'e) tool_output =
    Stdout 'o
  | Stderr 'e

definition id_triple :: "('l, 'e) tool_env \<Rightarrow> 'l triple_pattern \<Rightarrow> 64 word list" where
  "id_triple env t = map (raw_handle env) (nodes_of t)"

text \<open>\<open>terminate_at_limit\<close>: the new count, and whether the program exits.\<close>

definition terminate_at_limit :: "size_t \<Rightarrow> size_t \<Rightarrow> size_t \<times> bool" where
  "terminate_at_limit limit count = (count + 1, limit < count + 1)"

definition nt_line :: "('l, 'e) tool_env \<Rightarrow> 'l triple_pattern \<Rightarrow> string" where
  "nt_line env t =
     (case t of (s, p, oj) \<Rightarrow>
        node_text env s @ '' '' @ node_text env p @ '' '' @ node_text env oj @ '' . '' @ [CHR 0x0A])"

fun deduplicate_loop ::
  "('l, 'e) tool_env \<Rightarrow> size_t \<Rightarrow> size_t \<Rightarrow> 64 word set \<Rightarrow> ('e + 'l triple_pattern \<times> 'l node) list \<Rightarrow>
   (string, 'e) tool_output list" where
  "deduplicate_loop env limit count deduplication [] = []"
| "deduplicate_loop env limit count deduplication (Inl e # qs) =
     Stderr e # deduplicate_loop env limit count deduplication qs"
| "deduplicate_loop env limit count deduplication (Inr (t, graph) # qs) =
     (let hash = dice_hash env (id_triple env t) in
      if hash \<notin> deduplication
      then (case terminate_at_limit limit count of
              (count', True) \<Rightarrow> []
            | (count', False) \<Rightarrow>
                Stdout (nt_line env t) # deduplicate_loop env limit count' (insert hash deduplication) qs)
      else deduplicate_loop env limit count deduplication qs)"

definition deduplicated_nt :: "('l, 'e) tool_env \<Rightarrow> size_t \<Rightarrow> string \<Rightarrow> exn + (string, 'e) tool_output list" where
  "deduplicated_nt env limit file_path =
     (case read_quads env file_path of
        None \<Rightarrow> Inl (RuntimeError (''unable to open provided file '' @ file_path))
      | Some qs \<Rightarrow> Inr (deduplicate_loop env limit 0 {} qs))"

fun ids_loop ::
  "('l, 'e) tool_env \<Rightarrow> size_t \<Rightarrow> bool \<Rightarrow> size_t \<Rightarrow> 64 word set \<Rightarrow> ('e + 'l triple_pattern \<times> 'l node) list \<Rightarrow>
   (64 word list, 'e) tool_output list" where
  "ids_loop env limit deduplicate count deduplication [] = []"
| "ids_loop env limit deduplicate count deduplication (Inl e # qs) =
     Stderr e # ids_loop env limit deduplicate count deduplication qs"
| "ids_loop env limit deduplicate count deduplication (Inr (t, graph) # qs) =
     (let ids = id_triple env t in
      if deduplicate
      then (let hash = dice_hash env ids in
            if hash \<notin> deduplication
            then (case terminate_at_limit limit count of
                    (count', True) \<Rightarrow> []
                  | (count', False) \<Rightarrow>
                      Stdout ids # ids_loop env limit deduplicate count' (insert hash deduplication) qs)
            else ids_loop env limit deduplicate count deduplication qs)
      else (case terminate_at_limit limit count of
              (count', True) \<Rightarrow> []
            | (count', False) \<Rightarrow> Stdout ids # ids_loop env limit deduplicate count' deduplication qs))"

text \<open>The option \<open>distinct\<close> is only read when the file is open.\<close>

definition rdf2ids ::
  "('l, 'e) tool_env \<Rightarrow> size_t \<Rightarrow> exn + bool \<Rightarrow> string \<Rightarrow> exn + (64 word list, 'e) tool_output list" where
  "rdf2ids env limit distinct_option file_path =
     (case read_quads env file_path of
        None \<Rightarrow> Inl (RuntimeError (''unable to open provided file '' @ file_path))
      | Some qs \<Rightarrow> bind_res distinct_option (\<lambda>deduplicate. Inr (ids_loop env limit deduplicate 0 {} qs)))"

subsection \<open>The programs\<close>

datatype ('o, 'e, 'level) tool_call =
    ToolHelp
  | ToolVersion
  | ToolLogger "'level logger"
  | ToolOutput "('o, 'e) tool_output"

definition deduplicated_nt_main ::
  "(string \<Rightarrow> 'level) \<Rightarrow> ('l, 'e) tool_env \<Rightarrow> parse_result \<Rightarrow> (string, 'e, 'level) tool_call list \<times> exn option" where
  "deduplicated_nt_main level_of env r =
     (if 0 < opt_count r ''help'' then ([ToolHelp], None)
      else if 0 < opt_count r ''version'' then ([ToolVersion], None)
      else
        reading (as_string r ''loglevel'') (\<lambda>level.
        calling [ToolLogger (init_tool_logger level_of level)] (
        reading (as_unsigned 64 r ''limit'') (\<lambda>limit.
        reading (as_string r ''file'') (\<lambda>file_path.
        reading (deduplicated_nt env (of_nat limit) file_path) (\<lambda>out. (map ToolOutput out, None)))))))"

definition rdf2ids_main ::
  "(string \<Rightarrow> 'level) \<Rightarrow> ('l, 'e) tool_env \<Rightarrow> parse_result \<Rightarrow> (64 word list, 'e, 'level) tool_call list \<times> exn option" where
  "rdf2ids_main level_of env r =
     (if 0 < opt_count r ''help'' then ([ToolHelp], None)
      else if 0 < opt_count r ''version'' then ([ToolVersion], None)
      else
        reading (as_string r ''loglevel'') (\<lambda>level.
        calling [ToolLogger (init_tool_logger level_of level)] (
        reading (as_unsigned 64 r ''limit'') (\<lambda>limit.
        reading (as_string r ''file'') (\<lambda>file_path.
        reading (rdf2ids env (of_nat limit) (as_bool r ''distinct'') file_path) (\<lambda>out. (map ToolOutput out, None)))))))"

subsection \<open>What the tools print\<close>

fun stdout_of :: "('o, 'e) tool_output list \<Rightarrow> 'o list" where
  "stdout_of [] = []"
| "stdout_of (Stdout x # os) = x # stdout_of os"
| "stdout_of (Stderr e # os) = stdout_of os"

fun triples_of :: "('e + 'l triple_pattern \<times> 'l node) list \<Rightarrow> 'l triple_pattern list" where
  "triples_of [] = []"
| "triples_of (Inl e # qs) = triples_of qs"
| "triples_of (Inr (t, graph) # qs) = t # triples_of qs"

text \<open>The elements whose key was not seen before.\<close>

fun nub_by :: "('a \<Rightarrow> 'k) \<Rightarrow> 'k set \<Rightarrow> 'a list \<Rightarrow> 'a list" where
  "nub_by f seen [] = []"
| "nub_by f seen (x # xs) = (if f x \<in> seen then nub_by f seen xs else x # nub_by f (insert (f x) seen) xs)"

lemma nub_by_inj: "inj_on f (S \<union> set xs) \<Longrightarrow> nub_by f (f ` S) xs = nub_acc S xs"
proof (induction xs arbitrary: S)
  case Nil
  show ?case by simp
next
  case (Cons x xs)
  have "f x \<in> f ` S \<longleftrightarrow> x \<in> S"
    using Cons.prems by (auto simp: inj_on_def)
  moreover have "nub_by f (f ` S) xs = nub_acc S xs" "nub_by f (f ` insert x S) xs = nub_acc (insert x S) xs"
    using Cons.prems by (auto intro!: Cons.IH elim: inj_on_subset simp del: image_insert)
  ultimately show ?case by simp
qed

lemma terminate_at_limit_count:
  assumes "Suc k < 2 ^ 64"
  shows "terminate_at_limit limit (of_nat k) = (of_nat (Suc k), unat limit \<le> k)"
proof -
  have "unat (of_nat (Suc k) :: size_t) = Suc k"
    using assms by (simp add: unsigned_of_nat take_bit_nat_eq_self del: of_nat_Suc)
  then have "limit < (of_nat (Suc k) :: size_t) \<longleftrightarrow> unat limit < Suc k"
    by (simp only: word_less_nat_alt)
  then show ?thesis by (simp add: terminate_at_limit_def add.commute less_Suc_eq_le)
qed

abbreviation triple_hash :: "('l, 'e) tool_env \<Rightarrow> 'l triple_pattern \<Rightarrow> 64 word" where
  "triple_hash env t \<equiv> dice_hash env (id_triple env t)"

lemma take_diff_Cons: "k < n \<Longrightarrow> take (n - k) (x # xs) = x # take (n - Suc k) xs"
  by (simp add: take_Cons')

lemma deduplicate_loop_stdout:
  assumes "k + length qs < 2 ^ 64"
  shows "stdout_of (deduplicate_loop env limit (of_nat k) seen qs) =
           map (nt_line env) (take (unat limit - k) (nub_by (triple_hash env) seen (triples_of qs)))"
  using assms
proof (induction qs arbitrary: k seen)
  case Nil
  show ?case by simp
next
  case (Cons q qs)
  show ?case
  proof (cases q)
    case (Inl e)
    then show ?thesis using Cons by simp
  next
    case (Inr tg)
    obtain t g where tg: "tg = (t, g)" by (cases tg)
    have step: "terminate_at_limit limit (of_nat k) = (of_nat (Suc k), unat limit \<le> k)"
      using Cons.prems by (intro terminate_at_limit_count) simp
    show ?thesis
    proof (cases "unat limit \<le> k")
      case True
      then show ?thesis using Cons.IH [of k seen] Cons.prems Inr tg step by (simp add: Let_def)
    next
      case False
      then show ?thesis
        using Cons.IH [of k seen] Cons.IH [of "Suc k" "insert (triple_hash env t) seen"] Cons.prems Inr tg step
        by (simp add: Let_def take_diff_Cons del: of_nat_Suc)
    qed
  qed
qed

lemma ids_loop_stdout:
  assumes "k + length qs < 2 ^ 64"
  shows "stdout_of (ids_loop env limit dedup (of_nat k) seen qs) =
           map (id_triple env) (take (unat limit - k)
             (if dedup then nub_by (triple_hash env) seen (triples_of qs) else triples_of qs))"
  using assms
proof (induction qs arbitrary: k seen)
  case Nil
  show ?case by simp
next
  case (Cons q qs)
  show ?case
  proof (cases q)
    case (Inl e)
    then show ?thesis using Cons by simp
  next
    case (Inr tg)
    obtain t g where tg: "tg = (t, g)" by (cases tg)
    have step: "terminate_at_limit limit (of_nat k) = (of_nat (Suc k), unat limit \<le> k)"
      using Cons.prems by (intro terminate_at_limit_count) simp
    show ?thesis
    proof (cases "unat limit \<le> k")
      case True
      then show ?thesis using Cons.IH [of k seen] Cons.prems Inr tg step by (cases dedup) (simp_all add: Let_def)
    next
      case False
      then show ?thesis
        using Cons.IH [of k seen] Cons.IH [of "Suc k" seen] Cons.IH [of "Suc k" "insert (triple_hash env t) seen"]
          Cons.prems Inr tg step
        by (cases dedup) (simp_all add: Let_def take_diff_Cons del: of_nat_Suc)
    qed
  qed
qed

text \<open>
  C39. \<open>deduplicated-nt\<close> prints the triples of the file whose hash it has not seen before, in order, up to
  the limit; if the hashes of the triples do not collide, these are exactly the distinct triples, each once.
\<close>

theorem deduplicated_nt_output:
  assumes "read_quads env file = Some qs" and "length qs < 2 ^ 64"
  shows "\<exists>out. deduplicated_nt env limit file = Inr out \<and>
           stdout_of out = map (nt_line env) (take (unat limit)
             (nub_by (\<lambda>t. dice_hash env (id_triple env t)) {} (triples_of qs))) \<and>
           (inj_on (\<lambda>t. dice_hash env (id_triple env t)) (set (triples_of qs)) \<longrightarrow>
              stdout_of out = map (nt_line env) (take (unat limit) (nub_acc {} (triples_of qs))))"
  using assms deduplicate_loop_stdout [of 0 qs env limit "{}"] nub_by_inj [of "triple_hash env" "{}" "triples_of qs"]
  by (simp add: deduplicated_nt_def)

text \<open>Nodes are numbered, the hash is the sum.\<close>

definition sample_tool :: "(string, string) tool_env" where
  "sample_tool =
     \<lparr>read_quads = (\<lambda>f. if f = ''f'' then Some [Inr ((BNode ''a'', IRI ''p'', BNode ''b''), NullNode), Inl ''error'',
         Inr ((BNode ''a'', IRI ''p'', BNode ''b''), NullNode), Inr ((BNode ''a'', IRI ''p'', BNode ''a''), NullNode),
         Inr ((BNode ''b'', IRI ''p'', BNode ''b''), NullNode)] else None),
      raw_handle = (\<lambda>n. if n = BNode ''a'' then 1 else if n = BNode ''b'' then 2 else 0), dice_hash = sum_list,
      node_text = (\<lambda>n. case n of BNode x \<Rightarrow> x | IRI x \<Rightarrow> x | _ \<Rightarrow> '''')\<rparr>"

lemma sample_tool_file:
  "\<exists>qs. read_quads sample_tool ''f'' = Some qs \<and> length qs < 2 ^ 64 \<and>
     triples_of qs = [(BNode ''a'', IRI ''p'', BNode ''b''), (BNode ''a'', IRI ''p'', BNode ''b''),
                      (BNode ''a'', IRI ''p'', BNode ''a''), (BNode ''b'', IRI ''p'', BNode ''b'')]"
  by (simp add: sample_tool_def)

theorem deduplicated_nt_output_witness:
  "\<exists>out. deduplicated_nt sample_tool 2 ''f'' = Inr out \<and>
     stdout_of out = [''a p b . '' @ [CHR 0x0A], ''a p a . '' @ [CHR 0x0A]]"
proof -
  obtain qs where qs: "read_quads sample_tool ''f'' = Some qs" "length qs < 2 ^ 64"
    "triples_of qs = [(BNode ''a'', IRI ''p'', BNode ''b''), (BNode ''a'', IRI ''p'', BNode ''b''),
                      (BNode ''a'', IRI ''p'', BNode ''a''), (BNode ''b'', IRI ''p'', BNode ''b'')]"
    using sample_tool_file by blast
  obtain out where "deduplicated_nt sample_tool 2 ''f'' = Inr out"
    "stdout_of out = map (nt_line sample_tool) (take (unat (2 :: size_t))
       (nub_by (\<lambda>t. dice_hash sample_tool (id_triple sample_tool t)) {} (triples_of qs)))"
    using deduplicated_nt_output [OF qs(1,2), of 2] by blast
  then show ?thesis by (simp add: qs(3)) (simp add: sample_tool_def id_triple_def nt_line_def)
qed

text \<open>
  \<open>rdf2ids\<close> prints the id triples of the file in order, up to the limit: all of them, or with the
  option \<open>distinct\<close> those whose hash was not seen before.
\<close>

lemma rdf2ids_output:
  assumes "read_quads env file = Some qs" and "length qs < 2 ^ 64"
  shows "\<exists>out. rdf2ids env limit (Inr dedup) file = Inr out \<and>
           stdout_of out = map (id_triple env) (take (unat limit)
             (if dedup then nub_by (\<lambda>t. dice_hash env (id_triple env t)) {} (triples_of qs) else triples_of qs))"
  using assms ids_loop_stdout [of 0 qs env limit dedup "{}"] by (simp add: rdf2ids_def)

subsection \<open>The tools read their options\<close>

lemma max_size_default:
  "default_value (TUnsigned 64) (show_nat (2 ^ 64 - 1)) \<noteq> None"
  by (subst default_numeral) simp_all

lemma tool_options_read:
  assumes "decl_contract r (opt ''l'' ''loglevel'' TString (Some ''info''))"
    and "decl_contract r (opt ''m'' ''limit'' (TUnsigned 64) (Some (show_nat (2 ^ 64 - 1))))"
    and "decl_contract r (opt ''f'' ''file'' TString None)"
  shows "\<exists>level limit. as_string r ''loglevel'' = Inr level \<and> as_unsigned 64 r ''limit'' = Inr limit \<and>
           (if opt_count r ''file'' = 0 then as_string r ''file'' = Inl no_value
            else \<exists>file_path. as_string r ''file'' = Inr file_path)"
  using read_declared(1) [OF assms(1)] read_declared(4) [OF assms(2) max_size_default]
    read_declared(2) [OF assms(3)] read_missing [OF assms(3)] by auto

text \<open>The exception a tool should end with: the file is missing on the command line, or cannot be opened.\<close>

definition tool_exception :: "('l, 'e) tool_env \<Rightarrow> parse_result \<Rightarrow> exn option" where
  "tool_exception env r =
     (if 0 < opt_count r ''help'' \<or> 0 < opt_count r ''version'' then None
      else if opt_count r ''file'' = 0 then Some no_value
      else case as_string r ''file'' of
             Inl e \<Rightarrow> Some e
           | Inr f \<Rightarrow> if read_quads env f = None then Some (RuntimeError (''unable to open provided file '' @ f)) else None)"

lemma deduplicated_nt_exception:
  assumes "cli_contract deduplicated_nt_options r"
  shows "snd (deduplicated_nt_main level_of env r) = tool_exception env r"
proof -
  obtain level limit where r: "as_string r ''loglevel'' = Inr level" "as_unsigned 64 r ''limit'' = Inr limit"
    "if opt_count r ''file'' = 0 then as_string r ''file'' = Inl no_value else \<exists>f. as_string r ''file'' = Inr f"
    using tool_options_read [of r] assms by (auto simp: cli_contract_def deduplicated_nt_options_def)
  then show ?thesis
    by (auto simp: deduplicated_nt_main_def deduplicated_nt_def tool_exception_def split: option.split if_splits)
qed

lemma rdf2ids_exception:
  assumes "cli_contract rdf2ids_options r"
  shows "snd (rdf2ids_main level_of env r) = tool_exception env r"
proof -
  obtain level limit where r: "as_string r ''loglevel'' = Inr level" "as_unsigned 64 r ''limit'' = Inr limit"
    "if opt_count r ''file'' = 0 then as_string r ''file'' = Inl no_value else \<exists>f. as_string r ''file'' = Inr f"
    using tool_options_read [of r] assms by (auto simp: cli_contract_def rdf2ids_options_def)
  moreover obtain b where "as_bool r ''distinct'' = Inr b"
    using read_declared(3) [of r "''d''" "''distinct''" "''false''"] assms
    by (auto simp: cli_contract_def rdf2ids_options_def)
  ultimately show ?thesis
    by (auto simp: rdf2ids_main_def rdf2ids_def tool_exception_def split: option.split if_splits)
qed

lemma file_readable:
  assumes "decl_contract r (opt ''f'' ''file'' TString None)" and "tool_exception env r = Some e"
  shows "e = no_value \<or> (\<exists>f. e = RuntimeError (''unable to open provided file '' @ f))"
  using assms read_declared(2) [OF assms(1)] by (auto simp: tool_exception_def split: if_splits sum.splits)

text \<open>
  C40. Both tools read every option with the type it was declared with: a tool ends with an exception exactly
  if it is asked for neither help nor its version, and the option \<open>file\<close> is missing, which is an
  exception of the parser, or the file cannot be opened. No other exception ends it.
\<close>

theorem tool_options_typed:
  assumes "cli_contract deduplicated_nt_options r" and "cli_contract rdf2ids_options r'"
  shows "snd (deduplicated_nt_main level_of env r) = tool_exception env r \<and>
         snd (rdf2ids_main level_of env r') = tool_exception env r' \<and>
         (\<forall>e. Some e \<in> {tool_exception env r, tool_exception env r'} \<longrightarrow>
            e = no_value \<or> (\<exists>f. e = RuntimeError (''unable to open provided file '' @ f)))"
proof -
  have "decl_contract r (opt ''f'' ''file'' TString None)" "decl_contract r' (opt ''f'' ''file'' TString None)"
    using assms by (simp_all add: cli_contract_def deduplicated_nt_options_def rdf2ids_options_def)
  then have "e = no_value \<or> (\<exists>f. e = RuntimeError (''unable to open provided file '' @ f))"
    if "Some e \<in> {tool_exception env r, tool_exception env r'}" for e
    using that file_readable [of r env e] file_readable [of r' env e] by (elim insertE) simp_all
  then show ?thesis
    by (simp only: deduplicated_nt_exception [OF assms(1)] rdf2ids_exception [OF assms(2)] simp_thms) blast
qed

text \<open>Without any option both tools end with the exception.\<close>

theorem tool_options_typed_witness:
  "snd (deduplicated_nt_main id sample_tool (no_options deduplicated_nt_options)) = Some no_value \<and>
   snd (rdf2ids_main id sample_tool (no_options rdf2ids_options)) = Some no_value"
proof -
  have "cli_contract deduplicated_nt_options (no_options deduplicated_nt_options)"
    "cli_contract rdf2ids_options (no_options rdf2ids_options)"
    by (rule no_options_contract, simp add: deduplicated_nt_options_def rdf2ids_options_def)+
  from tool_options_typed [OF this, of id sample_tool] show ?thesis
    by (simp add: tool_exception_def no_options_def)
qed

end
