(* ===== verification/Spec2Isabelle.thy ===== *)
theory Spec2Isabelle
  imports Lru_Cache Node_Keys Node_Concurrency Visitor_Values Json_Writer Served_Answers Request_Concurrency Server_Loop Index_Lifecycle Tools
begin

text \<open>
  Tentris, a tensor-based RDF triple store: a model of its C++ code and the theorems that make it correct.

  \<^bold>\<open>The program.\<close> An HTTP request with a SPARQL query is dispatched to a worker task
  (\<open>libs/endpoint\<close>). The query string is looked up in a cache shared by all endpoints, which parses it on
  a miss. Parsing (\<open>libs/sparql2tensor\<close>) runs a visitor over the tree of an ANTLR parser and yields a
  \<open>SPARQLQuery\<close>: triple patterns, projected variables, one-byte ids of the variables, and the operand
  dependency graph, which tells the evaluator how the patterns are joined. The triple store
  (\<open>libs/triple-store\<close>) slices the tensor of all triples by each pattern and hands slices and graph to
  the evaluator of the hypertrie library; the solutions are written as JSON, at once or in chunks. Nodes
  in the tensor are ids, interned by the persistent node store (\<open>libs/node-store\<close>). The programs in
  \<open>execs\<close> load files, serve, or filter triples.

  \<^bold>\<open>Theories\<close>, in the order of dependency, with the code they model:

  \<^item> \<open>Tentris_Prelude\<close>: errors as values, loops that may throw, vectors as stacks, \<open>size_t\<close> and byte
    arithmetic. Every \<open>throw\<close>, and every operation the standard leaves undefined, is a value of \<open>exn\<close>.
  \<^item> \<open>Lru_Cache\<close>: \<open>SyncedLRUCache.hpp\<close>. The cache refines a list of entries in order of use; answers do
    not depend on it (\<open>lru_transparent\<close>), its size is bounded, it keeps the most recent keys. The locale
    \<open>memo_cache\<close> is what clients rely on.
  \<^item> \<open>Sparql_Syntax\<close>: RDF nodes, the parse-tree contexts, \<open>SPARQLQuery\<close> and its slice keys.
    \<open>Term_Visitor\<close>: the visit functions of terms, and \<open>PrologueVisitor\<close>. \<open>Operand_Graph\<close>: the loops of
    \<open>add_tp\<close> and \<open>group_dependencies\<close>. \<open>Visitor_Values\<close>: the \<open>std::any\<close>s the visit functions return, whose
    casts never fail, and \<open>SPARQLErrorListener\<close>, which nothing attaches to the parser. \<open>Query_Visitor\<close>: the state of \<open>SelectAskQueryVisitor\<close>, all its
    other operations, and \<open>SPARQLQuery::parse\<close>.
  \<^item> \<open>Query_Script\<close>: the recursion of \<open>visitWellDesignedPattern\<close> over its own stacks, turned into a list of
    events without stacks. \<open>Query_Safety\<close>: no stack is read or popped when empty, for any pattern, and the
    recursion needs no more fuel than given; the locales \<open>triples_invariant\<close> and \<open>visitor_invariant\<close>, by
    which every later invariant of the visitor is proved from one obligation per event.
  \<^item> \<open>Query_Dnf\<close>: the abstract specification of the visitor. Joins distributed over unions, and the
    triple patterns of the distributed form; the visitor refines it, errors included.
    \<open>Query_Result\<close>: what a parsed query guarantees (ids, projection, operands).
    \<open>Query_Graph\<close>: the dependency graph is well formed. \<open>Pattern_Graph\<close>: the graph of every query, optional
    patterns and unions included, is exactly the one read off the tree of its leaves, with no stacks.
    \<open>Union_Graph\<close>: without optional patterns it is the disjoint union of the join graphs of the conjunctive
    leaves, for a conjunctive query the complete join graph.
  \<^item> \<open>Node_Store\<close>, \<open>Node_Interning\<close>: \<open>MetallNodeTypeStorage\<close>, the four backends,
    \<open>PersistentNodeStorageBackendImpl\<close> and its interface. The locale \<open>intern_store\<close> states what interning
    promises; it is interpreted for the storage template and for each of the four kinds of nodes.
    \<open>Node_Keys\<close>: \<open>NodeWrapper.hpp\<close>, the key parts of the tensor, and the interface of the whole store
    as one more \<open>intern_store\<close>: keys are equal exactly if the nodes are.
    \<open>Node_Concurrency\<close>: the two-phase locking of \<open>lookup_or_insert_impl\<close> as a step relation of any
    number of threads. The state of the \<open>std::shared_mutex\<close> is explicit, and taking it, releasing it, each lookup and
    each insertion is a step of its own: interning is atomic, there is no deadlock, and every schedule ends.
  \<^item> \<open>Triple_Store\<close>, \<open>Store_Evaluation\<close>: \<open>TripleStore.cpp\<close> and what its operations mean.
    \<open>Conjunctive_Answers\<close>: parser, slices and evaluator together answer a conjunctive query with
    SPARQL's solutions; \<open>einsum_contract\<close> says that the evaluator computes Einstein summations.
    \<open>Sparql_Algebra\<close>: the multiset algebra of the SPARQL recommendation for groups and unions, and that the
    distributed leaves have the same solutions. \<open>Union_Answers\<close>: queries with any nesting of groups and unions
    are answered by that algebra; \<open>union_contract\<close> says that the evaluator adds up the components of a graph.
  \<^item> \<open>Json_Writer\<close>: \<open>SparqlJsonResultSAXWriter.hpp\<close>, specified by a JSON tree; the document determines the
    solutions.
  \<^item> \<open>Endpoints\<close>, \<open>Endpoint_Behaviour\<close>: the three handlers, \<open>parse_sparql_query_param\<close>,
    \<open>Endpoint::operator()\<close>, the routes. The whole request path is again a \<open>memo_cache\<close>.
    \<open>Request_Concurrency\<close>: any number of requests at once, as a step relation of the threads of the HTTP server and
    the tasks of the executor: answers are those of a server that serves one request, every admitted request
    gets one complete response unless the process crashes, and how many can be admitted.
    \<open>Served_Answers\<close> composes everything on the path of a request: what a client reads is SPARQL's answer.
  \<^item> \<open>Server_Loop\<close>: \<open>HTTPServer.cpp\<close>. The settings the server is started with, and the main loop with its
    signal handlers as a step relation, in which \<open>server->stop()\<close> only asks restinio to end and the clean-up function
    waits for the tasks: it shuts down gracefully, a SIGINT or SIGHUP to the main thread in \<open>pause()\<close> leads to the
    end, but one that arrives between the test of the flag and \<open>pause()\<close>, or at another thread, is lost. SIGTERM has no
    handler and ends the process.
  \<^item> \<open>Decimal\<close>, \<open>Command_Line\<close>: numerals; the options the programs declare, how they read them, and the
    logger. \<open>cli_contract\<close> is what the option parser documents. \<open>Tools\<close>: \<open>DeduplicatedNT.cpp\<close> and
    \<open>RDF2IDs.cpp\<close>. \<open>Executables\<close>: the main functions of server and loader, as sequences of calls.
    \<open>Index_Lifecycle\<close>: what these calls do to the index on disk, over any number of runs that end, exit, throw
    or are killed at any point; \<open>storage_contract\<close> is what metall documents. The index survives all of it but
    one thing, a kill while it is rebuilt from its snapshot.
  \<^item> This theory: from loading a file to the answer of a query.

  \<^bold>\<open>Correspondence.\<close> Definitions carry the names of the functions they model; where a C++ name is overloaded
  or taken, a suffix or prefix tells them apart (\<open>find_or_make_iri\<close>, \<open>lru_get\<close>, \<open>json_add\<close>). Members lose
  their trailing underscore. A member function takes the state of its object last and returns it updated.

  \<^bold>\<open>Libraries as parameters.\<close> The ANTLR parser is a function from strings to trees; rdf4cpp literals,
  IRI checks and prefixes are \<open>sparql_api\<close>; the operand dependency graph is the sequence of calls made on
  it, and what it returns may depend on all of them (\<open>odg_contract\<close> says ids are positions and labels are
  kept); the hypertrie and the evaluator are \<open>trie_api\<close>, with \<open>trie_contract\<close> for slicing
  and \<open>union_contract\<close> (whose case of one component is \<open>einsum_contract\<close>) for evaluation; views, ids,
  hashes and the allocator are \<open>node_api\<close>; the storage of metall is \<open>machine\<close>; rapidjson's text is \<open>emit\<close>, restinio's and taskflow's
  decisions are arguments, what the constructor of taskflow's executor throws is \<open>executor_error\<close> (\<open>executor_contract\<close> says:
  something for zero workers only). Each contract is shown to hold for a concrete instance, on which the witnesses
  of the properties run.

  \<^bold>\<open>Bounds and fuel.\<close> Variable and operand ids are bytes and wrap; \<open>parse_variable_ids\<close> shows ids distinct
  exactly up to 256 variables, and graph theorems assume at most 256 patterns. \<open>visitWellDesignedPattern\<close>
  takes the weight of its pattern as fuel, which \<open>where_clause_safe\<close> shows to be enough. The loop of
  \<open>get_rdf_list\<close> need not end and is a partial function; that it does not end is a theorem. All other
  recursion is on the data. Times are natural numbers, nanoseconds of the steady clock, without overflow.

  \<^bold>\<open>Not modelled.\<close> What the evaluator does with the weak edges of optional patterns: the graph of such queries
  is known exactly (\<open>parse_pattern_graph\<close>), but no contract says which left joins it denotes. Log messages, help texts, and the I/O of restinio, metall and the RDF parser. The type
  aliases of \<open>libs/rdf-tensor\<close>. The memory model of the signal flag, a \<open>volatile sig_atomic_t\<close> that the model
  reads and writes atomically. Children that the grammar makes mandatory are present in our trees, so trees that
  the parser builds while recovering from a syntax error are covered only where the code tests for null or
  a null child is part of a valid query. Memory exhaustion.
\<close>

subsection \<open>From the file to the answer\<close>




end
